(* ===== verification/Prelude.thy ===== *)
theory Prelude
  imports Main "HOL-Library.Word"
begin

text \<open>
  Shared ground of the development: the machine integer types of the kernel (32-bit x86,
  \<^verbatim>\<open>gcc -m32\<close>), the way a C function can fail, generic facts on words, lists and
  transition systems, and the theorem collections the component theories fill and use.

  \<^item> \<open>u8\<close>, \<open>u16\<close>, \<open>u32\<close>, \<open>u64\<close> are the \<^verbatim>\<open>uintN_t\<close> of the sources; \<open>int\<close> and \<open>size_t\<close>
    are 32 bits wide, pointers are \<open>u32\<close> values and \<^verbatim>\<open>NULL\<close> is \<open>0\<close>.
  \<^item> \<open>fault\<close> lists the ways a kernel function can stop: \<^verbatim>\<open>panic\<close> and \<^verbatim>\<open>BUG_ON\<close> (which never
    return), and the accesses for which C defines no result.
  \<^item> \<open>reach\<close> and the locale \<open>invariant_system\<close> are the reachability interface that the step
    relations of the components instantiate.
\<close>

unbundle bit_operations_syntax

section \<open>Types\<close>

type_synonym u8 = "8 word"
type_synonym u16 = "16 word"
type_synonym u32 = "32 word"
type_synonym u64 = "64 word"

datatype fault =
    Panic string        \<comment> \<open>\<^verbatim>\<open>panic\<close> or a failed \<^verbatim>\<open>BUG_ON\<close>, with its message\<close>
  | Null_Deref          \<comment> \<open>access through \<^verbatim>\<open>NULL\<close>\<close>
  | Out_Of_Bounds       \<comment> \<open>access outside an array\<close>
  | Div_By_Zero         \<comment> \<open>the processor's divide error\<close>
  | Bad_Arg             \<comment> \<open>a variadic argument that is missing or of another type\<close>

type_synonym 'a result = "fault + 'a"

text \<open>A computation that may not return (\<^const>\<open>None\<close>) or may fault, followed by another.\<close>

definition bindk :: "'a result option \<Rightarrow> ('a \<Rightarrow> 'b result option) \<Rightarrow> 'b result option" where
  "bindk r f = (case r of None \<Rightarrow> None | Some (Inl e) \<Rightarrow> Some (Inl e) | Some (Inr x) \<Rightarrow> f x)"

lemma bindk_simps [simp]:
  "bindk None f = None" "bindk (Some (Inl e)) f = Some (Inl e)" "bindk (Some (Inr x)) f = f x"
  by (simp_all add: bindk_def)

lemma bindk_Some_Inr:
  "bindk r f = Some (Inr y) \<longleftrightarrow> (\<exists>x. r = Some (Inr x) \<and> f x = Some (Inr y))"
  by (auto simp: bindk_def split: option.split sum.split)

lemma bindk_returns: "r \<noteq> None \<Longrightarrow> (\<And>x. f x \<noteq> None) \<Longrightarrow> bindk r f \<noteq> None"
  by (auto simp: bindk_def split: option.split sum.split)

abbreviation (input) NULL :: u32 where "NULL \<equiv> 0"

section \<open>Theorem collections\<close>

named_theorems word_facts \<open>bit-level and arithmetic facts on machine words\<close>
named_theorems mem_simps \<open>reads of memory after writes\<close>
named_theorems page_simps \<open>page arithmetic\<close>

section \<open>Words\<close>

lemma and_mask_unat: "unat ((a::'a::len word) AND mask n) = unat a mod 2 ^ n"
  by (metis take_bit_eq_mask take_bit_eq_mod unsigned_take_bit_eq)

lemma and_not_mask: "(a::'a::len word) AND NOT (mask n) = a - (a AND mask n)"
proof -
  have "(a AND NOT (mask n)) + (a AND mask n) = (a AND NOT (mask n)) OR (a AND mask n)"
    by (rule disjunctive_add_eq_or) (rule bit_word_eqI, auto simp: bit_simps)
  also have "\<dots> = a" by (rule bit_word_eqI) (auto simp: bit_simps)
  finally show ?thesis by (simp add: eq_diff_eq)
qed

lemma and_not_mask_unat: "unat ((a::'a::len word) AND NOT (mask n)) = unat a div 2 ^ n * 2 ^ n"
proof -
  have le: "a AND mask n \<le> a" by (simp add: word_le_nat_alt and_mask_unat)
  show ?thesis by (simp add: and_not_mask unat_sub [OF le] and_mask_unat minus_mod_eq_div_mult)
qed

lemma unat_add_lt: "unat (a::'a::len word) + unat b < 2 ^ LENGTH('a) \<Longrightarrow> unat (a + b) = unat a + unat b"
  by (simp add: unat_word_ariths)

lemma unat_pred: "(a::'a::len word) \<noteq> 0 \<Longrightarrow> unat (a - 1) = unat a - 1"
  by (simp add: unat_minus_one)

lemma unat_pred_less: "0 < (a::'a::len word) \<Longrightarrow> unat (a - 1) < unat a"
  by (metis unat_pred word_gt_0 unat_gt_0 diff_less zero_less_one)

lemma unat_uminus: "(d::'a::len word) \<noteq> 0 \<Longrightarrow> unat (- d) = 2 ^ LENGTH('a) - unat d"
proof -
  assume d: "d \<noteq> 0"
  have "(unat d + unat (- d)) mod 2 ^ LENGTH('a) = 0"
    by (metis add.right_inverse unat_0 unat_word_ariths(1))
  moreover have "unat d + unat (- d) < 2 * 2 ^ LENGTH('a)"
    using unsigned_less [of d, where ?'a = nat] unsigned_less [of "- d", where ?'a = nat]
    by linarith
  moreover have "0 < unat d" using d by (simp add: unat_gt_0)
  ultimately have "unat d + unat (- d) = 2 ^ LENGTH('a)"
    by (auto simp: mod_eq_0_iff_dvd less_2_cases_iff elim!: dvdE)
  then show ?thesis by simp
qed

lemma word_gt_0_unat: "(0::'a::len word) < a \<longleftrightarrow> 0 < unat a"
  by (simp add: word_less_nat_alt)

lemma of_nat_less_u32: "n < 4294967296 \<Longrightarrow> unat (of_nat n :: u32) = n"
  by (simp add: unsigned_of_nat take_bit_nat_eq_self)

lemma u8_lt_256: "unat (x::u8) < 256"
  using unsigned_less [of x, where ?'a = nat] by simp

lemma u16_lt: "unat (x::u16) < 65536"
  using unsigned_less [of x, where ?'a = nat] by simp

lemma u32_lt: "unat (x::u32) < 4294967296"
  using unsigned_less [of x, where ?'a = nat] by simp

lemma unat_ucast_8_32 [simp]: "unat (ucast (c::u8) :: u32) = unat c"
  using u8_lt_256 [of c] by (simp add: unsigned_ucast_eq take_bit_nat_eq_self)

lemma unat_ucast_16_32 [simp]: "unat (ucast (c::u16) :: u32) = unat c"
  using u16_lt [of c] by (simp add: unsigned_ucast_eq take_bit_nat_eq_self)

lemma uint_u32_lt [simp]: "uint (x::u32) < 4294967296"
  using u32_lt [of x] unfolding uint_nat by linarith

lemma sint_u32: "sint (a::u32) = (if unat a < 2147483648 then int (unat a) else int (unat a) - 4294967296)"
proof -
  define n where "n = int (unat a)"
  have n: "0 \<le> n" "n < 4294967296" using u32_lt [of a] unfolding n_def by linarith+
  have "sint a = (uint a + 2147483648) mod 4294967296 - 2147483648"
    by (simp add: sint_uint signed_take_bit_eq_take_bit_shift take_bit_eq_mod)
  then have s: "sint a = (n + 2147483648) mod 4294967296 - 2147483648" by (simp add: n_def)
  show ?thesis
  proof (cases "n < 2147483648")
    case True
    with n s have "sint a = n" by (simp add: mod_pos_pos_trivial)
    moreover have "unat a < 2147483648" using True unfolding n_def by linarith
    ultimately show ?thesis by (simp add: n_def)
  next
    case False
    have "(n + 2147483648) mod 4294967296 = (n - 2147483648 + 4294967296) mod 4294967296" by (simp add: add.commute)
    also have "\<dots> = (n - 2147483648) mod 4294967296" by (rule mod_add_self2)
    also have "\<dots> = n - 2147483648" using False n by (simp add: mod_pos_pos_trivial)
    finally have "sint a = n - 4294967296" using s by simp
    moreover have "\<not> unat a < 2147483648" using False unfolding n_def by linarith
    ultimately show ?thesis by (simp add: n_def)
  qed
qed

lemma block_split:
  assumes "r < n" "s < n" "n * P + r = n * Q + (s::nat)"
  shows "P = Q \<and> r = s"
proof -
  have "(n * P + r) div n = P" "(n * Q + s) div n = Q" using assms(1,2) by simp_all
  with assms(3) show ?thesis by simp
qed

section \<open>First matches\<close>

lemma find_upt_Some: "find P [0..<n] = Some j \<longleftrightarrow> j < n \<and> P j \<and> (\<forall>k<j. \<not> P k)"
  by (auto simp: find_Some_iff)

lemma find_upt_None: "find P [0..<n] = None \<longleftrightarrow> (\<forall>i<n. \<not> P i)"
  by (auto simp: find_None_iff)

lemma find_append: "find P (xs @ ys) = (case find P xs of None \<Rightarrow> find P ys | Some x \<Rightarrow> Some x)"
  by (induction xs) auto

section \<open>Half-open address ranges\<close>

text \<open>
  \<open>in_range p n a\<close>: the address \<open>a\<close> is one of the \<open>n\<close> addresses from \<open>p\<close> on. The difference is
  taken modulo \<open>2 ^ 32\<close>, so the definition is right for every \<open>p\<close>, also where the range wraps.
\<close>

definition in_range :: "u32 \<Rightarrow> u32 \<Rightarrow> u32 \<Rightarrow> bool" where
  "in_range p n a \<longleftrightarrow> a - p < n"

lemma in_range_start [simp]: "0 < n \<Longrightarrow> in_range p n p"
  by (simp add: in_range_def)

lemma in_range_offset [simp]: "in_range p n (p + k) \<longleftrightarrow> k < n"
  by (simp add: in_range_def)

lemma in_range_0 [simp]: "\<not> in_range p 0 a"
  by (simp add: in_range_def)

lemma in_range_step:
  assumes "0 < (n::u32)"
  shows "in_range p n a \<longleftrightarrow> a = p \<or> in_range (p + 1) (n - 1) a"
proof -
  have "x < n \<longleftrightarrow> x = 0 \<or> x - 1 < n - 1" for x :: u32
    using assms by unat_arith
  from this [of "a - p"] show ?thesis by (simp add: in_range_def diff_diff_eq)
qed

lemma in_range_sub:
  assumes "in_range (p + k) n a" "unat k + unat n \<le> unat N"
  shows "in_range p N a"
proof -
  define d where "d = a - (p + k)"
  have ad: "a - p = k + d" by (simp add: d_def)
  have d: "unat d < unat n" using assms(1) by (simp add: in_range_def word_less_nat_alt d_def)
  have "unat k + unat d < 4294967296" using d assms(2) u32_lt [of N] by linarith
  then have "unat (k + d) = unat k + unat d" by (intro unat_add_lt) simp
  then show ?thesis unfolding in_range_def word_less_nat_alt ad using d assms(2) by linarith
qed

section \<open>Reachable states and invariants\<close>

inductive reach :: "('s \<Rightarrow> bool) \<Rightarrow> ('s \<Rightarrow> 's \<Rightarrow> bool) \<Rightarrow> 's \<Rightarrow> bool"
  for init :: "'s \<Rightarrow> bool" and step :: "'s \<Rightarrow> 's \<Rightarrow> bool" where
  reach_init: "init s \<Longrightarrow> reach init step s"
| reach_step: "reach init step s \<Longrightarrow> step s t \<Longrightarrow> reach init step t"

locale invariant_system =
  fixes init :: "'s \<Rightarrow> bool" and step :: "'s \<Rightarrow> 's \<Rightarrow> bool" and inv :: "'s \<Rightarrow> bool"
  assumes inv_init: "init s \<Longrightarrow> inv s"
    and inv_step: "inv s \<Longrightarrow> step s t \<Longrightarrow> inv t"
begin

lemma reach_inv: "reach init step s \<Longrightarrow> inv s"
  by (induction rule: reach.induct) (auto intro: inv_init inv_step)

lemma steps_inv: "step\<^sup>*\<^sup>* s t \<Longrightarrow> inv s \<Longrightarrow> inv t"
  by (induction rule: rtranclp_induct) (auto intro: inv_step)

lemma step_reach_inv: "reach init step s \<Longrightarrow> step s t \<Longrightarrow> inv t"
  by (blast intro: reach_inv inv_step)

end

end
