(* ===== verification/Memory.thy ===== *)
theory Memory
  imports Prelude
begin

text \<open>
  Byte-addressed memory and the string routines of \<^verbatim>\<open>src/common.h\<close>.

  Memory is a total map from 32-bit virtual addresses to bytes; 16- and 32-bit accesses are
  little-endian, as on x86. The loops of \<open>memset\<close>, \<open>memcpy\<close> and \<open>memcmp\<close> are functions that
  count \<open>size_t\<close> down as the C does; \<open>strlen\<close>, which need not stop, is a partial function.
  The lemmas give the pointwise effect of each routine, with exactly the overlap condition
  under which the forward copy of \<open>memcpy\<close> is a copy.
\<close>

type_synonym mem = "u32 \<Rightarrow> u8"

section \<open>Multi-byte accesses\<close>

definition load16 :: "mem \<Rightarrow> u32 \<Rightarrow> u16" where
  "load16 m a = ucast (m a) OR push_bit 8 (ucast (m (a + 1)))"

definition store16 :: "mem \<Rightarrow> u32 \<Rightarrow> u16 \<Rightarrow> mem" where
  "store16 m a v = m(a := ucast v, a + 1 := ucast (drop_bit 8 v))"

definition load32 :: "mem \<Rightarrow> u32 \<Rightarrow> u32" where
  "load32 m a = ucast (m a) OR push_bit 8 (ucast (m (a + 1)))
     OR push_bit 16 (ucast (m (a + 2))) OR push_bit 24 (ucast (m (a + 3)))"

definition store32 :: "mem \<Rightarrow> u32 \<Rightarrow> u32 \<Rightarrow> mem" where
  "store32 m a v = m(a := ucast v, a + 1 := ucast (drop_bit 8 v),
     a + 2 := ucast (drop_bit 16 v), a + 3 := ucast (drop_bit 24 v))"

section \<open>The routines of common.h\<close>

text \<open>\<open>memcmp\<close> compares objects that may live in different memories (a string literal against
  mapped firmware tables), so each pointer comes with its memory.\<close>

function memcmp :: "mem \<Rightarrow> u32 \<Rightarrow> mem \<Rightarrow> u32 \<Rightarrow> u32 \<Rightarrow> int" where
  "memcmp m1 s1 m2 s2 count =
     (if count > 0 then
        if m1 s1 \<noteq> m2 s2 then (if m1 s1 < m2 s2 then -1 else 1)
        else memcmp m1 (s1 + 1) m2 (s2 + 1) (count - 1)
      else 0)"
  by pat_completeness auto
termination
  by (relation "measure (\<lambda>(m1, s1, m2, s2, count). unat count)")
     (auto simp: unat_pred_less)

function memset :: "mem \<Rightarrow> u32 \<Rightarrow> u32 \<Rightarrow> u32 \<Rightarrow> mem" where
  "memset m p ch sz = (if sz > 0 then memset (m(p := ucast ch)) (p + 1) ch (sz - 1) else m)"
  by pat_completeness auto
termination
  by (relation "measure (\<lambda>(m, p, ch, sz). unat sz)") (auto simp: unat_pred_less)

function memcpy :: "mem \<Rightarrow> u32 \<Rightarrow> u32 \<Rightarrow> u32 \<Rightarrow> mem" where
  "memcpy m dst src sz =
     (if sz > 0 then memcpy (m(dst := m src)) (dst + 1) (src + 1) (sz - 1) else m)"
  by pat_completeness auto
termination
  by (relation "measure (\<lambda>(m, d, s, sz). unat sz)") (auto simp: unat_pred_less)

partial_function (option) strlen_loop :: "mem \<Rightarrow> u32 \<Rightarrow> u32 \<Rightarrow> u32 option" where
  "strlen_loop m str len = (if m (str + len) \<noteq> 0 then strlen_loop m str (len + 1) else Some len)"

definition strlen :: "mem \<Rightarrow> u32 \<Rightarrow> u32 option" where
  "strlen m str = strlen_loop m str 0"

declare memcmp.simps [simp del] memset.simps [simp del] memcpy.simps [simp del]

section \<open>Reads after writes\<close>

lemma bytes_join16 [word_facts]:
  "ucast (ucast v :: u8) OR push_bit 8 (ucast (ucast (drop_bit 8 v) :: u8)) = (v :: u16)"
proof (rule bit_word_eqI)
  fix n assume n: "n < LENGTH(16)"
  show "bit (ucast (ucast v :: u8) OR push_bit 8 (ucast (ucast (drop_bit 8 v) :: u8)) :: u16) n
    \<longleftrightarrow> bit v n"
    using n by (simp add: bit_simps) (cases "n < 8"; auto)
qed

lemma bytes_join32 [word_facts]:
  "ucast (ucast v :: u8) OR push_bit 8 (ucast (ucast (drop_bit 8 v) :: u8))
     OR push_bit 16 (ucast (ucast (drop_bit 16 v) :: u8))
     OR push_bit 24 (ucast (ucast (drop_bit 24 v) :: u8)) = (v :: u32)"
proof (rule bit_word_eqI)
  fix n assume n: "n < LENGTH(32)"
  show "bit (ucast (ucast v :: u8) OR push_bit 8 (ucast (ucast (drop_bit 8 v) :: u8))
     OR push_bit 16 (ucast (ucast (drop_bit 16 v) :: u8))
     OR push_bit 24 (ucast (ucast (drop_bit 24 v) :: u8)) :: u32) n \<longleftrightarrow> bit v n"
    using n by (simp add: bit_simps) (cases "n < 8"; cases "n < 16"; cases "n < 24"; auto)
qed

lemma load16_store16_same [simp, mem_simps]: "load16 (store16 m a v) a = v"
  by (simp add: load16_def store16_def bytes_join16)

lemma load32_store32_same [simp, mem_simps]: "load32 (store32 m a v) a = v"
  by (simp add: load32_def store32_def bytes_join32)

lemma store32_twice [simp, mem_simps]: "store32 (store32 m a v) a w = store32 m a w"
  by (simp add: store32_def fun_eq_iff)

text \<open>An access leaves every byte outside its own range alone.\<close>

lemma store16_frame [mem_simps]: "\<not> in_range p 2 a \<Longrightarrow> store16 m p v a = m a"
  by (auto simp: store16_def in_range_def)

lemma store32_frame [mem_simps]: "\<not> in_range p 4 a \<Longrightarrow> store32 m p v a = m a"
  by (auto simp: store32_def in_range_def)

lemma load16_cong:
  assumes "\<And>k. k < 2 \<Longrightarrow> m (a + k) = m' (a + k)"
  shows "load16 m a = load16 m' a"
  using assms [of 0] assms [of 1] by (simp add: load16_def)

lemma load32_cong:
  assumes "\<And>k. k < 4 \<Longrightarrow> m (a + k) = m' (a + k)"
  shows "load32 m a = load32 m' a"
  using assms [of 0] assms [of 1] assms [of 2] assms [of 3] by (simp add: load32_def)

lemma range_sep:
  fixes a b k n :: u32
  assumes "n \<le> a - b" "n' \<le> b - a" "k < n'"
  shows "\<not> in_range b n (a + k)"
proof (cases "a = b")
  case False
  have "unat (b - a) = 4294967296 - unat (a - b)" using unat_uminus [of "a - b"] False by simp
  moreover have "unat k < unat (b - a)"
    using assms(2,3) by (simp add: word_less_nat_alt word_le_nat_alt)
  ultimately have "unat (a - b + k) = unat (a - b) + unat k" by (intro unat_add_lt) simp
  moreover have "unat n \<le> unat (a - b)" using assms(1) by (simp add: word_le_nat_alt)
  ultimately have "\<not> a - b + k < n" unfolding word_less_nat_alt by linarith
  then show ?thesis by (simp add: in_range_def diff_add_eq)
qed (use assms in \<open>simp add: in_range_def\<close>)

lemma load32_store32_sep [mem_simps]:
  "4 \<le> a - b \<Longrightarrow> 4 \<le> b - a \<Longrightarrow> load32 (store32 m b v) a = load32 m a"
  by (rule load32_cong) (metis store32_frame range_sep)

lemma load16_store16_sep [mem_simps]:
  "2 \<le> a - b \<Longrightarrow> 2 \<le> b - a \<Longrightarrow> load16 (store16 m b v) a = load16 m a"
  by (rule load16_cong) (metis store16_frame range_sep)

lemma load16_store32_sep [mem_simps]:
  "4 \<le> a - b \<Longrightarrow> 2 \<le> b - a \<Longrightarrow> load16 (store32 m b v) a = load16 m a"
  by (rule load16_cong) (metis store32_frame range_sep)

lemma load32_store16_sep [mem_simps]:
  "2 \<le> a - b \<Longrightarrow> 4 \<le> b - a \<Longrightarrow> load32 (store16 m b v) a = load32 m a"
  by (rule load32_cong) (metis store16_frame range_sep)

section \<open>Effect of the routines\<close>

lemma memset_eq: "memset m p ch sz a = (if in_range p sz a then ucast ch else m a)"
proof (induction m p ch sz arbitrary: a rule: memset.induct)
  case (1 m p ch sz)
  show ?case
  proof (cases "sz > 0")
    case True
    have nr: "\<not> in_range (p + 1) (sz - 1) p" by (simp add: in_range_def)
    have IH: "memset (m(p := ucast ch)) (p + 1) ch (sz - 1) a
        = (if in_range (p + 1) (sz - 1) a then ucast ch else (m(p := ucast ch)) a)"
      using "1.IH" [OF True, of a] by (simp add: fun_upd_def)
    have "memset m p ch sz a = memset (m(p := ucast ch)) (p + 1) ch (sz - 1) a"
      using True by (simp add: memset.simps [of m p ch sz])
    with IH nr show ?thesis by (auto simp: in_range_step [OF True])
  qed (simp add: memset.simps [of m p ch 0] word_gt_0)
qed

lemma load32_memset_0:
  "(\<And>k. k < 4 \<Longrightarrow> in_range p sz (a + k)) \<Longrightarrow> load32 (memset m p 0 sz) a = 0"
proof -
  assume *: "\<And>k. k < 4 \<Longrightarrow> in_range p sz (a + k)"
  have "in_range p sz a" using * [of 0] by simp
  with * show ?thesis by (simp add: load32_def memset_eq)
qed

lemma load16_memset_0:
  "(\<And>k. k < 2 \<Longrightarrow> in_range p sz (a + k)) \<Longrightarrow> load16 (memset m p 0 sz) a = 0"
proof -
  assume *: "\<And>k. k < 2 \<Longrightarrow> in_range p sz (a + k)"
  have "in_range p sz a" using * [of 0] by simp
  with * show ?thesis by (simp add: load16_def memset_eq)
qed

text \<open>The forward copy of \<open>memcpy\<close> is a copy exactly because no source byte is written before
  it is read: the destination does not start inside the rest of the source.\<close>

lemma memcpy_eq:
  assumes "dst = src \<or> sz \<le> dst - src"
  shows "memcpy m dst src sz a = (if in_range dst sz a then m (src + (a - dst)) else m a)"
  using assms
proof (induction m dst src sz arbitrary: a rule: memcpy.induct)
  case (1 m dst src sz)
  show ?case
  proof (cases "sz > 0")
    case True
    let ?m = "m(dst := m src)"
    have nr: "\<not> in_range (dst + 1) (sz - 1) dst" by (simp add: in_range_def)
    have le: "sz - 1 \<le> dst - src" if "sz \<le> dst - src" using True that by unat_arith
    have IH: "memcpy ?m (dst + 1) (src + 1) (sz - 1) a
        = (if in_range (dst + 1) (sz - 1) a then ?m (src + 1 + (a - (dst + 1))) else ?m a)"
      using "1.IH" [OF True, of a] "1.prems" le by (auto simp: fun_upd_def)
    have keep: "?m (src + (a - dst)) = m (src + (a - dst))" if "in_range dst sz a"
    proof (cases "dst = src")
      case False
      with "1.prems" that have "src + (a - dst) \<noteq> dst"
        unfolding in_range_def by (metis add_diff_cancel_left' linorder_not_le)
      then show ?thesis by simp
    qed auto
    have "memcpy m dst src sz a = memcpy ?m (dst + 1) (src + 1) (sz - 1) a"
      using True by (simp add: memcpy.simps [of m dst src sz])
    moreover have "src + 1 + (a - (dst + 1)) = src + (a - dst)" by (simp add: algebra_simps)
    ultimately show ?thesis
      using IH nr keep by (auto simp: in_range_step [OF True] split: if_splits)
  qed (simp add: memcpy.simps [of m dst src 0] word_gt_0)
qed

lemma memcmp_zero_iff: "memcmp m1 s1 m2 s2 n = 0 \<longleftrightarrow> (\<forall>k<n. m1 (s1 + k) = m2 (s2 + k))"
proof (induction m1 s1 m2 s2 n rule: memcmp.induct)
  case (1 m1 s1 m2 s2 n)
  show ?case
  proof (cases "n > 0")
    case True
    have split: "(\<forall>k<n. P k) \<longleftrightarrow> P 0 \<and> (\<forall>k<n - 1. P (1 + k))" for P :: "u32 \<Rightarrow> bool"
    proof -
      have "k < n \<Longrightarrow> k = 0 \<or> (\<exists>j<n - 1. k = 1 + j)" for k
        using in_range_step [OF True, of 0 k] by (auto simp: in_range_def intro: exI [of _ "k - 1"])
      moreover have "k < n - 1 \<Longrightarrow> 1 + k < n" for k using True by unat_arith
      ultimately show ?thesis using True by blast
    qed
    show ?thesis
      using "1.IH" [OF True] True
      by (subst memcmp.simps) (auto simp: split add.assoc)
  qed (simp add: memcmp.simps [of m1 s1 m2 s2 0] word_gt_0)
qed

lemma memcmp_range: "memcmp m1 s1 m2 s2 n \<in> {-1, 0, 1}"
  by (induction m1 s1 m2 s2 n rule: memcmp.induct) (subst memcmp.simps, simp)

lemma strlen_loop_Some:
  assumes "m (str + n) = 0" and "len \<le> n" and "\<And>k. len \<le> k \<Longrightarrow> k < n \<Longrightarrow> m (str + k) \<noteq> 0"
  shows "strlen_loop m str len = Some n"
  using assms(2,3)
proof (induction "unat n - unat len" arbitrary: len)
  case 0
  then have "len = n" by (simp add: word_le_nat_alt word_unat_eq_iff)
  with assms(1) show ?case by (simp add: strlen_loop.simps)
next
  case (Suc d)
  from Suc.hyps(2) have lt: "len < n" by (simp add: word_less_nat_alt)
  have *: "unat n - unat (len + 1) = d" "len + 1 \<le> n" using lt Suc.hyps(2) by unat_arith+
  have "len + 1 \<le> k \<Longrightarrow> len \<le> k" for k using lt by unat_arith
  with Suc.hyps(1) [of "len + 1"] * Suc.prems(2) have "strlen_loop m str (len + 1) = Some n"
    by blast
  moreover have "m (str + len) \<noteq> 0" using Suc.prems lt by simp
  ultimately show ?case by (simp add: strlen_loop.simps [of m str len])
qed

text \<open>\<open>strlen\<close> returns as soon as memory holds any zero byte at all, and what it returns is the
  distance to the first one.\<close>

lemma strlen_Some:
  assumes "m (str + n) = 0" and "\<And>k. k < n \<Longrightarrow> m (str + k) \<noteq> 0"
  shows "strlen m str = Some n"
  unfolding strlen_def using assms by (intro strlen_loop_Some) auto

lemma strlen_first_zero:
  assumes "m a = 0"
  obtains n where "strlen m str = Some n" and "m (str + n) = 0" and "\<forall>k<n. m (str + k) \<noteq> 0"
proof -
  define N where "N = (LEAST i. m (str + of_nat i) = 0)"
  have ex: "m (str + of_nat (unat (a - str))) = 0" using assms by simp
  have z: "m (str + of_nat N) = 0" unfolding N_def using ex by (rule LeastI)
  have least: "m (str + of_nat i) = 0 \<Longrightarrow> N \<le> i" for i unfolding N_def by (rule Least_le)
  have "N \<le> unat (a - str)" by (rule least [OF ex])
  then have Nlt: "N < 4294967296" using u32_lt [of "a - str"] by simp
  have nz: "m (str + k) \<noteq> 0" if "k < of_nat N" for k :: u32
  proof
    assume "m (str + k) = 0"
    then have "N \<le> unat k" using least [of "unat k"] by simp
    with that show False by (simp add: word_less_nat_alt of_nat_less_u32 [OF Nlt])
  qed
  show ?thesis by (rule that [of "of_nat N"]) (use z nz in \<open>auto intro: strlen_Some\<close>)
qed

end
