(* ===== verification/Paging.thy ===== *)
theory Paging
  imports Memory
begin

text \<open>
  The page allocator and the page tables: \<^verbatim>\<open>src/paging.c\<close>, \<^verbatim>\<open>src/paging.h\<close>, \<^verbatim>\<open>src/defs.h\<close>.

  State: \<open>kmem\<close> holds the memory, the head of the free list that lives inside the free pages
  themselves, the global \<open>kernel_pgdir\<close> and the \<open>cr3\<close> register. The linker symbols
  \<^verbatim>\<open>KERNEL_END\<close> and \<^verbatim>\<open>USERSPACE_START\<close> are arguments. The loop of \<open>map_continous\<close> does not stop
  for a size that is no multiple of the page size, so it is a partial function; that the sizes
  it is called with make it stop is a theorem.
\<close>

section \<open>Constants and address arithmetic\<close>

definition PAGE_SIZE :: u32 where "PAGE_SIZE = 4096"
definition KERNEL_HIGH :: u32 where "KERNEL_HIGH = 0xc0000000"

definition PT_PRESENT :: u32 where "PT_PRESENT = push_bit 0 1"
definition PT_WRITEABLE :: u32 where "PT_WRITEABLE = push_bit 1 1"
definition PT_USER :: u32 where "PT_USER = push_bit 2 1"
definition PT_PAGE_SIZE :: u32 where "PT_PAGE_SIZE = push_bit 7 1"

definition PGDIR_IDX :: "u32 \<Rightarrow> u32" where "PGDIR_IDX addr = drop_bit 22 addr AND 1023"
definition PT_IDX :: "u32 \<Rightarrow> u32" where "PT_IDX addr = drop_bit 12 addr AND 1023"

definition ROUNDUP :: "u32 \<Rightarrow> u32" where
  "ROUNDUP addr = (addr + PAGE_SIZE - 1) AND NOT (PAGE_SIZE - 1)"
definition ROUNDDOWN :: "u32 \<Rightarrow> u32" where
  "ROUNDDOWN addr = addr AND NOT (PAGE_SIZE - 1)"

definition virt2phys :: "u32 \<Rightarrow> u32" where "virt2phys addr = addr - KERNEL_HIGH"
definition phys2virt :: "u32 \<Rightarrow> u32" where "phys2virt addr = addr + KERNEL_HIGH"

section \<open>State and operations\<close>

record kmem =
  ram :: mem
  freelist_head :: u32
  kernel_pgdir :: u32
  cr3 :: u32

text \<open>The boot page directory, an array of 1024 entries in \<^verbatim>\<open>.boot.bss\<close>.\<close>

definition setup_paging_early :: "u32 list \<Rightarrow> u32 list" where
  "setup_paging_early early_pgdir =
     (let early_pgdir = early_pgdir[0 := PT_PRESENT OR PT_WRITEABLE OR PT_PAGE_SIZE]
      in early_pgdir[unat (PGDIR_IDX KERNEL_HIGH) := PT_PRESENT OR PT_WRITEABLE OR PT_PAGE_SIZE])"

function init_kalloc_loop :: "u32 \<Rightarrow> 'a kmem_scheme \<Rightarrow> 'a kmem_scheme" where
  "init_kalloc_loop addr s =
     (if addr < KERNEL_HIGH + 4 * push_bit 20 1
      then init_kalloc_loop (addr + PAGE_SIZE)
             (s\<lparr>ram := store32 (ram s) addr (freelist_head s), freelist_head := addr\<rparr>)
      else s)"
  by pat_completeness auto
termination
proof (relation "measure (\<lambda>(addr, s). unat (0xc0400000 :: u32) - unat addr)", goal_cases)
  case (2 addr s)
  then have lt: "unat addr < 3225419776" by (simp add: KERNEL_HIGH_def word_less_nat_alt)
  then have "unat (addr + PAGE_SIZE) = unat addr + 4096"
    by (subst unat_add_lt) (simp_all add: PAGE_SIZE_def)
  with lt show ?case by simp
qed simp

definition init_kalloc_early :: "u32 \<Rightarrow> 'a kmem_scheme \<Rightarrow> 'a kmem_scheme" where
  "init_kalloc_early KERNEL_END s = init_kalloc_loop (ROUNDUP KERNEL_END) (s\<lparr>freelist_head := NULL\<rparr>)"

definition kalloc :: "'a kmem_scheme \<Rightarrow> u32 \<times> 'a kmem_scheme" where
  "kalloc s =
     (if freelist_head s = NULL then (NULL, s)
      else (freelist_head s, s\<lparr>freelist_head := load32 (ram s) (freelist_head s)\<rparr>))"

definition kfree :: "u32 \<Rightarrow> 'a kmem_scheme \<Rightarrow> 'a kmem_scheme" where
  "kfree p s = s"

text \<open>The loop \<^verbatim>\<open>for (int i = 0; i < 1024; i++) page_table[i] = 0\<close>.\<close>

definition clear_table :: "u32 \<Rightarrow> mem \<Rightarrow> mem" where
  "clear_table page_table m = fold (\<lambda>i m. store32 m (page_table + 4 * of_nat i) 0) [0..<1024] m"

definition alloc_page :: "u32 \<Rightarrow> u32 \<Rightarrow> u32 \<Rightarrow> 'a kmem_scheme \<Rightarrow> u32 \<times> 'a kmem_scheme" where
  "alloc_page pgdir addr user s =
     (let pde = load32 (ram s) (pgdir + 4 * PGDIR_IDX addr);
          (page_table, s) =
            (if pde AND PT_PRESENT \<noteq> 0 then (phys2virt (ROUNDDOWN pde), s)
             else let (page_table, s) = kalloc s
                  in if page_table = NULL then (NULL, s)
                     else (page_table, s\<lparr>ram := clear_table page_table (ram s)\<rparr>))
      in if pde AND PT_PRESENT = 0 \<and> page_table = NULL then (NULL, s)
         else let flags = (if user \<noteq> 0 then PT_PRESENT OR PT_USER else PT_PRESENT)
              in (page_table + 4 * PT_IDX addr,
                  s\<lparr>ram := store32 (ram s) (pgdir + 4 * PGDIR_IDX addr)
                              (virt2phys page_table OR flags)\<rparr>))"

text \<open>The loop of \<open>map_continous\<close>. The result of \<open>alloc_page\<close> is used without a check, so an
  exhausted allocator is an access through \<^verbatim>\<open>NULL\<close>.\<close>

partial_function (option) map_loop ::
  "u32 \<Rightarrow> u32 \<Rightarrow> u32 \<Rightarrow> u32 \<Rightarrow> u32 \<Rightarrow> 'a kmem_scheme \<Rightarrow> 'a kmem_scheme result option" where
  "map_loop pgdir addr sz phys_addr flags s =
     (if sz > 0 then
        let r = alloc_page pgdir addr (flags AND PT_USER) s; pte = fst r; s = snd r
        in if pte = NULL then Some (Inl Null_Deref)
           else let s = s\<lparr>ram := store32 (ram s) pte (phys_addr OR PT_PRESENT)\<rparr>;
                    s = s\<lparr>ram := store32 (ram s) pte (load32 (ram s) pte OR flags)\<rparr>
                in map_loop pgdir (addr + PAGE_SIZE) (sz - PAGE_SIZE)
                     (phys_addr + PAGE_SIZE) flags s
      else Some (Inr s))"

definition map_continous ::
  "u32 \<Rightarrow> u32 \<Rightarrow> u32 \<Rightarrow> u32 \<Rightarrow> u32 \<Rightarrow> 'a kmem_scheme \<Rightarrow> 'a kmem_scheme result option" where
  "map_continous pgdir addr sz phys_addr flags s =
     map_loop pgdir (ROUNDDOWN addr) (ROUNDUP sz) (ROUNDDOWN phys_addr) flags s"

definition load_cr3 :: "u32 \<Rightarrow> 'a kmem_scheme \<Rightarrow> 'a kmem_scheme" where
  "load_cr3 pgdir s = s\<lparr>cr3 := pgdir\<rparr>"

definition init_kernel_paging :: "u32 \<Rightarrow> 'a kmem_scheme \<Rightarrow> 'a kmem_scheme result option" where
  "init_kernel_paging USERSPACE_START s =
     (let (p, s) = kalloc s; s = s\<lparr>kernel_pgdir := p\<rparr>
      in if p = NULL then Some (Inl Null_Deref)
         else let s = s\<lparr>ram := memset (ram s) p 0 PAGE_SIZE\<rparr>
              in (case map_continous p KERNEL_HIGH (4 * push_bit 20 1) 0 PT_WRITEABLE s of
                    Some (Inr s) \<Rightarrow>
                      (case map_continous p USERSPACE_START 4096 (virt2phys USERSPACE_START)
                              (PT_USER OR PT_WRITEABLE) s of
                         Some (Inr s) \<Rightarrow> Some (Inr (load_cr3 (virt2phys p) s))
                       | r \<Rightarrow> r)
                  | r \<Rightarrow> r))"

definition identity_map :: "u32 \<Rightarrow> u32 \<Rightarrow> 'a kmem_scheme \<Rightarrow> 'a kmem_scheme result option" where
  "identity_map addr sz s = map_continous (kernel_pgdir s) addr sz addr PT_WRITEABLE s"

declare init_kalloc_loop.simps [simp del]

section \<open>Page arithmetic\<close>

definition page_aligned :: "u32 \<Rightarrow> bool" where "page_aligned p \<longleftrightarrow> p AND 4095 = 0"

lemmas pt_consts = PAGE_SIZE_def KERNEL_HIGH_def PT_PRESENT_def PT_WRITEABLE_def PT_USER_def
  PT_PAGE_SIZE_def

lemma mask_12: "(mask 12 :: u32) = 4095" by (simp add: mask_eq_exp_minus_1)
lemma mask_10: "(mask 10 :: u32) = 1023" by (simp add: mask_eq_exp_minus_1)

lemma page_aligned_dvd: "page_aligned p \<longleftrightarrow> 4096 dvd unat p"
  using and_mask_dvd_nat [of 12 p] by (simp add: page_aligned_def mask_12)

lemma unat_ROUNDDOWN [page_simps]: "unat (ROUNDDOWN a) = unat a div 4096 * 4096"
  using and_not_mask_unat [of a 12] by (simp add: ROUNDDOWN_def PAGE_SIZE_def mask_12)

lemma unat_page_offset [page_simps]: "unat (a AND 4095 :: u32) = unat a mod 4096"
  using and_mask_unat [of a 12] by (simp add: mask_12)

lemma unat_PT_IDX [page_simps]: "unat (PT_IDX a) = unat a div 4096 mod 1024"
  using and_mask_unat [of "drop_bit 12 a" 10]
  by (simp add: PT_IDX_def mask_10 drop_bit_eq_div unat_div)

lemma unat_PGDIR_IDX [page_simps]: "unat (PGDIR_IDX a) = unat a div 4194304"
  using and_mask_unat [of "drop_bit 22 a" 10] u32_lt [of a]
  by (simp add: PGDIR_IDX_def mask_10 drop_bit_eq_div unat_div)

lemma PT_IDX_lt [simp]: "PT_IDX a < 1024"
  by (simp add: word_less_nat_alt unat_PT_IDX)

lemma PGDIR_IDX_lt [simp]: "PGDIR_IDX a < 1024"
  using u32_lt [of a] by (simp add: word_less_nat_alt unat_PGDIR_IDX)

lemma page_aligned_ROUNDDOWN [simp]: "page_aligned (ROUNDDOWN a)"
  by (simp add: page_aligned_dvd unat_ROUNDDOWN)

lemma ROUNDDOWN_aligned: "page_aligned a \<Longrightarrow> ROUNDDOWN a = a"
  by (simp add: page_aligned_dvd word_unat_eq_iff unat_ROUNDDOWN)

lemma page_aligned_KERNEL_HIGH [simp]: "page_aligned KERNEL_HIGH"
  by (simp add: page_aligned_def KERNEL_HIGH_def)

lemma page_aligned_PAGE_SIZE [simp]: "page_aligned PAGE_SIZE"
  by (simp add: page_aligned_def PAGE_SIZE_def)

lemma page_aligned_add: "page_aligned a \<Longrightarrow> page_aligned b \<Longrightarrow> page_aligned (a + b)"
  by (simp add: page_aligned_dvd unat_word_ariths dvd_mod)

lemma page_aligned_diff: "page_aligned a \<Longrightarrow> page_aligned b \<Longrightarrow> page_aligned (a - b)"
proof -
  have "page_aligned p \<longleftrightarrow> 4096 dvd uint p" for p
    using and_mask_dvd [of 12 p] by (simp add: page_aligned_def mask_12)
  then show "page_aligned a \<Longrightarrow> page_aligned b \<Longrightarrow> page_aligned (a - b)"
    by (simp add: uint_word_ariths dvd_mod)
qed

lemma phys2virt_virt2phys [simp]: "phys2virt (virt2phys a) = a" "virt2phys (phys2virt a) = a"
  by (simp_all add: phys2virt_def virt2phys_def)

lemma page_aligned_virt2phys [simp]: "page_aligned (virt2phys a) \<longleftrightarrow> page_aligned a"
  using page_aligned_add [of "a - KERNEL_HIGH" KERNEL_HIGH]
  by (auto simp: virt2phys_def page_aligned_diff)

lemma page_aligned_phys2virt [simp]: "page_aligned (phys2virt a) \<longleftrightarrow> page_aligned a"
  using page_aligned_diff [of "a + KERNEL_HIGH" KERNEL_HIGH]
  by (auto simp: phys2virt_def page_aligned_add)

text \<open>An entry packs a page address and twelve flag bits.\<close>

lemma low_bits_iff: "(f::u32) < 4096 \<longleftrightarrow> f AND 4095 = f"
  using mask_eq_iff [of f 12] by (simp add: mask_12 word_less_def)

lemma or_lt_4096: "(a::u32) < 4096 \<Longrightarrow> b < 4096 \<Longrightarrow> a OR b < 4096"
  by (simp add: low_bits_iff bit.conj_disj_distrib2)

lemma entry_flags: "page_aligned x \<Longrightarrow> f < 4096 \<Longrightarrow> (x OR f) AND 4095 = f"
proof -
  assume "page_aligned x" "f < 4096"
  then have "x AND 4095 = 0" "f AND 4095 = f" by (simp_all add: page_aligned_def low_bits_iff)
  then show ?thesis by (simp add: bit.conj_disj_distrib2)
qed

lemma entry_page: "page_aligned x \<Longrightarrow> f < 4096 \<Longrightarrow> ROUNDDOWN (x OR f) = x"
proof -
  assume a: "page_aligned x" "f < 4096"
  then have f: "ROUNDDOWN f = 0"
    by (simp add: word_unat_eq_iff unat_ROUNDDOWN word_less_nat_alt)
  have "ROUNDDOWN (x OR f) = ROUNDDOWN x OR ROUNDDOWN f"
    by (simp add: ROUNDDOWN_def bit.conj_disj_distrib2)
  then show ?thesis by (simp add: f ROUNDDOWN_aligned [OF a(1)])
qed

lemma aligned_or_add: "page_aligned x \<Longrightarrow> f < 4096 \<Longrightarrow> x OR f = x + f"
proof -
  assume a: "page_aligned x" "f < 4096"
  have "x AND f = x AND (f AND 4095)" using a(2) by (simp add: low_bits_iff)
  also have "\<dots> = (x AND 4095) AND f" by (simp only: ac_simps)
  also have "\<dots> = 0" using a(1) by (simp add: page_aligned_def)
  finally show ?thesis by (rule disjunctive_add_eq_or [symmetric])
qed

lemma page_offset_lt [simp]: "(a AND 4095 :: u32) < 4096"
  by (simp add: word_less_nat_alt unat_page_offset)

lemma ROUNDDOWN_diff: "ROUNDDOWN a = a - (a AND 4095)"
  using and_not_mask [of a 12] by (simp add: ROUNDDOWN_def PAGE_SIZE_def mask_12)

lemma page_offset_add: "page_aligned a \<Longrightarrow> (a + b) AND 4095 = b AND 4095"
proof -
  assume "page_aligned a"
  then obtain q where q: "unat a = 4096 * q" by (auto simp: page_aligned_dvd)
  have "unat (a + b) mod 4096 = (unat a + unat b) mod 4096"
    by (simp add: unat_word_ariths mod_mod_cancel)
  also have "\<dots> = unat b mod 4096" by (simp add: q)
  finally show ?thesis by (simp add: word_unat_eq_iff unat_page_offset)
qed

lemma ROUNDDOWN_add: "page_aligned a \<Longrightarrow> ROUNDDOWN (a + b) = a + ROUNDDOWN b"
  by (simp add: ROUNDDOWN_diff page_offset_add)

lemma unat_ROUNDUP:
  assumes "unat a + 4095 < 4294967296"
  shows "unat (ROUNDUP a) = (unat a + 4095) div 4096 * 4096"
proof -
  have "ROUNDUP a = ROUNDDOWN (a + 4095)" by (simp add: ROUNDUP_def ROUNDDOWN_def PAGE_SIZE_def add.commute)
  moreover have "unat (a + 4095) = unat a + 4095" using assms by (simp add: unat_add_lt)
  ultimately show ?thesis by (simp add: unat_ROUNDDOWN)
qed

lemma page_aligned_ROUNDUP [simp]: "page_aligned (ROUNDUP a)"
proof -
  have "ROUNDUP a = ROUNDDOWN (a + PAGE_SIZE - 1)" by (simp only: ROUNDUP_def ROUNDDOWN_def)
  then show ?thesis by (simp only: page_aligned_ROUNDDOWN)
qed

lemma same_page_iff: "PGDIR_IDX a = PGDIR_IDX b \<and> PT_IDX a = PT_IDX b \<longleftrightarrow> ROUNDDOWN a = ROUNDDOWN b"
proof -
  have "x div 4194304 = y div 4194304 \<and> x div 4096 mod 1024 = y div 4096 mod 1024
      \<longleftrightarrow> x div 4096 = y div (4096::nat)" for x y
    using div_mult2_eq [of x 4096 1024] div_mult2_eq [of y 4096 1024]
    by simp (metis div_mult_mod_eq)
  then show ?thesis by (simp add: word_unat_eq_iff page_simps)
qed

section \<open>Entries of page-sized tables\<close>

definition entry :: "mem \<Rightarrow> u32 \<Rightarrow> u32 \<Rightarrow> u32" where
  "entry m p i = load32 m (p + 4 * i)"

lemma unat_entry_addr:
  assumes "page_aligned p" "i < 1024" "k < 4"
  shows "unat (p + 4 * i + k) = unat p + 4 * unat i + unat k"
proof -
  obtain q where q: "unat p = 4096 * q" using assms(1) by (auto simp: page_aligned_dvd)
  with u32_lt [of p] have "q < 1048576" by simp
  with q have p: "unat p + 4095 < 4294967296" by simp
  have i: "unat i < 1024" "unat k < 4" using assms(2,3) by (simp_all add: word_less_nat_alt)
  have "unat (4 * i) = 4 * unat i" using i by (simp add: unat_word_ariths)
  with i p show ?thesis by (simp add: unat_add_lt)
qed

lemma entry_addr_eq:
  assumes "page_aligned p" "page_aligned q" "i < 1024" "j < 1024" "k < 4" "l < 4"
    and "p + 4 * i + k = q + 4 * j + l"
  shows "p = q \<and> i = j \<and> k = l"
proof -
  obtain P Q where "unat p = 4096 * P" "unat q = 4096 * Q"
    using assms(1,2) by (auto simp: page_aligned_dvd elim!: dvdE)
  moreover have "unat i < 1024" "unat j < 1024" "unat k < 4" "unat l < 4"
    using assms(3-6) by (simp_all add: word_less_nat_alt)
  moreover have "unat p + 4 * unat i + unat k = unat q + 4 * unat j + unat l"
    using assms by (metis unat_entry_addr)
  ultimately have "P = Q \<and> 4 * unat i + unat k = 4 * unat j + unat l"
    and kl: "unat k < 4" "unat l < 4" and pq: "unat p = 4096 * P" "unat q = 4096 * Q"
    using block_split [of "4 * unat i + unat k" 4096 "4 * unat j + unat l" P Q] by simp_all
  then have "P = Q" "unat i = unat j \<and> unat k = unat l" using block_split [of "unat k" 4] by blast+
  with pq show ?thesis by (simp add: word_unat_eq_iff)
qed

lemma entry_store32 [mem_simps]:
  assumes "page_aligned p" "page_aligned q" "i < 1024" "j < 1024"
  shows "entry (store32 m (q + 4 * j) v) p i = (if p = q \<and> i = j then v else entry m p i)"
proof (cases "p = q \<and> i = j")
  case True
  then show ?thesis by (simp add: entry_def)
next
  case False
  have "store32 m (q + 4 * j) v (p + 4 * i + k) = m (p + 4 * i + k)" if "k < 4" for k
  proof (rule store32_frame, rule notI)
    assume r: "in_range (q + 4 * j) 4 (p + 4 * i + k)"
    define l where "l = p + 4 * i + k - (q + 4 * j)"
    have "l < 4" using r by (simp add: in_range_def l_def)
    moreover have "p + 4 * i + k = q + 4 * j + l" by (simp add: l_def)
    ultimately show False using entry_addr_eq [OF assms that] False by blast
  qed
  then have "entry (store32 m (q + 4 * j) v) p i = entry m p i"
    unfolding entry_def by (rule load32_cong)
  with False show ?thesis by auto
qed

lemma entry_store32_base [mem_simps]:
  assumes "page_aligned p" "page_aligned q" "i < 1024"
  shows "entry (store32 m q v) p i = (if p = q \<and> i = 0 then v else entry m p i)"
  using entry_store32 [OF assms, of 0 m v] by simp

lemma load32_entry_0: "load32 m p = entry m p 0"
  by (simp add: entry_def)

lemma entry_clear_table [mem_simps]:
  assumes "page_aligned p" "page_aligned q" "i < 1024"
  shows "entry (clear_table q m) p i = (if p = q then 0 else entry m p i)"
proof -
  have "entry (fold (\<lambda>i m. store32 m (q + 4 * of_nat i) 0) [0..<n] m) p i
      = (if p = q \<and> unat i < n then 0 else entry m p i)" if "n \<le> 1024" for n
    using that
  proof (induction n)
    case (Suc n)
    have n: "(of_nat n :: u32) < 1024" "unat (of_nat n :: u32) = n"
      using Suc.prems by (simp_all add: word_less_nat_alt of_nat_less_u32)
    have "i = of_nat n \<longleftrightarrow> unat i = n" using n(2) by (auto simp: word_unat_eq_iff)
    with Suc entry_store32 [OF assms n(1)] show ?case by auto
  qed simp
  from this [of 1024] assms(3) show ?thesis
    by (simp add: clear_table_def word_less_nat_alt)
qed

lemma entry_memset_0 [mem_simps]:
  assumes "page_aligned p" "page_aligned q" "i < 1024"
  shows "entry (memset m q 0 PAGE_SIZE) p i = (if p = q then 0 else entry m p i)"
proof -
  obtain P Q where PQ: "unat p = 4096 * P" "unat q = 4096 * Q"
    using assms(1,2) by (auto simp: page_aligned_dvd elim!: dvdE)
  have i: "unat i < 1024" using assms(3) by (simp add: word_less_nat_alt)
  have "in_range q PAGE_SIZE (p + 4 * i + k) \<longleftrightarrow> p = q" if "k < 4" for k
  proof
    assume "p = q"
    have "unat (4 * i + k) < 4096"
      using i that by (simp add: word_less_nat_alt unat_word_ariths)
    with \<open>p = q\<close> show "in_range q PAGE_SIZE (p + 4 * i + k)"
      by (simp add: in_range_def PAGE_SIZE_def word_less_nat_alt)
  next
    assume r: "in_range q PAGE_SIZE (p + 4 * i + k)"
    define l where "l = p + 4 * i + k - q"
    have l: "unat l < 4096" using r by (simp add: in_range_def l_def PAGE_SIZE_def word_less_nat_alt)
    have "q + l = p + 4 * i + k" by (simp add: l_def)
    moreover have "unat (q + l) = unat q + unat l"
    proof (rule unat_add_lt)
      have "Q < 1048576" using PQ(2) u32_lt [of q] by simp
      then show "unat q + unat l < 2 ^ LENGTH(32)" using l PQ(2) by simp
    qed
    ultimately have "4096 * Q + unat l = 4096 * P + 4 * unat i + unat k"
      using unat_entry_addr [OF assms(1,3) that] PQ by metis
    moreover have "unat k < 4" using that by (simp add: word_less_nat_alt)
    ultimately have "P = Q" using l i block_split [of "unat l" 4096 "4 * unat i + unat k" Q P] by simp
    with PQ show "p = q" by (simp add: word_unat_eq_iff)
  qed
  then have b: "k < 4 \<Longrightarrow> memset m q 0 PAGE_SIZE (p + 4 * i + k) = (if p = q then 0 else m (p + 4 * i + k))" for k
    by (simp add: memset_eq)
  show ?thesis
  proof (cases "p = q")
    case True
    then have "load32 (memset m q 0 PAGE_SIZE) (p + 4 * i) = load32 (\<lambda>_. 0) (p + 4 * i)"
      using b by (intro load32_cong) simp
    also have "\<dots> = 0" by (simp add: load32_def)
    finally show ?thesis using True by (simp add: entry_def)
  next
    case False
    with b show ?thesis unfolding entry_def by (auto intro!: load32_cong)
  qed
qed

section \<open>The page allocator\<close>

text \<open>What a client of the allocator relies on: the allocator stands for a list of free pages,
  hands them out one by one, answers \<^verbatim>\<open>NULL\<close> when there is none, and survives any write of a client
  to a page that is not free.\<close>

locale page_allocator =
  fixes alloc :: "'s \<Rightarrow> u32 \<times> 's" and rep :: "'s \<Rightarrow> u32 list \<Rightarrow> bool"
  assumes alloc_none: "rep s [] \<Longrightarrow> alloc s = (NULL, s)"
    and alloc_some: "rep s (p # ps) \<Longrightarrow> fst (alloc s) = p \<and> rep (snd (alloc s)) ps"
    and rep_pages: "rep s ps \<Longrightarrow> distinct ps \<and> (\<forall>p \<in> set ps. page_aligned p \<and> p \<noteq> NULL)"

fun alloc_many :: "('s \<Rightarrow> u32 \<times> 's) \<Rightarrow> nat \<Rightarrow> 's \<Rightarrow> u32 list \<times> 's" where
  "alloc_many alloc 0 s = ([], s)"
| "alloc_many alloc (Suc n) s =
     (let (p, s) = alloc s; (ps, s) = alloc_many alloc n s in (p # ps, s))"

context page_allocator
begin

lemma alloc_many_pages:
  "rep s ps \<Longrightarrow> n \<le> length ps \<Longrightarrow>
     fst (alloc_many alloc n s) = take n ps \<and> rep (snd (alloc_many alloc n s)) (drop n ps)"
proof (induction n arbitrary: s ps)
  case (Suc n)
  then obtain p qs where ps: "ps = p # qs" by (cases ps) auto
  with Suc.prems alloc_some [of s p qs] obtain s' where s': "alloc s = (p, s')" "rep s' qs"
    by (cases "alloc s") auto
  from Suc.IH [OF s'(2)] Suc.prems(2) show ?case by (simp add: ps s'(1) split_def)
qed simp

lemma alloc_many_distinct:
  assumes "rep s ps" "n \<le> length ps"
  shows "distinct (fst (alloc_many alloc n s)) \<and> NULL \<notin> set (fst (alloc_many alloc n s))"
  using alloc_many_pages [OF assms] rep_pages [OF assms(1)]
  by (auto dest: in_set_takeD)

lemma alloc_exhausted:
  assumes "rep s ps"
  shows "fst (alloc (snd (alloc_many alloc (length ps) s))) = NULL"
  using alloc_many_pages [OF assms order_refl] alloc_none by simp

end

locale page_allocator_mem =
  page_allocator alloc rep for alloc :: "'s \<Rightarrow> u32 \<times> 's" and rep :: "'s \<Rightarrow> u32 list \<Rightarrow> bool" +
  fixes put32 :: "'s \<Rightarrow> u32 \<Rightarrow> u32 \<Rightarrow> 's"
  assumes rep_put32: "rep s ps \<Longrightarrow> page_aligned q \<Longrightarrow> q \<notin> set ps \<Longrightarrow> i < 1024 \<Longrightarrow>
    rep (put32 s (q + 4 * i) v) ps"
begin

lemma client_keeps_allocator:
  assumes "rep s (p # ps)" "i < 1024"
  shows "rep (put32 (snd (alloc s)) (p + 4 * i) v) ps"
  using assms alloc_some [OF assms(1)] rep_pages [OF assms(1)] by (auto intro: rep_put32)

end

text \<open>The free list of the code: each free page holds the address of the next in its first word.\<close>

primrec free_list :: "mem \<Rightarrow> u32 \<Rightarrow> u32 list \<Rightarrow> bool" where
  "free_list m h [] \<longleftrightarrow> h = NULL"
| "free_list m h (p # ps) \<longleftrightarrow> h = p \<and> free_list m (load32 m p) ps"

definition kalloc_rep :: "'a kmem_scheme \<Rightarrow> u32 list \<Rightarrow> bool" where
  "kalloc_rep s ps \<longleftrightarrow> free_list (ram s) (freelist_head s) ps \<and> distinct ps
     \<and> (\<forall>p \<in> set ps. page_aligned p \<and> p \<noteq> NULL)"

definition put32 :: "'a kmem_scheme \<Rightarrow> u32 \<Rightarrow> u32 \<Rightarrow> 'a kmem_scheme" where
  "put32 s a v = s\<lparr>ram := store32 (ram s) a v\<rparr>"

lemma free_list_cong:
  "(\<And>p. p \<in> set ps \<Longrightarrow> load32 m p = load32 m' p) \<Longrightarrow> free_list m h ps = free_list m' h ps"
  by (induction ps arbitrary: h) auto

lemma free_list_store32:
  assumes "\<forall>p \<in> set ps. page_aligned p" "page_aligned q" "q \<notin> set ps" "i < 1024"
  shows "free_list (store32 m (q + 4 * i) v) h ps = free_list m h ps"
  using assms by (intro free_list_cong) (auto simp: load32_entry_0 entry_store32)

interpretation kalloc: page_allocator_mem kalloc kalloc_rep put32
proof
  fix s :: "'a kmem_scheme" and p ps
  assume r: "kalloc_rep s (p # ps)"
  then show "fst (kalloc s) = p \<and> kalloc_rep (snd (kalloc s)) ps"
    by (auto simp: kalloc_rep_def kalloc_def)
qed (auto simp: kalloc_rep_def kalloc_def put32_def free_list_store32)

text \<open>The pages that \<open>init_kalloc_early\<close> puts on the list, in the order of the loop.\<close>

definition kernel_pages :: "u32 \<Rightarrow> u32 list" where
  "kernel_pages a = map (\<lambda>k. a + of_nat (4096 * k)) [0..<(3225419776 - unat a) div 4096]"

lemma unat_kernel_page:
  assumes "page_aligned a" "k < (3225419776 - unat a) div 4096"
  shows "unat (a + of_nat (4096 * k)) = unat a + 4096 * k \<and> unat a + 4096 * k < 3225419776"
proof -
  have "4096 * k < 3225419776 - unat a" using assms(2) by linarith
  then have "unat a + 4096 * k < 3225419776" by simp
  moreover from this have "unat (of_nat (4096 * k) :: u32) = 4096 * k" by (simp only: of_nat_less_u32)
  ultimately show ?thesis by (simp add: unat_add_lt)
qed

lemma kernel_pages_step:
  assumes "page_aligned a" "unat a < 3225419776"
  shows "kernel_pages a = a # kernel_pages (a + PAGE_SIZE) \<and> unat (a + PAGE_SIZE) = unat a + 4096"
proof -
  obtain q where q: "unat a = 4096 * q" using assms(1) by (auto simp: page_aligned_dvd)
  have u: "unat (a + PAGE_SIZE) = unat a + 4096"
    using assms(2) by (subst unat_add_lt) (simp_all add: PAGE_SIZE_def)
  define n where "n = (3225419776 - unat (a + PAGE_SIZE)) div 4096"
  have "(3225419776 - unat a) div 4096 = Suc n"
    using assms(2) q by (simp add: n_def u)
  then have "kernel_pages a = a # map (\<lambda>k. a + of_nat (4096 * Suc k)) [0..<n]"
    by (simp only: kernel_pages_def map_upt_Suc) simp
  moreover have "a + of_nat (4096 * Suc k) = a + PAGE_SIZE + of_nat (4096 * k)" for k
    by (simp add: PAGE_SIZE_def)
  ultimately show ?thesis using u
    by (simp only: kernel_pages_def n_def)
qed

lemma kernel_pages_empty: "3225419776 \<le> unat a \<Longrightarrow> kernel_pages a = []"
  by (simp add: kernel_pages_def)

lemma init_kalloc_loop_rep:
  assumes "page_aligned a" "a \<noteq> NULL" "kalloc_rep s ps" "\<forall>p \<in> set ps. unat p < unat a"
  shows "kalloc_rep (init_kalloc_loop a s) (rev (kernel_pages a) @ ps)"
  using assms
proof (induction a s arbitrary: ps rule: init_kalloc_loop.induct)
  case (1 a s)
  show ?case
  proof (cases "unat a < 3225419776")
    case True
    then have lt: "a < KERNEL_HIGH + 4 * push_bit 20 1"
      by (simp add: KERNEL_HIGH_def word_less_nat_alt)
    let ?s = "s\<lparr>ram := store32 (ram s) a (freelist_head s), freelist_head := a\<rparr>"
    have step: "kernel_pages a = a # kernel_pages (a + PAGE_SIZE)"
      "unat (a + PAGE_SIZE) = unat a + 4096"
      using kernel_pages_step [OF "1.prems"(1) True] by auto
    have "free_list (store32 (ram s) a (freelist_head s)) (freelist_head s) ps"
      using "1.prems" free_list_store32 [of ps a 0 "ram s" "freelist_head s" "freelist_head s"]
      by (auto simp: kalloc_rep_def)
    then have "kalloc_rep ?s (a # ps)" using "1.prems" by (auto simp: kalloc_rep_def)
    moreover have "a + PAGE_SIZE \<noteq> NULL" using step(2) by (auto simp flip: unat_eq_zero)
    moreover have "\<forall>p \<in> set (a # ps). unat p < unat (a + PAGE_SIZE)"
      using step(2) "1.prems"(4) by auto
    ultimately have "kalloc_rep (init_kalloc_loop (a + PAGE_SIZE) ?s)
        (rev (kernel_pages (a + PAGE_SIZE)) @ a # ps)"
      using "1.IH" [OF lt] "1.prems"(1) by (simp add: page_aligned_add)
    then show ?thesis using lt step by (simp add: init_kalloc_loop.simps [of a s])
  next
    case False
    then have "\<not> a < KERNEL_HIGH + 4 * push_bit 20 1"
      by (simp add: KERNEL_HIGH_def word_less_nat_alt)
    with False "1.prems" show ?thesis
      by (simp add: init_kalloc_loop.simps [of a s] kernel_pages_empty)
  qed
qed

lemma init_kalloc_loop_frame [simp]:
  "kernel_pgdir (init_kalloc_loop a s) = kernel_pgdir s" "cr3 (init_kalloc_loop a s) = cr3 s"
  by (induction a s rule: init_kalloc_loop.induct) (subst init_kalloc_loop.simps, simp)+

lemma set_kernel_pages:
  assumes "page_aligned a"
  shows "set (kernel_pages a) = {p. page_aligned p \<and> a \<le> p \<and> p < 0xc0400000}"
proof (intro equalityI subsetI)
  fix p assume "p \<in> set (kernel_pages a)"
  then obtain k where p: "p = a + of_nat (4096 * k)" and k: "k < (3225419776 - unat a) div 4096"
    by (auto simp: kernel_pages_def)
  note u = unat_kernel_page [OF assms k, folded p]
  with assms show "p \<in> {p. page_aligned p \<and> a \<le> p \<and> p < 0xc0400000}"
    by (simp add: page_aligned_dvd word_le_nat_alt word_less_nat_alt)
next
  fix p assume "p \<in> {p. page_aligned p \<and> a \<le> p \<and> p < 0xc0400000}"
  then have p: "page_aligned p" "unat a \<le> unat p" "unat p < 3225419776"
    by (auto simp: word_le_nat_alt word_less_nat_alt)
  obtain q r where qr: "unat a = 4096 * q" "unat p = 4096 * r"
    using assms p(1) by (auto simp: page_aligned_dvd elim!: dvdE)
  have k: "r - q < (3225419776 - unat a) div 4096" using p qr by auto
  have "unat (a + of_nat (4096 * (r - q))) = unat p"
    using unat_kernel_page [OF assms k] p qr by auto
  then have "p = a + of_nat (4096 * (r - q))" by (metis word_unat_eq_iff)
  with k show "p \<in> set (kernel_pages a)" unfolding kernel_pages_def set_map by auto
qed

end
