(* ===== verification/Page_Tables.thy ===== *)
theory Page_Tables
  imports Paging
begin

text \<open>
  What the page-table code of \<^verbatim>\<open>src/paging.c\<close> achieves: the well-formedness invariant \<open>pt_inv\<close>
  of a page directory next to the free list, the refinement of \<open>alloc_page\<close> and of the loop of
  \<open>map_continous\<close> to updates of an abstract map from virtual pages to entries, the amount of
  free pages that is enough, and what the processor's two-level walk then sees.
\<close>

section \<open>The invariant of a page directory\<close>

definition pde_present :: "mem \<Rightarrow> u32 \<Rightarrow> u32 \<Rightarrow> bool" where
  "pde_present m d i \<longleftrightarrow> entry m d i AND PT_PRESENT \<noteq> 0"

definition table_of :: "mem \<Rightarrow> u32 \<Rightarrow> u32 \<Rightarrow> u32" where
  "table_of m d i = phys2virt (ROUNDDOWN (entry m d i))"

definition pt_inv :: "'a kmem_scheme \<Rightarrow> u32 \<Rightarrow> u32 list \<Rightarrow> bool" where
  "pt_inv s d fl \<longleftrightarrow> kalloc_rep s fl \<and> page_aligned d \<and> d \<notin> set fl
     \<and> (\<forall>i<1024. pde_present (ram s) d i \<longrightarrow> entry (ram s) d i AND PT_PAGE_SIZE = 0
          \<and> table_of (ram s) d i \<noteq> NULL \<and> table_of (ram s) d i \<noteq> d
          \<and> table_of (ram s) d i \<notin> set fl)
     \<and> (\<forall>i<1024. \<forall>j<1024. pde_present (ram s) d i \<longrightarrow> pde_present (ram s) d j \<longrightarrow>
          table_of (ram s) d i = table_of (ram s) d j \<longrightarrow> i = j)"

text \<open>The abstract state: the entry that governs a virtual address, \<open>0\<close> where there is none.\<close>

definition pte_of :: "mem \<Rightarrow> u32 \<Rightarrow> u32 \<Rightarrow> u32" where
  "pte_of m d va =
     (if pde_present m d (PGDIR_IDX va) then entry m (table_of m d (PGDIR_IDX va)) (PT_IDX va)
      else 0)"

definition map_page :: "u32 \<Rightarrow> u32 \<Rightarrow> (u32 \<Rightarrow> u32) \<Rightarrow> (u32 \<Rightarrow> u32)" where
  "map_page addr v A = (\<lambda>va. if ROUNDDOWN va = ROUNDDOWN addr then v else A va)"

fun map_pages :: "nat \<Rightarrow> u32 \<Rightarrow> u32 \<Rightarrow> u32 \<Rightarrow> (u32 \<Rightarrow> u32) \<Rightarrow> (u32 \<Rightarrow> u32)" where
  "map_pages 0 addr phys flags A = A"
| "map_pages (Suc n) addr phys flags A =
     map_pages n (addr + PAGE_SIZE) (phys + PAGE_SIZE) flags
       (map_page addr (phys OR PT_PRESENT OR flags) A)"

lemma page_aligned_table_of [simp]: "page_aligned (table_of m d i)"
  by (simp add: table_of_def)

lemma pt_invD:
  assumes "pt_inv s d fl"
  shows "kalloc_rep s fl" "page_aligned d" "d \<notin> set fl"
    "i < 1024 \<Longrightarrow> pde_present (ram s) d i \<Longrightarrow> entry (ram s) d i AND PT_PAGE_SIZE = 0"
    "i < 1024 \<Longrightarrow> pde_present (ram s) d i \<Longrightarrow> table_of (ram s) d i \<noteq> NULL"
    "i < 1024 \<Longrightarrow> pde_present (ram s) d i \<Longrightarrow> table_of (ram s) d i \<noteq> d"
    "i < 1024 \<Longrightarrow> pde_present (ram s) d i \<Longrightarrow> table_of (ram s) d i \<notin> set fl"
    "i < 1024 \<Longrightarrow> j < 1024 \<Longrightarrow> pde_present (ram s) d i \<Longrightarrow> pde_present (ram s) d j \<Longrightarrow>
       table_of (ram s) d i = table_of (ram s) d j \<Longrightarrow> i = j"
  using assms by (auto simp: pt_inv_def)

lemma pt_invI:
  assumes "kalloc_rep s fl" "page_aligned d" "d \<notin> set fl"
    "\<And>i. i < 1024 \<Longrightarrow> pde_present (ram s) d i \<Longrightarrow> entry (ram s) d i AND PT_PAGE_SIZE = 0"
    "\<And>i. i < 1024 \<Longrightarrow> pde_present (ram s) d i \<Longrightarrow> table_of (ram s) d i \<noteq> NULL
       \<and> table_of (ram s) d i \<noteq> d \<and> table_of (ram s) d i \<notin> set fl"
    "\<And>i j. i < 1024 \<Longrightarrow> pde_present (ram s) d i \<Longrightarrow> j < 1024 \<Longrightarrow> pde_present (ram s) d j \<Longrightarrow>
       table_of (ram s) d i = table_of (ram s) d j \<Longrightarrow> i = j"
  shows "pt_inv s d fl"
  using assms by (simp add: pt_inv_def)

section \<open>alloc\_page\<close>

definition pde_flags :: "u32 \<Rightarrow> u32" where
  "pde_flags user = (if user \<noteq> 0 then PT_PRESENT OR PT_USER else PT_PRESENT)"

lemma pde_flags_bits:
  "pde_flags user < 4096" "pde_flags user AND PT_PRESENT \<noteq> 0" "pde_flags user AND PT_PAGE_SIZE = 0"
  by (simp_all add: pde_flags_def pt_consts)

lemma and_low_flag: "f AND 4095 = f \<Longrightarrow> (x::u32) AND f = (x AND 4095) AND f"
  by (metis and.assoc and.commute)

lemma new_pde_bits:
  assumes "page_aligned p"
  shows "(virt2phys p OR pde_flags user) AND PT_PRESENT \<noteq> 0"
    "(virt2phys p OR pde_flags user) AND PT_PAGE_SIZE = 0"
    "phys2virt (ROUNDDOWN (virt2phys p OR pde_flags user)) = p"
proof -
  have f: "(virt2phys p OR pde_flags user) AND 4095 = pde_flags user"
    using assms by (intro entry_flags) (simp_all add: pde_flags_bits)
  show "(virt2phys p OR pde_flags user) AND PT_PRESENT \<noteq> 0"
    using and_low_flag [of PT_PRESENT "virt2phys p OR pde_flags user"] pde_flags_bits(2)
    by (simp add: f PT_PRESENT_def)
  show "(virt2phys p OR pde_flags user) AND PT_PAGE_SIZE = 0"
    using and_low_flag [of PT_PAGE_SIZE "virt2phys p OR pde_flags user"] pde_flags_bits(3)
    by (simp add: f PT_PAGE_SIZE_def)
  show "phys2virt (ROUNDDOWN (virt2phys p OR pde_flags user)) = p"
    using assms by (simp add: entry_page pde_flags_bits)
qed

text \<open>The two ways \<open>alloc_page\<close> succeeds, as effects on memory.\<close>

lemma alloc_page_present:
  assumes "pde_present (ram s) d (PGDIR_IDX va)"
  shows "alloc_page d va user s =
    (table_of (ram s) d (PGDIR_IDX va) + 4 * PT_IDX va,
     s\<lparr>ram := store32 (ram s) (d + 4 * PGDIR_IDX va)
        (virt2phys (table_of (ram s) d (PGDIR_IDX va)) OR pde_flags user)\<rparr>)"
  using assms by (simp add: alloc_page_def pde_present_def entry_def table_of_def pde_flags_def Let_def)

lemma alloc_page_fresh:
  assumes "\<not> pde_present (ram s) d (PGDIR_IDX va)" "kalloc_rep s (p # ps)"
  shows "alloc_page d va user s =
    (p + 4 * PT_IDX va,
     s\<lparr>ram := store32 (clear_table p (ram s)) (d + 4 * PGDIR_IDX va) (virt2phys p OR pde_flags user),
       freelist_head := load32 (ram s) p\<rparr>)"
  using assms
  by (auto simp: alloc_page_def pde_present_def entry_def pde_flags_def kalloc_rep_def kalloc_def Let_def)

lemma alloc_page_null:
  assumes "\<not> pde_present (ram s) d (PGDIR_IDX va)" "kalloc_rep s []"
  shows "alloc_page d va user s = (NULL, s)"
  using assms by (simp add: alloc_page_def pde_present_def entry_def kalloc_rep_def kalloc_def)

lemma kalloc_rep_ram_cong:
  assumes "kalloc_rep s ps" "freelist_head t = freelist_head s"
    and "\<And>p. p \<in> set ps \<Longrightarrow> load32 (ram t) p = load32 (ram s) p"
  shows "kalloc_rep t ps"
  using assms free_list_cong [of ps "ram t" "ram s"] by (simp add: kalloc_rep_def)

text \<open>Setting one directory entry to a table that no other entry uses keeps the invariant, and
  changes what governs an address only below that entry.\<close>

lemma set_pde_inv:
  assumes inv: "pt_inv s d fl" and i: "i < 1024" and p: "page_aligned p" "p \<noteq> NULL" "p \<noteq> d" "p \<notin> set fl"
    and other: "\<And>j. j < 1024 \<Longrightarrow> j \<noteq> i \<Longrightarrow> pde_present (ram s) d j \<Longrightarrow> table_of (ram s) d j \<noteq> p"
  shows "pt_inv (s\<lparr>ram := store32 (ram s) (d + 4 * i) (virt2phys p OR pde_flags user)\<rparr>) d fl"
    (is "pt_inv ?t d fl")
proof -
  note D = pt_invD [OF inv]
  have fl: "\<forall>q \<in> set fl. page_aligned q" using D(1) by (simp add: kalloc_rep_def)
  have e: "j < 1024 \<Longrightarrow> entry (ram ?t) d j = (if j = i then virt2phys p OR pde_flags user else entry (ram s) d j)" for j
    using i D(2) by (simp add: entry_store32)
  have tab: "j < 1024 \<Longrightarrow> table_of (ram ?t) d j = (if j = i then p else table_of (ram s) d j)" for j
    using e [of j] new_pde_bits(3) [OF p(1)] by (simp add: table_of_def)
  have pres: "j < 1024 \<Longrightarrow> pde_present (ram ?t) d j = (if j = i then True else pde_present (ram s) d j)" for j
    using e [of j] new_pde_bits(1) [OF p(1)] by (simp add: pde_present_def)
  have "kalloc_rep ?t fl"
    using D(1,2,3) i fl by (simp add: kalloc_rep_def free_list_store32)
  then show ?thesis
  proof (rule pt_invI)
    fix j assume j: "j < 1024" "pde_present (ram ?t) d j"
    show "entry (ram ?t) d j AND PT_PAGE_SIZE = 0"
      using e [OF j(1)] pres [OF j(1)] j D(4) [of j] new_pde_bits(2) [OF p(1)] by (cases "j = i") auto
    show "table_of (ram ?t) d j \<noteq> NULL \<and> table_of (ram ?t) d j \<noteq> d \<and> table_of (ram ?t) d j \<notin> set fl"
      using tab [OF j(1)] pres [OF j(1)] j D(5-7) [of j] p by (cases "j = i") auto
    fix k assume k: "k < 1024" "pde_present (ram ?t) d k" "table_of (ram ?t) d j = table_of (ram ?t) d k"
    show "j = k"
      using tab [OF j(1)] tab [OF k(1)] pres [OF j(1)] pres [OF k(1)] j k D(8) [of j k]
        other [of j] other [of k] by (cases "j = i"; cases "k = i") auto
  qed (use D in auto)
qed

lemma set_pde_pte_of:
  assumes d: "page_aligned d" and i: "i < 1024" and p: "page_aligned p" "p \<noteq> d"
    and sep: "\<And>j. j < 1024 \<Longrightarrow> pde_present m d j \<Longrightarrow> table_of m d j \<noteq> d"
  shows "pte_of (store32 m (d + 4 * i) (virt2phys p OR pde_flags user)) d va =
    (if PGDIR_IDX va = i then entry m p (PT_IDX va) else pte_of m d va)"
proof -
  let ?m = "store32 m (d + 4 * i) (virt2phys p OR pde_flags user)"
  have e: "entry ?m d (PGDIR_IDX va) =
      (if PGDIR_IDX va = i then virt2phys p OR pde_flags user else entry m d (PGDIR_IDX va))"
    using i d by (simp add: entry_store32)
  have o: "q \<noteq> d \<Longrightarrow> page_aligned q \<Longrightarrow> entry ?m q (PT_IDX va) = entry m q (PT_IDX va)" for q
    using i d by (simp add: entry_store32)
  show ?thesis
    using e o p new_pde_bits [OF p(1)] sep [OF PGDIR_IDX_lt]
    by (auto simp: pte_of_def pde_present_def table_of_def)
qed

lemma take_page_inv:
  assumes inv: "pt_inv s d (p # ps)"
  defines "t \<equiv> s\<lparr>ram := clear_table p (ram s), freelist_head := load32 (ram s) p\<rparr>"
  shows "pt_inv t d ps" "page_aligned p" "p \<noteq> NULL" "p \<noteq> d" "p \<notin> set ps"
    "\<And>j. j < 1024 \<Longrightarrow> entry (ram t) d j = entry (ram s) d j"
    "\<And>j. j < 1024 \<Longrightarrow> entry (ram t) p j = 0"
    "pte_of (ram t) d = pte_of (ram s) d"
proof -
  note D = pt_invD [OF inv]
  have r: "free_list (ram s) (load32 (ram s) p) ps" "distinct (p # ps)"
      "\<forall>q \<in> set (p # ps). page_aligned q \<and> q \<noteq> NULL"
    using D(1) by (auto simp: kalloc_rep_def)
  then show p: "page_aligned p" "p \<noteq> NULL" "p \<noteq> d" "p \<notin> set ps" using D(3) by auto
  show d: "entry (ram t) d j = entry (ram s) d j" if "j < 1024" for j
    using D(2) p that by (simp add: t_def entry_clear_table)
  show "entry (ram t) p j = 0" if "j < 1024" for j
    using p that by (simp add: t_def entry_clear_table)
  have same: "j < 1024 \<Longrightarrow> pde_present (ram t) d j = pde_present (ram s) d j"
    "j < 1024 \<Longrightarrow> table_of (ram t) d j = table_of (ram s) d j" for j
    using d by (simp_all add: pde_present_def table_of_def)
  have "free_list (clear_table p (ram s)) (load32 (ram s) p) ps"
    using r p by (subst free_list_cong [of ps _ "ram s"]) (auto simp: load32_entry_0 entry_clear_table)
  then have "kalloc_rep t ps" using r by (simp add: kalloc_rep_def t_def)
  then show "pt_inv t d ps" using D same d by (intro pt_invI) auto
  show "pte_of (ram t) d = pte_of (ram s) d"
  proof
    fix va
    have "table_of (ram s) d (PGDIR_IDX va) \<noteq> p" if "pde_present (ram s) d (PGDIR_IDX va)"
      using D(7) [of "PGDIR_IDX va"] that by auto
    then show "pte_of (ram t) d va = pte_of (ram s) d va"
      using same p by (auto simp: pte_of_def) (simp add: t_def entry_clear_table)
  qed
qed

text \<open>Linking a page table into the directory: what the two ways have in common. \<open>u\<close> is the state after the
  table was found or allocated.\<close>

lemma link_table:
  fixes user :: u32
  assumes u: "pt_inv u d fl'" and p: "page_aligned p" "p \<noteq> NULL" "p \<noteq> d" "p \<notin> set fl'"
    and uniq: "\<And>j. j < 1024 \<Longrightarrow> j \<noteq> PGDIR_IDX va \<Longrightarrow> pde_present (ram u) d j \<Longrightarrow> table_of (ram u) d j \<noteq> p"
    and ents: "\<And>j. j < 1024 \<Longrightarrow> entry (ram u) d j = entry m d j"
    and pte: "pte_of (ram u) d = pte_of m d"
    and below: "\<And>a. PGDIR_IDX a = PGDIR_IDX va \<Longrightarrow> entry (ram u) p (PT_IDX a) = pte_of m d a"
  defines "t \<equiv> u\<lparr>ram := store32 (ram u) (d + 4 * PGDIR_IDX va) (virt2phys p OR pde_flags user)\<rparr>"
  shows "pt_inv t d fl'" "table_of (ram t) d (PGDIR_IDX va) = p" "pte_of (ram t) d = pte_of m d"
    "\<And>j. j < 1024 \<Longrightarrow> pde_present (ram t) d j \<longleftrightarrow> j = PGDIR_IDX va \<or> pde_present m d j"
    "\<And>j. j < 1024 \<Longrightarrow> j \<noteq> PGDIR_IDX va \<Longrightarrow> entry (ram t) d j = entry m d j"
    "entry (ram t) d (PGDIR_IDX va) AND 4095 = pde_flags user"
proof -
  let ?i = "PGDIR_IDX va"
  have e: "j < 1024 \<Longrightarrow> entry (ram t) d j = (if j = ?i then virt2phys p OR pde_flags user else entry m d j)" for j
    using pt_invD(2) [OF u] ents by (simp add: t_def entry_store32)
  show "table_of (ram t) d ?i = p" using e [of ?i] new_pde_bits(3) [OF p(1)] by (simp add: table_of_def)
  have "pte_of (ram t) d a = pte_of m d a" for a
    using set_pde_pte_of [OF pt_invD(2) [OF u] _ p(1,3), of ?i "ram u" user a] pt_invD(6) [OF u] pte below [of a]
    by (simp add: t_def)
  then show "pte_of (ram t) d = pte_of m d" by blast
  show "pt_inv t d fl'" unfolding t_def using set_pde_inv [OF u PGDIR_IDX_lt p] uniq by blast
  show "j < 1024 \<Longrightarrow> pde_present (ram t) d j \<longleftrightarrow> j = ?i \<or> pde_present m d j" for j
    using e [of j] new_pde_bits(1) [OF p(1)] by (simp add: pde_present_def)
  show "j < 1024 \<Longrightarrow> j \<noteq> ?i \<Longrightarrow> entry (ram t) d j = entry m d j" for j using e by simp
  show "entry (ram t) d ?i AND 4095 = pde_flags user" using e [of ?i] p(1) by (simp add: entry_flags pde_flags_bits)
qed

lemma alloc_page_ok:
  assumes inv: "pt_inv s d fl" and room: "pde_present (ram s) d (PGDIR_IDX va) \<or> fl \<noteq> []"
  obtains t where
    "alloc_page d va user s = (table_of (ram t) d (PGDIR_IDX va) + 4 * PT_IDX va, t)"
    "pt_inv t d (if pde_present (ram s) d (PGDIR_IDX va) then fl else tl fl)"
    "pte_of (ram t) d = pte_of (ram s) d"
    "\<And>j. j < 1024 \<Longrightarrow> pde_present (ram t) d j \<longleftrightarrow> j = PGDIR_IDX va \<or> pde_present (ram s) d j"
    "\<And>j. j < 1024 \<Longrightarrow> j \<noteq> PGDIR_IDX va \<Longrightarrow> entry (ram t) d j = entry (ram s) d j"
    "entry (ram t) d (PGDIR_IDX va) AND 4095 = pde_flags user"
    "kernel_pgdir t = kernel_pgdir s" "cr3 t = cr3 s" "kmem.more t = kmem.more s"
proof (cases "pde_present (ram s) d (PGDIR_IDX va)")
  case True
  let ?p = "table_of (ram s) d (PGDIR_IDX va)"
  note D = pt_invD [OF inv]
  have p: "page_aligned ?p" "?p \<noteq> NULL" "?p \<noteq> d" "?p \<notin> set fl" using D True by auto
  have uniq: "table_of (ram s) d j \<noteq> ?p" if "j < 1024" "j \<noteq> PGDIR_IDX va" "pde_present (ram s) d j" for j
    using D(8) [of j "PGDIR_IDX va"] that True by auto
  have below: "entry (ram s) ?p (PT_IDX a) = pte_of (ram s) d a" if "PGDIR_IDX a = PGDIR_IDX va" for a
    using True that by (simp add: pte_of_def)
  note L = link_table [OF inv p uniq refl refl below, where user = user]
  show ?thesis
    by (rule that [OF _ _ L(3-6)]) (use L(1,2) True alloc_page_present [OF True, of user] in simp_all)
next
  case False
  with room obtain p ps where fl: "fl = p # ps" by (cases fl) auto
  let ?u = "s\<lparr>ram := clear_table p (ram s), freelist_head := load32 (ram s) p\<rparr>"
  note D = pt_invD [OF inv] and T = take_page_inv [OF inv [unfolded fl]]
  have uniq: "table_of (ram ?u) d j \<noteq> p" if "j < 1024" "j \<noteq> PGDIR_IDX va" "pde_present (ram ?u) d j" for j
    using D(7) [of j] T(6) [OF that(1)] that by (auto simp: fl table_of_def pde_present_def)
  have below: "entry (ram ?u) p (PT_IDX a) = pte_of (ram s) d a" if "PGDIR_IDX a = PGDIR_IDX va" for a
    using T(7) False that by (simp add: pte_of_def)
  note L = link_table [OF T(1-5) uniq T(6,8) below, where user = user]
  have res: "alloc_page d va user s = (p + 4 * PT_IDX va,
      ?u\<lparr>ram := store32 (ram ?u) (d + 4 * PGDIR_IDX va) (virt2phys p OR pde_flags user)\<rparr>)"
    using alloc_page_fresh [OF False, of p ps] D(1) fl by simp
  show ?thesis by (rule that [OF _ _ L(3-6)]) (use L(1,2) res False fl in simp_all)
qed

section \<open>map\_continous\<close>

lemma set_pte_ok:
  fixes v :: u32
  assumes inv: "pt_inv t d fl" and pres: "pde_present (ram t) d (PGDIR_IDX va)"
  defines "t' \<equiv> t\<lparr>ram := store32 (ram t) (table_of (ram t) d (PGDIR_IDX va) + 4 * PT_IDX va) v\<rparr>"
  shows "pt_inv t' d fl" "pte_of (ram t') d = map_page va v (pte_of (ram t) d)"
    "\<And>j. j < 1024 \<Longrightarrow> entry (ram t') d j = entry (ram t) d j"
proof -
  let ?i = "PGDIR_IDX va" and ?p = "table_of (ram t) d (PGDIR_IDX va)"
  note D = pt_invD [OF inv]
  have p: "?p \<noteq> d" "?p \<notin> set fl" using D(6,7) pres by auto
  show e: "entry (ram t') d j = entry (ram t) d j" if "j < 1024" for j
    using D(2) p that by (simp add: t'_def entry_store32)
  have same: "j < 1024 \<Longrightarrow> pde_present (ram t') d j = pde_present (ram t) d j"
    "j < 1024 \<Longrightarrow> table_of (ram t') d j = table_of (ram t) d j" for j
    using e by (simp_all add: pde_present_def table_of_def)
  have "kalloc_rep t' fl"
    using D(1) p(2) by (simp add: t'_def kalloc_rep_def free_list_store32)
  then show "pt_inv t' d fl" using D same e by (intro pt_invI) auto
  show "pte_of (ram t') d = map_page va v (pte_of (ram t) d)"
  proof
    fix a
    have "table_of (ram t) d (PGDIR_IDX a) = ?p \<longleftrightarrow> PGDIR_IDX a = ?i" if "pde_present (ram t) d (PGDIR_IDX a)"
      using D(8) [of "PGDIR_IDX a" ?i] pres that by auto
    then have "pde_present (ram t) d (PGDIR_IDX a) \<Longrightarrow>
        entry (ram t') (table_of (ram t) d (PGDIR_IDX a)) (PT_IDX a) =
        (if ROUNDDOWN a = ROUNDDOWN va then v else pte_of (ram t) d a)"
      by (simp add: t'_def entry_store32 pte_of_def same_page_iff [symmetric])
    moreover have "\<not> pde_present (ram t) d (PGDIR_IDX a) \<Longrightarrow> ROUNDDOWN a \<noteq> ROUNDDOWN va"
      using pres same_page_iff [of a va] by auto
    ultimately show "pte_of (ram t') d a = map_page va v (pte_of (ram t) d) a"
      using same by (auto simp: pte_of_def map_page_def)
  qed
qed

lemma table_entry_not_null:
  assumes "page_aligned p" "p \<noteq> NULL" "i < 1024"
  shows "p + 4 * i \<noteq> NULL"
  using entry_addr_eq [of p 0 i 0 0 0] assms by (auto simp: page_aligned_def)

text \<open>The directory entries that mapping \<open>n\<close> pages from \<open>addr\<close> on goes through, and the page
  tables that it has to allocate.\<close>

definition touched :: "u32 \<Rightarrow> nat \<Rightarrow> u32 set" where
  "touched addr n = {PGDIR_IDX (addr + of_nat (4096 * k)) | k. k < n}"

definition missing_tables :: "mem \<Rightarrow> u32 \<Rightarrow> u32 \<Rightarrow> nat \<Rightarrow> u32 set" where
  "missing_tables m d addr n =
     {i \<in> touched addr n. \<not> pde_present m d i}"

lemma touched_lt: "i \<in> touched addr n \<Longrightarrow> i < 1024"
  by (auto simp: touched_def)

lemma touched_Suc: "touched addr (Suc n) = insert (PGDIR_IDX addr) (touched (addr + PAGE_SIZE) n)"
proof -
  have "(\<exists>k<Suc n. i = PGDIR_IDX (addr + of_nat (4096 * k))) \<longleftrightarrow>
      i = PGDIR_IDX addr \<or> (\<exists>k<n. i = PGDIR_IDX (addr + PAGE_SIZE + of_nat (4096 * k)))" for i
    by (simp add: Ex_less_Suc2 PAGE_SIZE_def add.assoc)
  then show ?thesis by (auto simp: touched_def)
qed

lemma missing_tables_step:
  assumes "\<And>j. j < 1024 \<Longrightarrow> pde_present m' d j \<longleftrightarrow> j = PGDIR_IDX addr \<or> pde_present m d j"
  shows "missing_tables m' d (addr + PAGE_SIZE) n = missing_tables m d addr (Suc n) - {PGDIR_IDX addr}"
  using assms touched_lt [of _ addr "Suc n"] by (auto simp: missing_tables_def touched_Suc)

lemma page_count_step:
  assumes "unat sz = 4096 * Suc n"
  shows "sz > 0" "unat (sz - PAGE_SIZE) = 4096 * n"
proof -
  show "sz > 0" using assms by (simp add: word_gt_0_unat)
  have "PAGE_SIZE \<le> sz" using assms by (simp add: word_le_nat_alt PAGE_SIZE_def)
  then show "unat (sz - PAGE_SIZE) = 4096 * n" using assms by (simp add: unat_sub) (simp add: PAGE_SIZE_def)
qed

text \<open>One iteration of the loop, when a page table is there or can be allocated.\<close>

lemma map_loop_step:
  assumes inv: "pt_inv s d fl" and sz: "sz > 0" and room: "pde_present (ram s) d (PGDIR_IDX addr) \<or> fl \<noteq> []"
  obtains t where
    "map_loop d addr sz phys flags s = map_loop d (addr + PAGE_SIZE) (sz - PAGE_SIZE) (phys + PAGE_SIZE) flags t"
    "pt_inv t d (if pde_present (ram s) d (PGDIR_IDX addr) then fl else tl fl)"
    "pte_of (ram t) d = map_page addr (phys OR PT_PRESENT OR flags) (pte_of (ram s) d)"
    "kernel_pgdir t = kernel_pgdir s" "cr3 t = cr3 s"
    "\<And>j. j < 1024 \<Longrightarrow> pde_present (ram t) d j \<longleftrightarrow> j = PGDIR_IDX addr \<or> pde_present (ram s) d j"
    "\<And>j. j < 1024 \<Longrightarrow> j \<noteq> PGDIR_IDX addr \<Longrightarrow> entry (ram t) d j = entry (ram s) d j"
    "entry (ram t) d (PGDIR_IDX addr) AND 4095 = pde_flags (flags AND PT_USER)"
proof -
  let ?i = "PGDIR_IDX addr" and ?v = "phys OR PT_PRESENT OR flags"
  from alloc_page_ok [OF inv room, of "flags AND PT_USER"] obtain t where
    al: "alloc_page d addr (flags AND PT_USER) s = (table_of (ram t) d ?i + 4 * PT_IDX addr, t)"
    and t: "pt_inv t d (if pde_present (ram s) d ?i then fl else tl fl)" "pte_of (ram t) d = pte_of (ram s) d"
    and pres: "\<And>j. j < 1024 \<Longrightarrow> pde_present (ram t) d j \<longleftrightarrow> j = ?i \<or> pde_present (ram s) d j"
    and ents: "\<And>j. j < 1024 \<Longrightarrow> j \<noteq> ?i \<Longrightarrow> entry (ram t) d j = entry (ram s) d j"
      "entry (ram t) d ?i AND 4095 = pde_flags (flags AND PT_USER)"
    and fr: "kernel_pgdir t = kernel_pgdir s" "cr3 t = cr3 s" by metis
  have pi: "pde_present (ram t) d ?i" using pres by simp
  define t' where "t' = t\<lparr>ram := store32 (ram t) (table_of (ram t) d ?i + 4 * PT_IDX addr) ?v\<rparr>"
  note P = set_pte_ok [OF t(1) pi, where v = ?v, folded t'_def]
  have nn: "table_of (ram t) d ?i + 4 * PT_IDX addr \<noteq> NULL"
    using pt_invD(5) [OF t(1) _ pi] by (simp add: table_entry_not_null)
  have "map_loop d addr sz phys flags s = map_loop d (addr + PAGE_SIZE) (sz - PAGE_SIZE) (phys + PAGE_SIZE) flags t'"
    using sz al nn by (simp add: map_loop.simps [of d addr] t'_def or.assoc)
  moreover have "kernel_pgdir t' = kernel_pgdir s" "cr3 t' = cr3 s" using fr by (simp_all add: t'_def)
  moreover have "pde_present (ram t') d j \<longleftrightarrow> j = ?i \<or> pde_present (ram s) d j" if "j < 1024" for j
    using P(3) [OF that] pres [OF that] by (simp add: pde_present_def)
  ultimately show ?thesis using P ents t(2) by (intro that [of t']) simp_all
qed

text \<open>What a successful loop over \<open>n\<close> pages leaves.\<close>

definition mapped :: "'a kmem_scheme \<Rightarrow> u32 \<Rightarrow> u32 list \<Rightarrow> nat \<Rightarrow> u32 \<Rightarrow> u32 \<Rightarrow> u32 \<Rightarrow> 'a kmem_scheme \<Rightarrow> bool" where
  "mapped s d fl n addr phys flags t \<longleftrightarrow>
     (\<exists>fl'. pt_inv t d fl' \<and> length fl = length fl' + card (missing_tables (ram s) d addr n))
     \<and> pte_of (ram t) d = map_pages n addr phys flags (pte_of (ram s) d)
     \<and> kernel_pgdir t = kernel_pgdir s \<and> cr3 t = cr3 s
     \<and> (\<forall>i<1024. if i \<in> touched addr n then entry (ram t) d i AND 4095 = pde_flags (flags AND PT_USER)
          else entry (ram t) d i = entry (ram s) d i)"

lemma mapped_Suc:
  assumes u: "mapped t d fl1 n (addr + PAGE_SIZE) (phys + PAGE_SIZE) flags u"
    and M: "missing_tables (ram t) d (addr + PAGE_SIZE) n = missing_tables (ram s) d addr (Suc n) - {PGDIR_IDX addr}"
    and t: "pte_of (ram t) d = map_page addr (phys OR PT_PRESENT OR flags) (pte_of (ram s) d)"
      "kernel_pgdir t = kernel_pgdir s" "cr3 t = cr3 s"
    and ents: "\<And>j. j < 1024 \<Longrightarrow> j \<noteq> PGDIR_IDX addr \<Longrightarrow> entry (ram t) d j = entry (ram s) d j"
      "entry (ram t) d (PGDIR_IDX addr) AND 4095 = pde_flags (flags AND PT_USER)"
    and len: "length fl + card (missing_tables (ram s) d addr (Suc n) - {PGDIR_IDX addr})
      = length fl1 + card (missing_tables (ram s) d addr (Suc n))"
  shows "mapped s d fl (Suc n) addr phys flags u"
proof -
  from u M obtain fl' where "pt_inv u d fl'" "length fl1 = length fl' + card (missing_tables (ram s) d addr (Suc n) - {PGDIR_IDX addr})"
    by (auto simp: mapped_def)
  then have "\<exists>fl'. pt_inv u d fl' \<and> length fl = length fl' + card (missing_tables (ram s) d addr (Suc n))" using len by auto
  moreover have "if i \<in> touched addr (Suc n) then entry (ram u) d i AND 4095 = pde_flags (flags AND PT_USER)
      else entry (ram u) d i = entry (ram s) d i" if i: "i < 1024" for i
  proof -
    have "if i \<in> touched (addr + PAGE_SIZE) n then entry (ram u) d i AND 4095 = pde_flags (flags AND PT_USER)
        else entry (ram u) d i = entry (ram t) d i" using u i by (simp add: mapped_def)
    then show ?thesis using ents(1) [OF i] ents(2) by (cases "i = PGDIR_IDX addr") (auto simp: touched_Suc split: if_splits)
  qed
  ultimately show ?thesis using u t by (simp add: mapped_def)
qed

lemma map_loop_ok:
  assumes "pt_inv s d fl" "unat sz = 4096 * n"
  shows "if card (missing_tables (ram s) d addr n) \<le> length fl
    then \<exists>t. map_loop d addr sz phys flags s = Some (Inr t) \<and> mapped s d fl n addr phys flags t
    else map_loop d addr sz phys flags s = Some (Inl Null_Deref)"
  using assms
proof (induction n arbitrary: sz addr phys s fl)
  case 0
  then have "sz = 0" by (simp add: unat_eq_zero)
  with 0 show ?case by (auto simp: map_loop.simps mapped_def missing_tables_def touched_def)
next
  case (Suc n)
  let ?i = "PGDIR_IDX addr" and ?M = "missing_tables (ram s) d addr (Suc n)"
  note sz = page_count_step [OF Suc.prems(2)]
  have iM: "?i \<in> ?M \<longleftrightarrow> \<not> pde_present (ram s) d ?i" by (auto simp: missing_tables_def touched_Suc)
  have fin: "finite ?M" by simp
  show ?case
  proof (cases "pde_present (ram s) d ?i \<or> fl \<noteq> []")
    case False
    then have "map_loop d addr sz phys flags s = Some (Inl Null_Deref)"
      using alloc_page_null [of s d addr "flags AND PT_USER"] pt_invD(1) [OF Suc.prems(1)] sz(1)
      by (simp add: map_loop.simps [of d addr])
    moreover have "card ?M > 0" using iM False fin by (auto simp: card_gt_0_iff)
    ultimately show ?thesis using False by (auto simp: card_gt_0_iff)
  next
    case True
    let ?fl = "if pde_present (ram s) d ?i then fl else tl fl"
    from map_loop_step [OF Suc.prems(1) sz(1) True, of phys flags] obtain t where
      unfold: "map_loop d addr sz phys flags s = map_loop d (addr + PAGE_SIZE) (sz - PAGE_SIZE) (phys + PAGE_SIZE) flags t"
      and t: "pt_inv t d ?fl" "pte_of (ram t) d = map_page addr (phys OR PT_PRESENT OR flags) (pte_of (ram s) d)"
        "kernel_pgdir t = kernel_pgdir s" "cr3 t = cr3 s"
      and pres: "\<And>j. j < 1024 \<Longrightarrow> pde_present (ram t) d j \<longleftrightarrow> j = ?i \<or> pde_present (ram s) d j"
      and ents: "\<And>j. j < 1024 \<Longrightarrow> j \<noteq> ?i \<Longrightarrow> entry (ram t) d j = entry (ram s) d j"
        "entry (ram t) d ?i AND 4095 = pde_flags (flags AND PT_USER)" by metis
    have len: "length fl = length ?fl + (if ?i \<in> ?M then 1 else 0)" using True iM by auto
    have card: "card ?M = card (?M - {?i}) + (if ?i \<in> ?M then 1 else 0)" using card.remove [OF fin, of ?i] by auto
    have M: "missing_tables (ram t) d (addr + PAGE_SIZE) n = ?M - {?i}" by (rule missing_tables_step [OF pres])
    have le: "card (?M - {?i}) \<le> length ?fl \<longleftrightarrow> card ?M \<le> length fl" using len card by linarith
    have "mapped s d fl (Suc n) addr phys flags u"
      if "mapped t d ?fl n (addr + PAGE_SIZE) (phys + PAGE_SIZE) flags u" for u
      by (rule mapped_Suc [OF that M t(2-4) ents]) (use len card in simp_all)
    with Suc.IH [OF t(1) sz(2), of "addr + PAGE_SIZE" "phys + PAGE_SIZE", unfolded M le] unfold
    show ?thesis by auto
  qed
qed

text \<open>The abstract update in closed form: the pages of the range are mapped one to one.\<close>

lemma map_pages_eq:
  assumes "page_aligned addr" "n < 1048576"
  shows "map_pages n addr phys flags A va =
    (if unat (va - addr) div 4096 < n then (phys + ROUNDDOWN (va - addr)) OR PT_PRESENT OR flags
     else A va)"
  using assms
proof (induction n arbitrary: addr phys A)
  case (Suc n)
  let ?D = "va - addr"
  have IH: "map_pages (Suc n) addr phys flags A va =
      (if unat (?D - PAGE_SIZE) div 4096 < n
       then (phys + PAGE_SIZE + ROUNDDOWN (?D - PAGE_SIZE)) OR PT_PRESENT OR flags
       else map_page addr (phys OR PT_PRESENT OR flags) A va)"
    using Suc.IH [of "addr + PAGE_SIZE" "phys + PAGE_SIZE"] Suc.prems
    by (simp add: page_aligned_add diff_diff_eq)
  have same: "ROUNDDOWN va = ROUNDDOWN addr \<longleftrightarrow> unat ?D div 4096 = 0"
  proof -
    have "ROUNDDOWN va = addr + ROUNDDOWN ?D"
      using ROUNDDOWN_add [OF Suc.prems(1), of ?D] by simp
    moreover have "ROUNDDOWN ?D = 0 \<longleftrightarrow> unat ?D div 4096 = 0"
      by (simp add: word_unat_eq_iff unat_ROUNDDOWN)
    ultimately show ?thesis using Suc.prems(1) by (simp add: ROUNDDOWN_aligned)
  qed
  show ?case
  proof (cases "unat ?D < 4096")
    case True
    have "unat (?D - PAGE_SIZE) = unat ?D + 4294963200"
    proof -
      have "x - PAGE_SIZE = x + 4294963200" for x :: u32 by (simp add: PAGE_SIZE_def)
      moreover have "unat (?D + 4294963200) = unat ?D + 4294963200"
        using True by (subst unat_add_lt) simp_all
      ultimately show ?thesis by metis
    qed
    with True Suc.prems(2) have "\<not> unat (?D - PAGE_SIZE) div 4096 < n" by simp
    moreover have "ROUNDDOWN ?D = 0" using True by (simp add: word_unat_eq_iff unat_ROUNDDOWN)
    ultimately show ?thesis using IH same True by (simp add: map_page_def)
  next
    case False
    then have le: "PAGE_SIZE \<le> ?D" by (simp add: PAGE_SIZE_def word_le_nat_alt)
    have u: "unat (?D - PAGE_SIZE) = unat ?D - 4096" using unat_sub [OF le] by (simp add: PAGE_SIZE_def)
    have r: "PAGE_SIZE + ROUNDDOWN (?D - PAGE_SIZE) = ROUNDDOWN ?D"
      using ROUNDDOWN_add [of PAGE_SIZE "?D - PAGE_SIZE"] by simp
    have "unat (?D - PAGE_SIZE) div 4096 < n \<longleftrightarrow> unat ?D div 4096 < Suc n"
      using False u by auto
    moreover have "unat ?D div 4096 \<noteq> 0" using False by simp
    ultimately show ?thesis using IH same r by (simp add: map_page_def add.assoc)
  qed
qed simp

section \<open>What the processor sees\<close>

text \<open>The two-level walk of the x86 memory management unit without PAE: the physical address, and
  whether user code may write and may access at all. The tables are read where the kernel sees
  physical memory, at \<open>phys2virt\<close>.\<close>

definition page_walk :: "mem \<Rightarrow> u32 \<Rightarrow> u32 \<Rightarrow> (u32 \<times> bool \<times> bool) option" where
  "page_walk m d va =
     (let pde = entry m d (PGDIR_IDX va)
      in if pde AND PT_PRESENT = 0 then None
         else if pde AND PT_PAGE_SIZE \<noteq> 0
         then Some ((pde AND 0xffc00000) OR (va AND 0x3fffff),
                    pde AND PT_WRITEABLE \<noteq> 0, pde AND PT_USER \<noteq> 0)
         else let pte = entry m (phys2virt (ROUNDDOWN pde)) (PT_IDX va)
              in if pte AND PT_PRESENT = 0 then None
                 else Some (ROUNDDOWN pte OR (va AND 4095),
                            pde AND PT_WRITEABLE \<noteq> 0 \<and> pte AND PT_WRITEABLE \<noteq> 0,
                            pde AND PT_USER \<noteq> 0 \<and> pte AND PT_USER \<noteq> 0))"

definition translate :: "mem \<Rightarrow> u32 \<Rightarrow> u32 \<Rightarrow> u32 option" where
  "translate m d va = map_option fst (page_walk m d va)"

definition pte_translate :: "u32 \<Rightarrow> u32 \<Rightarrow> u32 option" where
  "pte_translate pte va =
     (if pte AND PT_PRESENT = 0 then None else Some (ROUNDDOWN pte OR (va AND 4095)))"

lemma translate_pte_of:
  assumes "pt_inv s d fl"
  shows "translate (ram s) d va = pte_translate (pte_of (ram s) d va) va"
  using pt_invD(4) [OF assms PGDIR_IDX_lt, of va]
  by (auto simp: translate_def page_walk_def pte_of_def pde_present_def table_of_def
      pte_translate_def Let_def)

lemma present_bit: "(x OR PT_PRESENT OR f) AND PT_PRESENT \<noteq> 0"
proof -
  have "bit ((x OR PT_PRESENT OR f) AND PT_PRESENT) 0" by (simp add: bit_simps PT_PRESENT_def)
  then show ?thesis by auto
qed

lemma translate_mapped:
  assumes "page_aligned phys" "flags < 4096"
  shows "ROUNDDOWN ((phys + ROUNDDOWN D) OR PT_PRESENT OR flags) OR (D AND 4095) = phys + D"
proof -
  have "PT_PRESENT OR flags < 4096"
    using assms(2) by (intro or_lt_4096) (simp_all add: PT_PRESENT_def)
  then have "ROUNDDOWN ((phys + ROUNDDOWN D) OR PT_PRESENT OR flags) = phys + ROUNDDOWN D"
    using assms by (intro entry_page page_aligned_add) simp_all
  moreover have "(phys + ROUNDDOWN D) OR (D AND 4095) = phys + ROUNDDOWN D + (D AND 4095)"
    using assms(1) by (intro aligned_or_add page_aligned_add) simp_all
  ultimately show ?thesis by (simp add: ROUNDDOWN_diff)
qed

lemma pte_translate_map_pages:
  assumes "page_aligned a" "page_aligned p" "flags < 4096" "n < 1048576"
  shows "pte_translate (map_pages n a p flags A va) va =
    (if unat (va - a) div 4096 < n then Some (p + (va - a)) else pte_translate (A va) va)"
proof -
  have "va AND 4095 = (va - a) AND 4095" using page_offset_add [OF assms(1), of "va - a"] by simp
  then show ?thesis
    using assms by (simp add: map_pages_eq pte_translate_def present_bit translate_mapped del: or.assoc)
qed

lemma unat_ROUNDUP_pages: "unat (ROUNDUP sz) = 4096 * (unat (ROUNDUP sz) div 4096)"
  using page_aligned_ROUNDUP [of sz] by (simp add: page_aligned_dvd)

lemma ROUNDUP_pages_lt: "unat (ROUNDUP sz) div 4096 < 1048576"
  using u32_lt [of "ROUNDUP sz"] by simp

lemma in_range_pages: "in_range a (ROUNDUP sz) va \<longleftrightarrow> unat (va - a) div 4096 < unat (ROUNDUP sz) div 4096"
proof -
  obtain q where "unat (ROUNDUP sz) = 4096 * q"
    using page_aligned_ROUNDUP [of sz] by (auto simp: page_aligned_dvd)
  then show ?thesis by (auto simp: in_range_def word_less_nat_alt)
qed

lemma if_mono_ex: "(if P then \<exists>t. A t \<and> (\<exists>l. B l t) \<and> C t else Q) \<Longrightarrow> (if P then \<exists>t l. A t \<and> B l t \<and> C t else Q)"
  by (auto split: if_splits)

lemma map_continous_ok:
  assumes "pt_inv s d fl"
  shows "if card (missing_tables (ram s) d (ROUNDDOWN addr) (unat (ROUNDUP sz) div 4096)) \<le> length fl
    then \<exists>t fl'. map_continous d addr sz phys flags s = Some (Inr t) \<and> pt_inv t d fl'
      \<and> length fl = length fl' + card (missing_tables (ram s) d (ROUNDDOWN addr) (unat (ROUNDUP sz) div 4096))
      \<and> pte_of (ram t) d = map_pages (unat (ROUNDUP sz) div 4096) (ROUNDDOWN addr) (ROUNDDOWN phys)
          flags (pte_of (ram s) d)
      \<and> kernel_pgdir t = kernel_pgdir s \<and> cr3 t = cr3 s
      \<and> (\<forall>i<1024. if i \<in> touched (ROUNDDOWN addr) (unat (ROUNDUP sz) div 4096)
           then entry (ram t) d i AND 4095 = pde_flags (flags AND PT_USER)
           else entry (ram t) d i = entry (ram s) d i)
    else map_continous d addr sz phys flags s = Some (Inl Null_Deref)"
proof -
  note ok = map_loop_ok [OF assms unat_ROUNDUP_pages [of sz], of "ROUNDDOWN addr" "ROUNDDOWN phys" flags]
  show ?thesis
    unfolding map_continous_def using if_mono_ex [OF ok [unfolded mapped_def]] by (simp only: conj_assoc)
qed

lemma map_continous_walk:
  assumes "pt_inv s d fl" "flags < 4096"
    and "card (missing_tables (ram s) d (ROUNDDOWN addr) (unat (ROUNDUP sz) div 4096)) \<le> length fl"
  shows "\<exists>t fl'. map_continous d addr sz phys flags s = Some (Inr t) \<and> pt_inv t d fl' \<and> kernel_pgdir t = kernel_pgdir s
    \<and> (\<forall>va. translate (ram t) d va =
         (if in_range (ROUNDDOWN addr) (ROUNDUP sz) va
          then Some (ROUNDDOWN phys + (va - ROUNDDOWN addr))
          else translate (ram s) d va))"
proof -
  let ?n = "unat (ROUNDUP sz) div 4096" and ?a = "ROUNDDOWN addr" and ?p = "ROUNDDOWN phys"
  from map_continous_ok [OF assms(1), of addr sz phys flags] assms(3)
  obtain t fl' where t: "map_continous d addr sz phys flags s = Some (Inr t)" "pt_inv t d fl'" "kernel_pgdir t = kernel_pgdir s"
    and pte: "pte_of (ram t) d = map_pages ?n ?a ?p flags (pte_of (ram s) d)"
    by auto
  have "translate (ram t) d va =
      (if in_range ?a (ROUNDUP sz) va then Some (?p + (va - ?a)) else translate (ram s) d va)" for va
    using assms(2) by (simp add: translate_pte_of [OF t(2)] translate_pte_of [OF assms(1)] pte
        pte_translate_map_pages ROUNDUP_pages_lt in_range_pages)
  with t show ?thesis by blast
qed

text \<open>C1. \<open>map_continous\<close> on a well-formed directory, with enough free pages for the page tables
  it misses, returns, and afterwards the processor translates every address of the rounded
  range to the matching physical address and every other address as before.\<close>

theorem map_continous_translates:
  assumes "pt_inv s d fl" "flags < 4096"
    and "card (missing_tables (ram s) d (ROUNDDOWN addr) (unat (ROUNDUP sz) div 4096)) \<le> length fl"
  shows "\<exists>t fl'. map_continous d addr sz phys flags s = Some (Inr t) \<and> pt_inv t d fl'
    \<and> (\<forall>va. translate (ram t) d va =
         (if in_range (ROUNDDOWN addr) (ROUNDUP sz) va
          then Some (ROUNDDOWN phys + (va - ROUNDDOWN addr))
          else translate (ram s) d va))"
  using map_continous_walk [OF assms, of phys] by blast

text \<open>C15. The loop of \<open>map_continous\<close> always returns, and it fails exactly when the free list is
  shorter than the set of page tables it has to allocate; the failure is a write through the
  \<^verbatim>\<open>NULL\<close> that \<open>alloc_page\<close> returned.\<close>

theorem map_continous_fails_iff:
  assumes "pt_inv s d fl"
  shows "(map_continous d addr sz phys flags s = Some (Inl Null_Deref) \<longleftrightarrow>
      length fl < card (missing_tables (ram s) d (ROUNDDOWN addr) (unat (ROUNDUP sz) div 4096)))
    \<and> (\<exists>r. map_continous d addr sz phys flags s = Some r)"
  using map_continous_ok [OF assms, of addr sz phys flags] by (auto split: if_splits)

text \<open>A directory that translates nothing next to one free page: the state the instances below
  are taken at.\<close>

definition small_mem :: kmem where
  "small_mem = \<lparr>ram = (\<lambda>_. 0), freelist_head = 0xc0300000, kernel_pgdir = 0xc0200000, cr3 = 0\<rparr>"

lemma load32_zero [simp]: "load32 (\<lambda>_. 0) a = 0"
  by (simp add: load32_def)

lemma small_mem_inv: "pt_inv small_mem 0xc0200000 [0xc0300000]"
  by (simp add: pt_inv_def small_mem_def kalloc_rep_def page_aligned_def pde_present_def entry_def)

lemma touched_one: "touched addr 1 = {PGDIR_IDX addr}"
  by (auto simp: touched_def)

lemma touched_memI:
  assumes "k < n" "k = unat (va - ROUNDDOWN addr) div 4096"
  shows "PGDIR_IDX va \<in> touched (ROUNDDOWN addr) n"
proof -
  let ?D = "va - ROUNDDOWN addr"
  have "ROUNDDOWN ?D = of_nat (unat (ROUNDDOWN ?D))" by simp
  then have "ROUNDDOWN ?D = of_nat (4096 * k)" by (simp only: unat_ROUNDDOWN assms(2) mult.commute)
  then have "ROUNDDOWN va = ROUNDDOWN addr + of_nat (4096 * k)"
    using ROUNDDOWN_add [of "ROUNDDOWN addr" ?D] by simp
  moreover have "PGDIR_IDX va = PGDIR_IDX (ROUNDDOWN va)"
    using same_page_iff [of va "ROUNDDOWN va"] by (simp add: ROUNDDOWN_aligned)
  ultimately show ?thesis using assms(1) by (auto simp: touched_def)
qed

lemma card_missing_one: "card (missing_tables m d addr 1) \<le> 1"
proof -
  have "missing_tables m d addr 1 \<subseteq> {PGDIR_IDX addr}"
    using touched_one [of addr] by (auto simp: missing_tables_def)
  from card_mono [OF _ this] show ?thesis by simp
qed

lemma ROUNDUP_4096: "ROUNDUP 4096 = 4096" and ROUNDUP_2: "ROUNDUP 2 = 4096"
  by (simp_all add: ROUNDUP_def PAGE_SIZE_def)

theorem map_continous_translates_witness:
  "pt_inv small_mem 0xc0200000 [0xc0300000] \<and> PT_WRITEABLE < 4096
   \<and> (\<exists>t fl'. map_continous 0xc0200000 0xfee00000 4096 0xfee00000 PT_WRITEABLE small_mem
        = Some (Inr t) \<and> pt_inv t 0xc0200000 fl'
      \<and> (\<forall>va. translate (ram t) 0xc0200000 va =
           (if in_range (ROUNDDOWN 0xfee00000) (ROUNDUP 4096) va
            then Some (ROUNDDOWN 0xfee00000 + (va - ROUNDDOWN 0xfee00000))
            else translate (ram small_mem) 0xc0200000 va)))"
proof -
  have "unat (ROUNDUP 4096) div 4096 = 1" by (simp add: ROUNDUP_4096)
  then have "card (missing_tables (ram small_mem) 0xc0200000 (ROUNDDOWN 0xfee00000)
      (unat (ROUNDUP 4096) div 4096)) \<le> length [0xc0300000 :: u32]"
    using card_missing_one by simp
  from map_continous_translates [OF small_mem_inv _ this, of PT_WRITEABLE "0xfee00000"]
  show ?thesis using small_mem_inv by (simp add: PT_WRITEABLE_def)
qed

theorem map_continous_fails_iff_witness:
  "pt_inv small_mem 0xc0200000 [0xc0300000]
   \<and> (map_continous 0xc0200000 0xfee00000 4096 0xfee00000 PT_WRITEABLE small_mem
        = Some (Inl Null_Deref) \<longleftrightarrow>
      length [0xc0300000 :: u32] < card (missing_tables (ram small_mem) 0xc0200000
        (ROUNDDOWN 0xfee00000) (unat (ROUNDUP 4096) div 4096)))
   \<and> (\<exists>r. map_continous 0xc0200000 0xfee00000 4096 0xfee00000 PT_WRITEABLE small_mem = Some r)"
  using small_mem_inv map_continous_fails_iff [OF small_mem_inv, of "0xfee00000" 4096 "0xfee00000" PT_WRITEABLE]
  by blast

text \<open>C17. The rights of what \<open>map_continous\<close> maps: user code may access the range exactly when
  \<open>PT_USER\<close> is among the flags, and it may never write there, whatever the flags ask for,
  because \<open>alloc_page\<close> builds directory entries without \<open>PT_WRITEABLE\<close>.\<close>

theorem map_continous_rights:
  assumes "pt_inv s d fl" "flags < 4096"
    and "map_continous d addr sz phys flags s = Some (Inr t)"
    and "in_range (ROUNDDOWN addr) (ROUNDUP sz) va"
  shows "page_walk (ram t) d va =
    Some (ROUNDDOWN phys + (va - ROUNDDOWN addr), False, flags AND PT_USER \<noteq> 0)"
proof -
  let ?n = "unat (ROUNDUP sz) div 4096" and ?a = "ROUNDDOWN addr" and ?i = "PGDIR_IDX va"
  have room: "card (missing_tables (ram s) d ?a ?n) \<le> length fl"
    using map_continous_ok [OF assms(1), of addr sz phys flags] assms(3) by (auto split: if_splits)
  from map_continous_ok [OF assms(1), of addr sz phys flags] room assms(3) obtain fl' where
    inv: "pt_inv t d fl'" and pte: "pte_of (ram t) d = map_pages ?n ?a (ROUNDDOWN phys) flags (pte_of (ram s) d)"
    and E: "\<forall>i<1024. i \<in> touched ?a ?n \<longrightarrow> entry (ram t) d i AND 4095 = pde_flags (flags AND PT_USER)"
    by auto
  have k: "unat (va - ?a) div 4096 < ?n" using assms(4) by (simp add: in_range_pages)
  then have "?i \<in> touched ?a ?n" by (rule touched_memI) simp
  with E have pde: "entry (ram t) d ?i AND 4095 = pde_flags (flags AND PT_USER)" by simp
  note low = and_low_flag [of _ "entry (ram t) d ?i", unfolded pde]
  have bits: "entry (ram t) d ?i AND PT_PRESENT \<noteq> 0" "entry (ram t) d ?i AND PT_PAGE_SIZE = 0"
    "entry (ram t) d ?i AND PT_WRITEABLE = 0"
    "entry (ram t) d ?i AND PT_USER \<noteq> 0 \<longleftrightarrow> flags AND PT_USER \<noteq> 0"
    using low [of PT_PRESENT] low [of PT_PAGE_SIZE] low [of PT_WRITEABLE] low [of PT_USER]
    by (simp_all add: pde_flags_def pt_consts)
  let ?e = "(ROUNDDOWN phys + ROUNDDOWN (va - ?a)) OR PT_PRESENT OR flags"
  have "pte_of (ram t) d va = ?e"
    using k by (simp add: pte map_pages_eq ROUNDUP_pages_lt)
  then have e: "entry (ram t) (phys2virt (ROUNDDOWN (entry (ram t) d ?i))) (PT_IDX va) = ?e"
    using bits(1) by (simp add: pte_of_def pde_present_def table_of_def)
  have "PT_PRESENT OR flags < 4096" using assms(2) by (intro or_lt_4096) (simp_all add: PT_PRESENT_def)
  then have "?e AND 4095 = PT_PRESENT OR flags" by (intro entry_flags page_aligned_add) simp_all
  then have user: "?e AND PT_USER = flags AND PT_USER"
    using and_low_flag [of PT_USER ?e] by (simp add: pt_consts bit.conj_disj_distrib2)
  have off: "va AND 4095 = (va - ?a) AND 4095" using page_offset_add [of ?a "va - ?a"] by simp
  show ?thesis
    using bits user present_bit translate_mapped [OF _ assms(2), of "ROUNDDOWN phys" "va - ?a"]
    by (simp add: page_walk_def Let_def e off del: or.assoc)
qed

theorem map_continous_rights_witness:
  "\<exists>t. map_continous 0xc0200000 0xc0500000 4096 0x500000 (PT_USER OR PT_WRITEABLE) small_mem
       = Some (Inr t)
     \<and> page_walk (ram t) 0xc0200000 0xc0500004 = Some (0x500004, False, True)"
proof -
  let ?f = "PT_USER OR PT_WRITEABLE"
  have "unat (ROUNDUP 4096) div 4096 = 1" by (simp add: ROUNDUP_4096)
  then have "card (missing_tables (ram small_mem) 0xc0200000 (ROUNDDOWN 0xc0500000)
      (unat (ROUNDUP 4096) div 4096)) \<le> length [0xc0300000 :: u32]"
    using card_missing_one by simp
  with map_continous_ok [OF small_mem_inv, of "0xc0500000" 4096 "0x500000" ?f] obtain t where
    t: "map_continous 0xc0200000 0xc0500000 4096 0x500000 ?f small_mem = Some (Inr t)" by auto
  have r: "in_range (ROUNDDOWN 0xc0500000) (ROUNDUP 4096) 0xc0500004"
    by (simp add: in_range_def ROUNDUP_4096 ROUNDDOWN_def PAGE_SIZE_def)
  have f: "?f < 4096" "?f AND PT_USER \<noteq> 0" by (simp_all add: pt_consts)
  from map_continous_rights [OF small_mem_inv f(1) t r] f(2) t
  show ?thesis by (auto simp: ROUNDDOWN_def PAGE_SIZE_def)
qed

text \<open>C14. Booting the allocator: after \<open>init_kalloc_early\<close> the calls of \<open>kalloc\<close> return, each
  exactly once, the whole pages between the end of the kernel and 4 MiB above \<open>KERNEL_HIGH\<close>,
  and then \<^verbatim>\<open>NULL\<close>.\<close>

theorem kalloc_hands_out_each_page_once:
  assumes "KERNEL_HIGH < KERNEL_END" "KERNEL_END \<le> 0xc0400000"
  shows "\<exists>ps. distinct ps \<and> set ps = {p. page_aligned p \<and> KERNEL_END \<le> p \<and> p < 0xc0400000}
    \<and> (\<forall>n. n \<le> length ps \<longrightarrow> fst (alloc_many kalloc n (init_kalloc_early KERNEL_END s)) = take n ps)
    \<and> fst (kalloc (snd (alloc_many kalloc (length ps) (init_kalloc_early KERNEL_END s)))) = NULL"
proof -
  let ?a = "ROUNDUP KERNEL_END" and ?s = "init_kalloc_early KERNEL_END s"
  have u: "unat ?a = (unat KERNEL_END + 4095) div 4096 * 4096"
    using assms(2) by (intro unat_ROUNDUP) (simp add: word_le_nat_alt)
  then have nz: "?a \<noteq> NULL"
    using assms(1) by (auto simp: KERNEL_HIGH_def word_less_nat_alt simp flip: unat_eq_zero)
  have "kalloc_rep ?s (rev (kernel_pages ?a))"
    using init_kalloc_loop_rep [OF page_aligned_ROUNDUP nz, of "s\<lparr>freelist_head := NULL\<rparr>" "[]"]
    by (simp add: init_kalloc_early_def kalloc_rep_def)
  note rep = this kalloc.rep_pages [OF this]
  have le: "?a \<le> p \<longleftrightarrow> KERNEL_END \<le> p" if "page_aligned p" for p
    using that by (auto simp: word_le_nat_alt u page_aligned_dvd elim!: dvdE)
  have "set (rev (kernel_pages ?a)) = {p. page_aligned p \<and> KERNEL_END \<le> p \<and> p < 0xc0400000}"
    using le by (auto simp: set_kernel_pages)
  with rep kalloc.alloc_many_pages [OF rep(1)] kalloc.alloc_exhausted [OF rep(1)] show ?thesis
    by (intro exI [of _ "rev (kernel_pages ?a)"]) blast
qed

theorem kalloc_hands_out_each_page_once_witness:
  "KERNEL_HIGH < 0xc0110010 \<and> (0xc0110010 :: u32) \<le> 0xc0400000
   \<and> (\<exists>ps. distinct ps \<and> set ps = {p. page_aligned p \<and> 0xc0110010 \<le> p \<and> p < 0xc0400000}
    \<and> (\<forall>n. n \<le> length ps \<longrightarrow> fst (alloc_many kalloc n (init_kalloc_early 0xc0110010 small_mem)) = take n ps)
    \<and> fst (kalloc (snd (alloc_many kalloc (length ps) (init_kalloc_early 0xc0110010 small_mem)))) = NULL)"
  using kalloc_hands_out_each_page_once [of "0xc0110010" small_mem] by (simp add: KERNEL_HIGH_def)

lemma ROUNDDOWN_virt2phys: "ROUNDDOWN (virt2phys a) = virt2phys (ROUNDDOWN a)"
  using ROUNDDOWN_add [of "- KERNEL_HIGH" a] page_aligned_diff [of 0 KERNEL_HIGH]
  by (simp add: virt2phys_def page_aligned_def [of 0])

lemma touched_kernel: "touched KERNEL_HIGH 1024 = {768}"
proof -
  have "PGDIR_IDX (KERNEL_HIGH + of_nat (4096 * k)) = 768" if "k < 1024" for k
  proof -
    have "unat (of_nat (4096 * k) :: u32) = 4096 * k" using that by (intro of_nat_less_u32) simp
    then have "unat (KERNEL_HIGH + of_nat (4096 * k)) = 3221225472 + 4096 * k"
      using that by (subst unat_add_lt) (simp_all add: KERNEL_HIGH_def)
    then show ?thesis using that by (simp add: word_unat_eq_iff unat_PGDIR_IDX)
  qed
  then have "(\<lambda>k. PGDIR_IDX (KERNEL_HIGH + of_nat (4096 * k))) ` {..<1024} = (\<lambda>k. 768) ` {..<1024::nat}"
    by (intro image_cong) auto
  moreover have "touched KERNEL_HIGH 1024 = (\<lambda>k. PGDIR_IDX (KERNEL_HIGH + of_nat (4096 * k))) ` {..<1024}"
    unfolding touched_def by blast
  ultimately show ?thesis by (simp only: image_constant_conv) (simp add: lessThan_empty_iff)
qed

lemma fresh_pgdir_inv:
  assumes "kalloc_rep s (p # ps)"
  defines "t \<equiv> s\<lparr>freelist_head := load32 (ram s) p, kernel_pgdir := p, ram := memset (ram s) p 0 PAGE_SIZE\<rparr>"
  shows "pt_inv t p ps" "\<And>va. pte_of (ram t) p va = 0"
proof -
  have p: "page_aligned p" "p \<notin> set ps" "\<forall>q \<in> set ps. page_aligned q"
    using assms(1) by (auto simp: kalloc_rep_def)
  have e: "entry (ram t) p i = 0" if "i < 1024" for i using p(1) that by (simp add: t_def entry_memset_0)
  have "load32 (ram t) q = load32 (ram s) q" if "q \<in> set ps" for q
    using p that by (auto simp: load32_entry_0 t_def entry_memset_0)
  then have "free_list (ram t) (load32 (ram s) p) ps = free_list (ram s) (load32 (ram s) p) ps"
    by (rule free_list_cong)
  then have "kalloc_rep t ps" using assms(1) by (auto simp: kalloc_rep_def t_def)
  then show "pt_inv t p ps" using p e by (intro pt_invI) (auto simp: pde_present_def)
  show "pte_of (ram t) p va = 0" for va using e [of "PGDIR_IDX va"] by (simp add: pte_of_def pde_present_def)
qed

text \<open>The two mappings that \<open>init_kernel_paging\<close> makes in an empty directory.\<close>

lemma kernel_window_translate:
  assumes "pt_inv t p fl" and "pte_of (ram t) p = map_pages 1 (ROUNDDOWN U) (virt2phys (ROUNDDOWN U)) (PT_USER OR PT_WRITEABLE)
      (map_pages 1024 KERNEL_HIGH 0 PT_WRITEABLE (\<lambda>_. 0))"
  shows "translate (ram t) p va =
    (if in_range KERNEL_HIGH 0x400000 va \<or> in_range (ROUNDDOWN U) 4096 va then Some (virt2phys va) else None)"
proof -
  have al0: "page_aligned 0" and v: "page_aligned (virt2phys (ROUNDDOWN U))"
    and f: "PT_WRITEABLE < 4096" "PT_USER OR PT_WRITEABLE < 4096" by (simp_all add: page_aligned_def [of 0] pt_consts)
  have "translate (ram t) p va = (if unat (va - ROUNDDOWN U) div 4096 < 1
      then Some (virt2phys (ROUNDDOWN U) + (va - ROUNDDOWN U))
      else if unat (va - KERNEL_HIGH) div 4096 < 1024 then Some (0 + (va - KERNEL_HIGH)) else pte_translate 0 va)"
    using pte_translate_map_pages [OF page_aligned_KERNEL_HIGH al0 f(1), of 1024 "\<lambda>_. 0" va]
      pte_translate_map_pages [OF page_aligned_ROUNDDOWN v f(2), of 1 U _ va]
    by (simp add: translate_pte_of [OF assms(1)] assms(2))
  moreover have "unat x div 4096 < 1 \<longleftrightarrow> x < 4096" "unat x div 4096 < 1024 \<longleftrightarrow> x < 0x400000" for x :: u32
    by (auto simp: word_less_nat_alt)
  ultimately show ?thesis by (auto simp: in_range_def virt2phys_def pte_translate_def)
qed

lemma init_kernel_paging_walk:
  assumes "kalloc_rep s fl" "3 \<le> length fl"
  shows "\<exists>t. init_kernel_paging USERSPACE_START s = Some (Inr t)
    \<and> kernel_pgdir t = hd fl \<and> cr3 t = virt2phys (kernel_pgdir t)
    \<and> (\<forall>va. translate (ram t) (kernel_pgdir t) va =
         (if in_range KERNEL_HIGH 0x400000 va \<or> in_range (ROUNDDOWN USERSPACE_START) 4096 va
          then Some (virt2phys va) else None))"
proof -
  obtain p ps where fl: "fl = p # ps" and ps: "2 \<le> length ps" using assms(2) by (cases fl) auto
  define s1 where "s1 = s\<lparr>freelist_head := load32 (ram s) p, kernel_pgdir := p, ram := memset (ram s) p 0 PAGE_SIZE\<rparr>"
  note S1 = fresh_pgdir_inv [OF assms(1) [unfolded fl], folded s1_def]
  have kal: "kalloc s = (p, s\<lparr>freelist_head := load32 (ram s) p\<rparr>)" "p \<noteq> NULL"
    using assms(1) by (auto simp: fl kalloc_def kalloc_rep_def)
  have sz: "ROUNDUP 0x400000 = 0x400000" "ROUNDUP 4096 = 4096" "ROUNDDOWN KERNEL_HIGH = KERNEL_HIGH"
    "ROUNDDOWN 0 = 0"
    by (simp_all add: ROUNDUP_def ROUNDDOWN_def PAGE_SIZE_def KERNEL_HIGH_def)
  have "missing_tables (ram s1) p KERNEL_HIGH 1024 \<subseteq> {768}"
    by (auto simp: missing_tables_def touched_kernel)
  from card_mono [OF _ this] have m1: "card (missing_tables (ram s1) p KERNEL_HIGH 1024) \<le> 1" by simp
  with map_continous_ok [OF S1(1), of KERNEL_HIGH "0x400000" 0 PT_WRITEABLE] ps obtain s2 fl2 where
    s2: "map_continous p KERNEL_HIGH 0x400000 0 PT_WRITEABLE s1 = Some (Inr s2)"
    "pt_inv s2 p fl2" "1 \<le> length fl2" "kernel_pgdir s2 = kernel_pgdir s1"
    "pte_of (ram s2) p = map_pages 1024 KERNEL_HIGH 0 PT_WRITEABLE (pte_of (ram s1) p)"
    by (auto simp: sz)
  let ?U = "USERSPACE_START" and ?f = "PT_USER OR PT_WRITEABLE"
  have "card (missing_tables (ram s2) p (ROUNDDOWN ?U) 1) \<le> length fl2"
    using card_missing_one [of "ram s2" p "ROUNDDOWN ?U"] s2(3) by linarith
  with map_continous_ok [OF s2(2), of ?U 4096 "virt2phys ?U" ?f] obtain s3 fl3 where
    s3: "map_continous p ?U 4096 (virt2phys ?U) ?f s2 = Some (Inr s3)" "pt_inv s3 p fl3"
    "kernel_pgdir s3 = kernel_pgdir s2"
    "pte_of (ram s3) p = map_pages 1 (ROUNDDOWN ?U) (virt2phys (ROUNDDOWN ?U)) ?f (pte_of (ram s2) p)"
    by (auto simp: sz ROUNDDOWN_virt2phys)
  have res: "init_kernel_paging ?U s = Some (Inr (load_cr3 (virt2phys p) s3))"
    using kal s2(1) s3(1) by (simp add: init_kernel_paging_def s1_def)
  have "pte_of (ram s1) p = (\<lambda>_. 0)" using S1(2) by auto
  note tr = kernel_window_translate [OF s3(2) s3(4) [unfolded s2(5) this]]
  show ?thesis using res s3(3) s2(4) tr by (auto simp: load_cr3_def s1_def fl)
qed

text \<open>C16. With three free pages \<open>init_kernel_paging\<close> returns and loads a directory in which exactly
  the first 4 MiB above \<open>KERNEL_HIGH\<close> and the page of \<open>USERSPACE_START\<close> are mapped, each virtual
  address to its \<open>virt2phys\<close>: the kernel goes on seeing the memory it saw under the boot map.\<close>

theorem init_kernel_paging_maps_kernel:
  assumes "kalloc_rep s fl" "3 \<le> length fl"
  shows "\<exists>t. init_kernel_paging USERSPACE_START s = Some (Inr t)
    \<and> kernel_pgdir t = hd fl \<and> cr3 t = virt2phys (kernel_pgdir t)
    \<and> (\<forall>va. translate (ram t) (kernel_pgdir t) va =
         (if in_range KERNEL_HIGH 0x400000 va \<or> in_range (ROUNDDOWN USERSPACE_START) 4096 va
          then Some (virt2phys va) else None))"
  using assms by (rule init_kernel_paging_walk)

definition boot_mem :: kmem where
  "boot_mem = \<lparr>ram = store32 (store32 (\<lambda>_. 0) 0xc0300000 0xc0301000) 0xc0301000 0xc0302000,
     freelist_head = 0xc0300000, kernel_pgdir = 0, cr3 = 0\<rparr>"

lemma boot_mem_rep: "kalloc_rep boot_mem [0xc0300000, 0xc0301000, 0xc0302000]"
  by (simp add: kalloc_rep_def boot_mem_def page_aligned_def load32_def store32_def)

theorem init_kernel_paging_maps_kernel_witness:
  "kalloc_rep boot_mem [0xc0300000, 0xc0301000, 0xc0302000]
   \<and> (\<exists>t. init_kernel_paging 0xc0512000 boot_mem = Some (Inr t)
    \<and> kernel_pgdir t = hd [0xc0300000, 0xc0301000, 0xc0302000] \<and> cr3 t = virt2phys (kernel_pgdir t)
    \<and> (\<forall>va. translate (ram t) (kernel_pgdir t) va =
         (if in_range KERNEL_HIGH 0x400000 va \<or> in_range (ROUNDDOWN 0xc0512000) 4096 va
          then Some (virt2phys va) else None)))"
  using boot_mem_rep init_kernel_paging_maps_kernel [OF boot_mem_rep, of "0xc0512000"] by simp

text \<open>What \<open>identity_map\<close> makes of the addresses, when it succeeds.\<close>

lemma identity_map_translate:
  assumes inv: "pt_inv s (kernel_pgdir s) fl" and r: "identity_map addr sz s = Some (Inr t)"
  shows "kernel_pgdir t = kernel_pgdir s" "translate (ram t) (kernel_pgdir t) va =
    (if in_range (ROUNDDOWN addr) (ROUNDUP sz) va then Some va else translate (ram s) (kernel_pgdir s) va)"
proof -
  let ?d = "kernel_pgdir s"
  have r': "map_continous ?d addr sz addr PT_WRITEABLE s = Some (Inr t)" using r by (simp add: identity_map_def)
  then have "card (missing_tables (ram s) ?d (ROUNDDOWN addr) (unat (ROUNDUP sz) div 4096)) \<le> length fl"
    using map_continous_ok [OF inv, of addr sz addr PT_WRITEABLE] by (auto split: if_splits)
  from map_continous_walk [OF inv _ this, of PT_WRITEABLE addr] r'
  have "kernel_pgdir t = ?d \<and> translate (ram t) ?d va =
      (if in_range (ROUNDDOWN addr) (ROUNDUP sz) va then Some va else translate (ram s) ?d va)"
    by (simp add: PT_WRITEABLE_def)
  then show "kernel_pgdir t = ?d" "translate (ram t) (kernel_pgdir t) va =
    (if in_range (ROUNDDOWN addr) (ROUNDUP sz) va then Some va else translate (ram s) ?d va)" by auto
qed

text \<open>The byte at offset \<open>k\<close> of a request, against the range that is mapped for it.\<close>

lemma request_in_range:
  assumes "k < unat sz" "unat sz + 4095 < 2 ^ 32"
  shows "in_range (ROUNDDOWN a) (ROUNDUP sz) (a + of_nat k) \<longleftrightarrow> unat (a AND 4095) + k < (unat sz + 4095) div 4096 * 4096"
proof -
  have e: "a + of_nat k - ROUNDDOWN a = (a AND 4095) + of_nat k" by (simp add: ROUNDDOWN_diff)
  have "unat (a AND 4095) < 4096" by (simp add: unat_page_offset)
  then have u: "unat ((a AND 4095) + of_nat k) = unat (a AND 4095) + k"
    using assms by (subst unat_add_lt) (simp_all add: of_nat_less_u32)
  have r: "unat (ROUNDUP sz) = (unat sz + 4095) div 4096 * 4096" using assms(2) by (intro unat_ROUNDUP) simp
  show ?thesis by (simp only: in_range_def word_less_nat_alt e u r)
qed

text \<open>C32. \<open>identity_map\<close> rounds the start down and the size up separately, so it can miss the end of a request. For
  every request and every directory with enough free pages: a byte of the request is mapped to itself exactly
  if its distance from the start of the first page is below the rounded size, and the bytes after that keep
  the translation they had. So a request none of whose bytes was mapped is mapped completely exactly if
  the offset of its start in its page and its size together do not exceed the rounded size.\<close>

theorem identity_map_misses_tail:
  assumes "pt_inv s (kernel_pgdir s) fl" "0 < sz" "unat sz + 4095 < 2 ^ 32"
    and "card (missing_tables (ram s) (kernel_pgdir s) (ROUNDDOWN addr) (unat (ROUNDUP sz) div 4096)) \<le> length fl"
  shows "\<exists>t. identity_map addr sz s = Some (Inr t)
    \<and> (\<forall>k < unat sz. translate (ram t) (kernel_pgdir t) (addr + of_nat k) =
         (if unat addr mod 4096 + k < (unat sz + 4095) div 4096 * 4096 then Some (addr + of_nat k)
          else translate (ram s) (kernel_pgdir s) (addr + of_nat k)))
    \<and> ((\<forall>k < unat sz. translate (ram s) (kernel_pgdir s) (addr + of_nat k) = None) \<longrightarrow>
       ((\<forall>k < unat sz. translate (ram t) (kernel_pgdir t) (addr + of_nat k) \<noteq> None) \<longleftrightarrow>
          unat addr mod 4096 + unat sz \<le> (unat sz + 4095) div 4096 * 4096))"
proof -
  obtain t where t: "identity_map addr sz s = Some (Inr t)"
    using map_continous_walk [OF assms(1) _ assms(4), of PT_WRITEABLE addr] by (auto simp: identity_map_def PT_WRITEABLE_def)
  have tr: "translate (ram t) (kernel_pgdir t) (addr + of_nat k) =
      (if unat addr mod 4096 + k < (unat sz + 4095) div 4096 * 4096 then Some (addr + of_nat k)
       else translate (ram s) (kernel_pgdir s) (addr + of_nat k))" if "k < unat sz" for k
    using identity_map_translate(2) [OF assms(1) t, of "addr + of_nat k"] request_in_range [OF that assms(3), of addr]
    by (simp add: unat_page_offset)
  have n: "unat sz - 1 < unat sz" using assms(2) by (simp add: word_less_nat_alt)
  have "(\<forall>k < unat sz. unat addr mod 4096 + k < X) \<longleftrightarrow> unat addr mod 4096 + unat sz \<le> X" for X
  proof
    assume "\<forall>k < unat sz. unat addr mod 4096 + k < X"
    from this [rule_format, OF n] n show "unat addr mod 4096 + unat sz \<le> X" by linarith
  qed auto
  then have "(\<forall>k < unat sz. translate (ram t) (kernel_pgdir t) (addr + of_nat k) \<noteq> None) \<longleftrightarrow>
      unat addr mod 4096 + unat sz \<le> (unat sz + 4095) div 4096 * 4096"
    if "\<forall>k < unat sz. translate (ram s) (kernel_pgdir s) (addr + of_nat k) = None"
    using tr that by (metis option.distinct(1))
  with t tr show ?thesis by blast
qed

theorem identity_map_misses_tail_witness:
  "\<exists>t. identity_map 0x1fff 2 small_mem = Some (Inr t)
     \<and> translate (ram t) (kernel_pgdir t) 0x1fff = Some 0x1fff \<and> translate (ram t) (kernel_pgdir t) 0x2000 = None"
proof -
  have d: "kernel_pgdir small_mem = 0xc0200000" by (simp add: small_mem_def)
  have "unat (ROUNDUP 2) div 4096 = 1" by (simp add: ROUNDUP_2)
  then have c: "card (missing_tables (ram small_mem) 0xc0200000 (ROUNDDOWN 0x1fff) (unat (ROUNDUP 2) div 4096)) \<le> length [0xc0300000 :: u32]"
    using card_missing_one by simp
  have z: "translate (ram small_mem) 0xc0200000 va = None" for va
    by (simp add: translate_def page_walk_def entry_def small_mem_def)
  obtain t where t: "identity_map 0x1fff 2 small_mem = Some (Inr t)"
    "\<forall>k<2. translate (ram t) (kernel_pgdir t) (0x1fff + of_nat k) = (if 4095 + k < 4096 then Some (0x1fff + of_nat k) else None)"
    using identity_map_misses_tail [where s = small_mem and addr = "0x1fff" and sz = 2, unfolded d, OF small_mem_inv _ _ c] z by auto
  from t(2) [rule_format, of 0] t(2) [rule_format, of 1] t(1) show ?thesis by auto
qed

text \<open>The boot directory, read the way the processor reads it before \<open>init_kernel_paging\<close>: an array
  of entries, all of them absent or 4 MiB pages.\<close>

definition early_translate :: "u32 list \<Rightarrow> u32 \<Rightarrow> u32 option" where
  "early_translate dir va =
     (let pde = dir ! unat (PGDIR_IDX va)
      in if pde AND PT_PRESENT = 0 then None
         else Some ((pde AND 0xffc00000) OR (va AND 0x3fffff)))"

lemma large_page_offset: "unat (va AND 0x3fffff :: u32) = unat va mod 4194304"
  using and_mask_unat [of va 22] by (simp add: mask_eq_exp_minus_1)

text \<open>The boot directory maps the first 4 MiB twice, at zero and at \<open>KERNEL_HIGH\<close>, and
  nothing else.\<close>

lemma setup_paging_early_translates:
  "early_translate (setup_paging_early (replicate 1024 0)) va =
     (if va < 0x400000 then Some va
      else if in_range KERNEL_HIGH 0x400000 va then Some (virt2phys va) else None)"
proof -
  let ?v = "PT_PRESENT OR PT_WRITEABLE OR PT_PAGE_SIZE" and ?i = "unat (PGDIR_IDX va)"
  have i: "?i = unat va div 4194304" "?i < 1024"
    using u32_lt [of va] by (simp_all add: unat_PGDIR_IDX)
  have hi: "unat (PGDIR_IDX KERNEL_HIGH) = 768" by (simp add: unat_PGDIR_IDX KERNEL_HIGH_def)
  have nth: "setup_paging_early (replicate 1024 0) ! ?i = (if ?i = 0 \<or> ?i = 768 then ?v else 0)"
    using i(2) by (auto simp: setup_paging_early_def hi nth_list_update Let_def)
  have v: "?v AND PT_PRESENT \<noteq> 0" "?v AND 0xffc00000 = 0" by (simp_all add: pt_consts)
  have lo: "va < 0x400000 \<longleftrightarrow> ?i = 0" by (simp add: i word_less_nat_alt div_eq_0_iff)
  have kh: "in_range KERNEL_HIGH 0x400000 va \<longleftrightarrow> ?i = 768"
    and ph: "?i = 768 \<Longrightarrow> va AND 0x3fffff = virt2phys va"
  proof -
    have e: "virt2phys va = va + 0x40000000" by (simp add: virt2phys_def KERNEL_HIGH_def)
    have "unat (virt2phys va) = (unat va + 1073741824) mod 4294967296"
      by (simp add: e unat_word_ariths)
    then have u: "unat (virt2phys va) = (if unat va < 3221225472 then unat va + 1073741824
        else unat va - 3221225472)"
      using u32_lt [of va] by (auto simp: mod_if [of "unat va + 1073741824"])
    show "in_range KERNEL_HIGH 0x400000 va \<longleftrightarrow> ?i = 768"
      using u u32_lt [of va]
      by (auto simp: in_range_def virt2phys_def [symmetric] word_less_nat_alt i split: if_splits)
    assume "?i = 768"
    then show "va AND 0x3fffff = virt2phys va"
      using u u32_lt [of va] minus_div_mult_eq_mod [of "unat va" 4194304]
      by (auto simp: word_unat_eq_iff large_page_offset i split: if_splits)
  qed
  have "va AND 0x3fffff = va" if "?i = 0"
    using that i by (simp add: word_unat_eq_iff large_page_offset div_eq_0_iff)
  with nth v lo kh ph show ?thesis by (simp add: early_translate_def)
qed

end
