(* ===== verification/Event_Bus.thy ===== *)
theory Event_Bus
  imports Prelude
begin

text \<open>
  The callback registry: \<^verbatim>\<open>src/event_bus.c\<close> and \<^verbatim>\<open>src/event_bus.h\<close>.

  The array \<open>known_callbacks\<close> is a list of \<open>CALLBACKS_MAX_COUNT\<close> entries of which the first
  \<open>callbacks_count\<close> are in use. A callback is a code address; what calling it does to the rest of
  the kernel is the argument \<open>call\<close> of \<open>fire_event\<close>. The callbacks of the sources do not call
  the registry themselves, so the registry is not part of the state that \<open>call\<close> changes.
\<close>

section \<open>State and operations\<close>

definition EVENT_KEY_PRESS :: u32 where "EVENT_KEY_PRESS = 1"

record event_header =
  event_type :: u32
  ev_length :: u32

record callback_entry =
  cb_event_type :: u32
  callback :: u32
  arg :: u32

definition CALLBACKS_MAX_COUNT :: u32 where "CALLBACKS_MAX_COUNT = 1024"

record event_bus =
  known_callbacks :: "callback_entry list"
  callbacks_count :: u32

definition is_empty :: "callback_entry \<Rightarrow> bool" where
  "is_empty entry \<longleftrightarrow> callback entry = NULL"

definition empty_bus :: event_bus where
  "empty_bus = \<lparr>known_callbacks = replicate 1024 \<lparr>cb_event_type = 0, callback = NULL, arg = NULL\<rparr>,
     callbacks_count = 0\<rparr>"

definition register_event_callback ::
  "u32 \<Rightarrow> u32 \<Rightarrow> u32 \<Rightarrow> event_bus \<Rightarrow> (u32 \<times> event_bus) result" where
  "register_event_callback et cb a b =
     (if callbacks_count b \<ge> CALLBACKS_MAX_COUNT
      then Inl (Panic ''Failed to register %d callback because max callbacks are register'')
      else let cbck = \<lparr>cb_event_type = et, callback = cb, arg = a\<rparr>;
               b = b\<lparr>known_callbacks := (known_callbacks b)[unat (callbacks_count b) := cbck]\<rparr>
           in Inr (0, b\<lparr>callbacks_count := callbacks_count b + 1\<rparr>))"

definition remove_callback :: "nat \<Rightarrow> event_bus \<Rightarrow> event_bus" where
  "remove_callback i b =
     b\<lparr>known_callbacks := fold (\<lambda>i cs. cs[i - 1 := cs ! i]) [Suc i..<unat (callbacks_count b)]
                            (known_callbacks b)\<rparr>"

function unregister_loop :: "nat \<Rightarrow> u32 \<Rightarrow> u32 \<Rightarrow> event_bus \<Rightarrow> u32 \<times> event_bus" where
  "unregister_loop i cb a b =
     (if i < unat (callbacks_count b) then
        let entry = known_callbacks b ! i
        in if callback entry = cb \<and> arg entry = a then (0, remove_callback i b)
           else unregister_loop (Suc i) cb a b
      else (- 1, b))"
  by pat_completeness auto
termination
  by (relation "measure (\<lambda>(i, cb, a, b). unat (callbacks_count b) - i)") auto

definition unregister_event_callback :: "u32 \<Rightarrow> u32 \<Rightarrow> event_bus \<Rightarrow> u32 \<times> event_bus" where
  "unregister_event_callback cb a b = unregister_loop 0 cb a b"

definition fire_event ::
  "(u32 \<Rightarrow> 'a event_header_scheme \<Rightarrow> u32 \<Rightarrow> 'w \<Rightarrow> 'w) \<Rightarrow> 'a event_header_scheme \<Rightarrow> event_bus \<Rightarrow> 'w \<Rightarrow> u32 \<times> 'w" where
  "fire_event call event b w =
     (0, fold (\<lambda>i w. let entry = known_callbacks b ! i
                      in if cb_event_type entry = event_type event
                         then call (callback entry) event (arg entry) w else w)
           [0..<unat (callbacks_count b)] w)"

declare unregister_loop.simps [simp del]

section \<open>The registry as a list of active entries\<close>

definition bus_inv :: "event_bus \<Rightarrow> bool" where
  "bus_inv b \<longleftrightarrow> length (known_callbacks b) = 1024 \<and> callbacks_count b \<le> CALLBACKS_MAX_COUNT"

definition active :: "event_bus \<Rightarrow> callback_entry list" where
  "active b = take (unat (callbacks_count b)) (known_callbacks b)"

definition deliver ::
  "(u32 \<Rightarrow> 'a event_header_scheme \<Rightarrow> u32 \<Rightarrow> 'w \<Rightarrow> 'w) \<Rightarrow> 'a event_header_scheme \<Rightarrow> callback_entry \<Rightarrow> 'w \<Rightarrow> 'w" where
  "deliver call event e w =
     (if cb_event_type e = event_type event then call (callback e) event (arg e) w else w)"

lemma bus_inv_empty [simp]: "bus_inv empty_bus"
  by (simp add: bus_inv_def empty_bus_def CALLBACKS_MAX_COUNT_def)

lemma active_empty [simp]: "active empty_bus = []"
  by (simp add: active_def empty_bus_def)

lemma length_active: "bus_inv b \<Longrightarrow> length (active b) = unat (callbacks_count b)"
  by (simp add: bus_inv_def active_def CALLBACKS_MAX_COUNT_def word_le_nat_alt)

lemma fold_upt_nth: "n \<le> length xs \<Longrightarrow> fold (\<lambda>i. f (xs ! i)) [0..<n] = fold f (take n xs)"
proof -
  assume n: "n \<le> length xs"
  have "fold f (map ((!) xs) [0..<n]) = fold (\<lambda>i. f (xs ! i)) [0..<n]"
    by (simp add: fold_map comp_def)
  moreover have "map ((!) xs) [0..<n] = take n xs" using n by (simp add: list_eq_iff_nth_eq)
  ultimately show ?thesis by simp
qed

lemma fire_event_active:
  "bus_inv b \<Longrightarrow> fire_event call event b w = (0, fold (deliver call event) (active b) w)"
  using length_active [of b] fold_upt_nth [of "unat (callbacks_count b)" "known_callbacks b" "deliver call event"]
  by (simp add: fire_event_def deliver_def [abs_def] Let_def active_def)

lemma register_inv:
  assumes "bus_inv b" "register_event_callback t c a b = Inr (r, b')"
  shows "bus_inv b' \<and> r = 0 \<and> active b' = active b @ [\<lparr>cb_event_type = t, callback = c, arg = a\<rparr>]"
proof -
  let ?n = "unat (callbacks_count b)"
  from assms have lt: "?n < 1024"
    by (auto simp: register_event_callback_def CALLBACKS_MAX_COUNT_def word_le_nat_alt split: if_splits)
  then have n: "unat (callbacks_count b + 1) = Suc ?n" by (subst unat_add_lt) simp_all
  from assms lt show ?thesis
    by (auto simp: register_event_callback_def bus_inv_def active_def n Let_def word_le_nat_alt
        CALLBACKS_MAX_COUNT_def take_Suc_conv_app_nth split: if_splits)
qed

lemma register_panics_iff:
  "(\<exists>e. register_event_callback t c a b = Inl e) \<longleftrightarrow> CALLBACKS_MAX_COUNT \<le> callbacks_count b"
  by (auto simp: register_event_callback_def Let_def)

text \<open>The shift of \<open>remove_callback\<close>: entry \<open>i\<close> goes, the last entry stays in place twice.\<close>

lemma shift_down:
  assumes "i < n" "n \<le> length cs"
  shows "fold (\<lambda>j cs. cs[j - 1 := cs ! j]) [Suc i..<n] cs
    = take i cs @ drop (Suc i) (take n cs) @ drop (n - 1) cs"
  using assms
proof (induction n)
  case (Suc n)
  show ?case
  proof (cases "i = n")
    case True
    with Suc.prems show ?thesis by simp
  next
    case False
    with Suc have IH: "fold (\<lambda>j cs. cs[j - 1 := cs ! j]) [Suc i..<n] cs
        = take i cs @ drop (Suc i) (take n cs) @ drop (n - 1) cs" by simp
    have n: "Suc i \<le> n" "n < length cs" using False Suc.prems by auto
    let ?l = "take i cs @ drop (Suc i) (take n cs) @ drop (n - 1) cs"
    have len: "length (take i cs @ drop (Suc i) (take n cs)) = n - 1" using n by simp
    have d: "drop (n - 1) cs = cs ! (n - 1) # cs ! n # drop (Suc n) cs"
      using n by (metis Cons_nth_drop_Suc Suc_pred' diff_less less_le_trans less_imp_diff_less
          zero_less_Suc zero_less_one less_Suc_eq_0_disj Suc_le_lessD not_less0 gr0I)
    have "?l ! n = ((take i cs @ drop (Suc i) (take n cs)) @ drop (n - 1) cs) ! n" by simp
    also have "\<dots> = drop (n - 1) cs ! 1" unfolding nth_append len using n by simp
    finally have "?l ! n = cs ! n" using n by simp
    moreover have "?l[n - 1 := cs ! n] = (take i cs @ drop (Suc i) (take n cs)) @ cs ! n # cs ! n # drop (Suc n) cs"
      using list_update_length [of "take i cs @ drop (Suc i) (take n cs)" "cs ! (n - 1)" "cs ! n # drop (Suc n) cs" "cs ! n"]
      unfolding len d by simp
    moreover have "drop (Suc i) (take (Suc n) cs) = drop (Suc i) (take n cs) @ [cs ! n]"
      using n by (simp add: take_Suc_conv_app_nth)
    moreover have "drop n cs = cs ! n # drop (Suc n) cs" using n by (simp add: Cons_nth_drop_Suc)
    ultimately show ?thesis using n IH by simp
  qed
qed simp

lemma take_length_append: "length xs = n \<Longrightarrow> take n (xs @ ys) = xs"
  by auto

lemma remove_callback_active:
  assumes "bus_inv b" "i < unat (callbacks_count b)"
  shows "active (remove_callback i b) = take i (active b) @ drop (Suc i) (active b) @ [last (active b)]
    \<and> bus_inv (remove_callback i b) \<and> callbacks_count (remove_callback i b) = callbacks_count b"
proof -
  let ?n = "unat (callbacks_count b)" and ?cs = "known_callbacks b"
  have n: "?n \<le> length ?cs" "?n \<noteq> 0"
    using assms by (auto simp: bus_inv_def CALLBACKS_MAX_COUNT_def word_le_nat_alt)
  have d: "drop (?n - 1) ?cs = ?cs ! (?n - 1) # drop ?n ?cs"
    using n by (metis Cons_nth_drop_Suc Suc_pred' diff_less less_le_trans neq0_conv zero_less_one)
  have l: "last (active b) = ?cs ! (?n - 1)"
    using n last_conv_nth [of "take ?n ?cs"]
    by (cases "known_callbacks b = []") (simp_all add: active_def min_absorb2)
  have s: "known_callbacks (remove_callback i b) =
      (take i ?cs @ drop (Suc i) (take ?n ?cs) @ [?cs ! (?n - 1)]) @ drop ?n ?cs"
    using shift_down [OF assms(2) n(1)] d by (simp add: remove_callback_def)
  have "length (take i ?cs @ drop (Suc i) (take ?n ?cs) @ [?cs ! (?n - 1)]) = ?n"
    using assms(2) n by simp
  then have "take ?n (known_callbacks (remove_callback i b)) =
      take i ?cs @ drop (Suc i) (take ?n ?cs) @ [?cs ! (?n - 1)]"
    unfolding s by (rule take_length_append)
  moreover have "callbacks_count (remove_callback i b) = callbacks_count b" by (simp add: remove_callback_def)
  moreover have "length (known_callbacks (remove_callback i b)) = length ?cs"
    using assms(2) n by (simp add: s)
  ultimately show ?thesis
    using assms l by (simp add: active_def bus_inv_def)
qed

lemma unregister_loop_eq:
  "unregister_loop i cb a b =
     (case find (\<lambda>j. callback (known_callbacks b ! j) = cb \<and> arg (known_callbacks b ! j) = a)
             [i..<unat (callbacks_count b)] of
        None \<Rightarrow> (- 1, b) | Some j \<Rightarrow> (0, remove_callback j b))"
proof (induction i cb a b rule: unregister_loop.induct)
  case (1 i cb a b)
  show ?case
  proof (cases "i < unat (callbacks_count b)")
    case True
    with 1 show ?thesis
      by (simp add: unregister_loop.simps [of i cb a b] upt_conv_Cons Let_def)
  qed (simp add: unregister_loop.simps [of i cb a b])
qed

section \<open>Properties\<close>

text \<open>C24. Registration: with room left it returns 0, keeps the invariant, and from then on every
  event is delivered to the earlier callbacks in their order and then to the new one; with no
  room left it panics.\<close>

theorem register_event_callback_correct:
  assumes "bus_inv b"
  shows "if callbacks_count b < CALLBACKS_MAX_COUNT
    then \<exists>b'. register_event_callback t c a b = Inr (0, b') \<and> bus_inv b'
       \<and> (\<forall>call event w. snd (fire_event call event b' w) =
            deliver call event \<lparr>cb_event_type = t, callback = c, arg = a\<rparr> (snd (fire_event call event b w)))
    else \<exists>msg. register_event_callback t c a b = Inl (Panic msg)"
proof (cases "callbacks_count b < CALLBACKS_MAX_COUNT")
  case True
  then obtain r b' where r: "register_event_callback t c a b = Inr (r, b')"
    by (simp add: register_event_callback_def Let_def not_le [symmetric])
  note R = register_inv [OF assms r]
  then show ?thesis using True assms r by (auto simp: fire_event_active)
qed (simp add: register_event_callback_def)

theorem register_event_callback_correct_witness:
  "bus_inv empty_bus \<and> (if callbacks_count empty_bus < CALLBACKS_MAX_COUNT
    then \<exists>b'. register_event_callback 1 7 0 empty_bus = Inr (0, b') \<and> bus_inv b'
       \<and> (\<forall>call (event :: event_header) (w :: nat). snd (fire_event call event b' w) =
            deliver call event \<lparr>cb_event_type = 1, callback = 7, arg = 0\<rparr> (snd (fire_event call event empty_bus w)))
    else \<exists>msg. register_event_callback 1 7 0 empty_bus = Inl (Panic msg))"
  using register_event_callback_correct [OF bus_inv_empty, of 1 7 0] bus_inv_empty by fastforce

text \<open>What \<open>unregister_event_callback\<close> really does: it finds the first matching entry and moves
  the later ones down, but the count stays, so the last entry stays active (twice, unless it was
  the one to remove); with no match it returns \<open>- 1\<close> and changes nothing.\<close>

lemma unregister_event_callback_effect:
  assumes "bus_inv b"
  shows "(case find (\<lambda>i. callback (active b ! i) = c \<and> arg (active b ! i) = a) [0..<length (active b)] of
      None \<Rightarrow> unregister_event_callback c a b = (- 1, b)
    | Some i \<Rightarrow> fst (unregister_event_callback c a b) = 0
        \<and> active (snd (unregister_event_callback c a b))
          = take i (active b) @ drop (Suc i) (active b) @ [last (active b)])"
proof -
  let ?n = "unat (callbacks_count b)"
  have nth: "active b ! i = known_callbacks b ! i" if "i < ?n" for i
    using that by (simp add: active_def)
  have f: "find (\<lambda>i. callback (active b ! i) = c \<and> arg (active b ! i) = a) [0..<length (active b)] =
      find (\<lambda>j. callback (known_callbacks b ! j) = c \<and> arg (known_callbacks b ! j) = a) [0..<?n]"
    unfolding length_active [OF assms(1)] by (intro find_cong) (auto simp: nth)
  show ?thesis
  proof (cases "find (\<lambda>j. callback (known_callbacks b ! j) = c \<and> arg (known_callbacks b ! j) = a) [0..<?n]")
    case None
    then show ?thesis by (simp add: f unregister_event_callback_def unregister_loop_eq)
  next
    case (Some j)
    then have "j < ?n" by (simp add: find_upt_Some)
    with Some remove_callback_active [OF assms(1), of j] show ?thesis
      by (simp add: f unregister_event_callback_def unregister_loop_eq)
  qed
qed

text \<open>C33. Unregistering the callback that was registered last changes nothing at all: it goes on
  being called for every event.\<close>

theorem unregister_last_still_fires:
  assumes "bus_inv b" "register_event_callback t c a b = Inr (r, b')"
    and "\<forall>e \<in> set (active b). \<not> (callback e = c \<and> arg e = a)"
  shows "fst (unregister_event_callback c a b') = 0
    \<and> fire_event call event (snd (unregister_event_callback c a b')) w = fire_event call event b' w"
proof -
  note R = register_inv [OF assms(1,2)]
  let ?e = "\<lparr>cb_event_type = t, callback = c, arg = a\<rparr>" and ?n = "length (active b)"
  have cnt: "unat (callbacks_count b') = Suc ?n" using length_active [of b'] R by simp
  have nth: "known_callbacks b' ! i = (active b @ [?e]) ! i" if "i < Suc ?n" for i
    using R that cnt by (metis active_def nth_take)
  have "find (\<lambda>j. callback (known_callbacks b' ! j) = c \<and> arg (known_callbacks b' ! j) = a)
      [0..<unat (callbacks_count b')] = Some ?n"
    unfolding find_upt_Some cnt using assms(3) nth by (auto simp: nth_append less_Suc_eq)
  then have u: "unregister_event_callback c a b' = (0, remove_callback ?n b')"
    by (simp add: unregister_event_callback_def unregister_loop_eq)
  have "active (remove_callback ?n b') = active b'" "bus_inv (remove_callback ?n b')"
    using remove_callback_active [of b' ?n] R cnt by simp_all
  with R u show ?thesis by (simp add: fire_event_active)
qed

definition two_callbacks :: event_bus where
  "two_callbacks = \<lparr>known_callbacks = \<lparr>cb_event_type = 1, callback = 16, arg = 0\<rparr> # \<lparr>cb_event_type = 1, callback = 32, arg = 0\<rparr>
       # replicate 1022 \<lparr>cb_event_type = 0, callback = NULL, arg = NULL\<rparr>, callbacks_count = 2\<rparr>"

lemma bus_inv_two_callbacks: "bus_inv two_callbacks"
  by (simp add: bus_inv_def two_callbacks_def CALLBACKS_MAX_COUNT_def)

theorem unregister_last_still_fires_witness:
  "\<exists>b'. register_event_callback 1 16 0 empty_bus = Inr (0, b')
     \<and> (\<forall>call (event :: event_header) (w :: nat).
          fire_event call event (snd (unregister_event_callback 16 0 b')) w = fire_event call event b' w)"
proof -
  obtain b' where r: "register_event_callback 1 16 0 empty_bus = Inr (0, b')"
    by (simp add: register_event_callback_def empty_bus_def CALLBACKS_MAX_COUNT_def Let_def)
  have n: "\<forall>e \<in> set (active empty_bus). \<not> (callback e = 16 \<and> arg e = 0)" by simp
  have "fire_event call event (snd (unregister_event_callback 16 0 b')) w = fire_event call event b' w"
    for call and event :: event_header and w :: nat
    using unregister_last_still_fires [OF bus_inv_empty r n, of call event w] by simp
  with r show ?thesis by blast
qed

end
