(* ===== verification/Vga.thy ===== *)
theory Vga
  imports Paging Event_Bus
begin

text \<open>
  The text console: \<^verbatim>\<open>src/vga.c\<close> and \<^verbatim>\<open>src/vga.h\<close>.

  The screen lives in the byte memory of \<open>kmem\<close>, 16 bits a cell from \<open>terminal_buffer\<close> on; the
  cursor fields extend the memory record. Character data are byte lists: the \<^verbatim>\<open>data\<close> and \<^verbatim>\<open>size\<close>
  of \<open>terminal_write\<close> are the list of the bytes it reads, and a C string is a list up to its first
  zero. The invariant keeps the cursor on the screen; the refinement lemma says what each
  character does to the cells at a linear position, scrolling included.
\<close>

section \<open>Colours and cells\<close>

datatype vga_color =
    VGA_COLOR_BLACK | VGA_COLOR_BLUE | VGA_COLOR_GREEN | VGA_COLOR_CYAN
  | VGA_COLOR_RED | VGA_COLOR_MAGENTA | VGA_COLOR_BROWN | VGA_COLOR_LIGHT_GREY
  | VGA_COLOR_DARK_GREY | VGA_COLOR_LIGHT_BLUE | VGA_COLOR_LIGHT_GREEN | VGA_COLOR_LIGHT_CYAN
  | VGA_COLOR_LIGHT_RED | VGA_COLOR_LIGHT_MAGENTA | VGA_COLOR_LIGHT_BROWN | VGA_COLOR_WHITE

fun color_value :: "vga_color \<Rightarrow> u8" where
  "color_value VGA_COLOR_BLACK = 0"
| "color_value VGA_COLOR_BLUE = 1"
| "color_value VGA_COLOR_GREEN = 2"
| "color_value VGA_COLOR_CYAN = 3"
| "color_value VGA_COLOR_RED = 4"
| "color_value VGA_COLOR_MAGENTA = 5"
| "color_value VGA_COLOR_BROWN = 6"
| "color_value VGA_COLOR_LIGHT_GREY = 7"
| "color_value VGA_COLOR_DARK_GREY = 8"
| "color_value VGA_COLOR_LIGHT_BLUE = 9"
| "color_value VGA_COLOR_LIGHT_GREEN = 10"
| "color_value VGA_COLOR_LIGHT_CYAN = 11"
| "color_value VGA_COLOR_LIGHT_RED = 12"
| "color_value VGA_COLOR_LIGHT_MAGENTA = 13"
| "color_value VGA_COLOR_LIGHT_BROWN = 14"
| "color_value VGA_COLOR_WHITE = 15"

definition vga_entry_color :: "vga_color \<Rightarrow> vga_color \<Rightarrow> u8" where
  "vga_entry_color fg bg = color_value fg OR push_bit 4 (color_value bg)"

definition vga_entry :: "u8 \<Rightarrow> u8 \<Rightarrow> u16" where
  "vga_entry uc color = ucast uc OR push_bit 8 (ucast color)"

section \<open>State and operations\<close>

record console = kmem +
  terminal_row :: u32
  terminal_column :: u32
  terminal_buffer :: u32

definition VGA_WIDTH :: u32 where "VGA_WIDTH = 80"
definition VGA_HEIGHT :: u32 where "VGA_HEIGHT = 25"

definition VGA_INDEX :: "u32 \<Rightarrow> u32 \<Rightarrow> u32" where "VGA_INDEX x y = y * VGA_WIDTH + x"

definition VGA_PTR :: "u32 \<Rightarrow> u32 \<Rightarrow> 'a console_scheme \<Rightarrow> u32" where
  "VGA_PTR x y s = terminal_buffer s + 2 * VGA_INDEX x y"

definition terminal_shift_buffer :: "'a console_scheme \<Rightarrow> 'a console_scheme" where
  "terminal_shift_buffer s =
     (let s = fold (\<lambda>y s. s\<lparr>ram := memcpy (ram s) (VGA_PTR 0 (of_nat y - 1) s) (VGA_PTR 0 (of_nat y) s)
                              (VGA_WIDTH * 2)\<rparr>) [1..<Suc (unat VGA_HEIGHT)] s
      in s\<lparr>terminal_row := terminal_row s - 1\<rparr>)"

definition terminal_putentryat :: "u8 \<Rightarrow> u8 \<Rightarrow> u32 \<Rightarrow> u32 \<Rightarrow> 'a console_scheme \<Rightarrow> 'a console_scheme" where
  "terminal_putentryat c color x y s =
     s\<lparr>ram := store16 (ram s) (terminal_buffer s + 2 * VGA_INDEX x y) (vga_entry c color)\<rparr>"

definition terminal_putchar_color :: "u8 \<Rightarrow> u8 \<Rightarrow> 'a console_scheme \<Rightarrow> 'a console_scheme" where
  "terminal_putchar_color c color s =
     (if c = 10 then
        let s = s\<lparr>terminal_row := terminal_row s + 1, terminal_column := 0\<rparr>
        in if terminal_row s = VGA_HEIGHT then terminal_shift_buffer s else s
      else if c = 13 then s\<lparr>terminal_column := 0\<rparr>
      else
        let s = terminal_putentryat c color (terminal_column s) (terminal_row s) s;
            s = s\<lparr>terminal_column := terminal_column s + 1\<rparr>
        in if terminal_column s = VGA_WIDTH then
             let s = s\<lparr>terminal_column := 0, terminal_row := terminal_row s + 1\<rparr>
             in if terminal_row s = VGA_HEIGHT then terminal_shift_buffer s else s
           else s)"

definition terminal_write :: "u8 list \<Rightarrow> u8 \<Rightarrow> 'a console_scheme \<Rightarrow> 'a console_scheme" where
  "terminal_write data color s = fold (\<lambda>c. terminal_putchar_color c color) data s"

definition c_string :: "u8 list \<Rightarrow> u8 list" where
  "c_string data = takeWhile (\<lambda>c. c \<noteq> 0) data"

definition terminal_writestring :: "u8 list \<Rightarrow> 'a console_scheme \<Rightarrow> 'a console_scheme" where
  "terminal_writestring data s =
     terminal_write (c_string data) (vga_entry_color VGA_COLOR_LIGHT_GREY VGA_COLOR_BLACK) s"

definition terminal_writestring_color :: "u8 list \<Rightarrow> u8 \<Rightarrow> 'a console_scheme \<Rightarrow> 'a console_scheme" where
  "terminal_writestring_color data color s = terminal_write (c_string data) color s"

text \<open>The keyboard event carries its keycode as an \<^verbatim>\<open>int\<close>; the callback prints its low byte.\<close>

record keyboard_event = event_header +
  keycode :: u32

definition handle_keypress :: "keyboard_event \<Rightarrow> u32 \<Rightarrow> 'a console_scheme \<Rightarrow> 'a console_scheme" where
  "handle_keypress event a s = terminal_writestring [ucast (keycode event), 0] s"

definition clear_cell :: "u8 \<Rightarrow> nat \<Rightarrow> nat \<Rightarrow> 'a console_scheme \<Rightarrow> 'a console_scheme" where
  "clear_cell color y x s =
     (let index = of_nat y * VGA_WIDTH + of_nat x
      in s\<lparr>ram := store16 (ram s) (terminal_buffer s + 2 * index) (vga_entry 32 color)\<rparr>)"

definition terminal_clear :: "u8 \<Rightarrow> 'a console_scheme \<Rightarrow> 'a console_scheme" where
  "terminal_clear color s =
     fold (\<lambda>y. fold (clear_cell color y) [0..<unat VGA_WIDTH]) [0..<unat VGA_HEIGHT] s"

definition terminal_initialize ::
  "u32 \<Rightarrow> event_bus \<Rightarrow> 'a console_scheme \<Rightarrow> (event_bus \<times> 'a console_scheme) result" where
  "terminal_initialize handle_keypress_ptr bus s =
     (let s = s\<lparr>terminal_row := 0, terminal_column := 0\<rparr>;
          color = vga_entry_color VGA_COLOR_LIGHT_GREY VGA_COLOR_BLACK;
          s = s\<lparr>terminal_buffer := phys2virt 0xB8000\<rparr>;
          s = terminal_clear color s
      in case register_event_callback EVENT_KEY_PRESS handle_keypress_ptr NULL bus of
           Inl e \<Rightarrow> Inl e | Inr (r, bus) \<Rightarrow> Inr (bus, s))"

section \<open>Cells\<close>

text \<open>The screen and the row below it, which \<open>terminal_shift_buffer\<close> reads, are 2080 cells.\<close>

definition cell :: "mem \<Rightarrow> u32 \<Rightarrow> nat \<Rightarrow> u16" where
  "cell m b i = load16 m (b + of_nat (2 * i))"

lemma cell_addr_neq:
  assumes "i < 1048576" "j < 1048576" "i \<noteq> j"
  shows "2 \<le> (b + of_nat (2 * i)) - (b + of_nat (2 * j) :: u32)"
proof -
  have u: "unat (of_nat (2 * i) :: u32) = 2 * i" "unat (of_nat (2 * j) :: u32) = 2 * j"
    using assms by (intro of_nat_less_u32; simp)+
  have "2 \<le> unat (of_nat (2 * i) - of_nat (2 * j) :: u32)"
  proof (cases "j < i")
    case True
    then have le: "(of_nat (2 * j) :: u32) \<le> of_nat (2 * i)" by (simp only: word_le_nat_alt u)
    show ?thesis unfolding unat_sub [OF le] u using True by simp
  next
    case False
    with assms(3) have lt: "i < j" by simp
    then have le: "(of_nat (2 * i) :: u32) \<le> of_nat (2 * j)" by (simp only: word_le_nat_alt u)
    have v: "unat (of_nat (2 * j) - of_nat (2 * i) :: u32) = 2 * j - 2 * i"
      unfolding unat_sub [OF le] u ..
    then have nz: "of_nat (2 * j) - of_nat (2 * i) \<noteq> (0 :: u32)" using lt by auto
    have "unat (of_nat (2 * i) - of_nat (2 * j) :: u32) = 4294967296 - (2 * j - 2 * i)"
      using unat_uminus [OF nz] v by simp
    then show ?thesis using assms(2) by simp
  qed
  then show ?thesis by (simp add: word_le_nat_alt)
qed

lemma cell_store16 [mem_simps]:
  assumes "i < 1048576" "j < 1048576"
  shows "cell (store16 m (b + of_nat (2 * j)) v) b i = (if i = j then v else cell m b i)"
  using cell_addr_neq [of i j b] cell_addr_neq [of j i b] assms
  by (cases "i = j") (simp_all add: cell_def load16_store16_sep)

section \<open>Scrolling\<close>

lemma in_range_of_nat:
  assumes "p + n < 2147483648" "j < 4294967296"
  shows "in_range (b + of_nat p) (of_nat n) (b + of_nat j) \<longleftrightarrow> p \<le> j \<and> j < p + n"
proof -
  have u: "unat (of_nat p :: u32) = p" "unat (of_nat n :: u32) = n" "unat (of_nat j :: u32) = j"
    using assms by (simp_all add: of_nat_less_u32)
  have *: "in_range (b + of_nat p) (of_nat n) (b + of_nat j) \<longleftrightarrow> unat (of_nat j - of_nat p :: u32) < n"
    by (simp add: in_range_def word_less_nat_alt u)
  show ?thesis
  proof (cases "p \<le> j")
    case True
    then have le: "(of_nat p :: u32) \<le> of_nat j" by (simp only: word_le_nat_alt u)
    show ?thesis unfolding * unat_sub [OF le] u using True by auto
  next
    case False
    then have le: "(of_nat j :: u32) \<le> of_nat p" by (simp only: word_le_nat_alt u)
    have v: "unat (of_nat p - of_nat j :: u32) = p - j" unfolding unat_sub [OF le] u ..
    then have nz: "of_nat p - of_nat j \<noteq> (0 :: u32)" using False by auto
    have "unat (of_nat j - of_nat p :: u32) = 4294967296 - (p - j)"
      using unat_uminus [OF nz] v by simp
    then show ?thesis unfolding * using False assms by auto
  qed
qed

lemma memcpy_row:
  assumes "y < 25"
  shows "memcpy m (b + of_nat (160 * y)) (b + of_nat (160 * Suc y)) 160 a =
    (if 160 * y \<le> unat (a - b) \<and> unat (a - b) < 160 * Suc y then m (a + 160) else m a)"
proof -
  let ?d = "b + of_nat (160 * y) :: u32" and ?s = "b + of_nat (160 * Suc y) :: u32"
  have "160 \<le> ?d - ?s" by simp
  then have eq: "memcpy m ?d ?s 160 a = (if in_range ?d 160 a then m (?s + (a - ?d)) else m a)"
    by (intro memcpy_eq) blast
  have "in_range ?d 160 a \<longleftrightarrow> 160 * y \<le> unat (a - b) \<and> unat (a - b) < 160 * Suc y"
    using in_range_of_nat [of "160 * y" 160 "unat (a - b)" b] assms u32_lt [of "a - b"]
    by (simp add: add.commute)
  with eq show ?thesis by (simp add: add.commute)
qed

definition shift_rows :: "nat \<Rightarrow> u32 \<Rightarrow> mem \<Rightarrow> mem" where
  "shift_rows n b m = (\<lambda>a. if unat (a - b) < 160 * n then m (a + 160) else m a)"

lemma shift_rows_Suc:
  assumes "n < 25"
  shows "memcpy (shift_rows n b m) (b + of_nat (160 * n)) (b + of_nat (160 * Suc n)) 160 = shift_rows (Suc n) b m"
proof
  fix a
  have "unat (a + 160 - b) = unat (a - b) + 160" if "unat (a - b) < 4000"
  proof -
    have "a + 160 - b = a - b + 160" by simp
    then show ?thesis using unat_add_lt [of "a - b" 160] that by (simp only:) simp
  qed
  then have "shift_rows n b m (a + 160) = m (a + 160)"
    if "160 * n \<le> unat (a - b)" "unat (a - b) < 160 * Suc n"
    using that assms by (simp add: shift_rows_def)
  then show "memcpy (shift_rows n b m) (b + of_nat (160 * n)) (b + of_nat (160 * Suc n)) 160 a
      = shift_rows (Suc n) b m a"
    unfolding memcpy_row [OF assms] by (auto simp: shift_rows_def)
qed

lemma shift_rows_fold:
  assumes "n \<le> 25"
  shows "fold (\<lambda>y s. s\<lparr>ram := memcpy (ram s) (VGA_PTR 0 (of_nat y - 1) s) (VGA_PTR 0 (of_nat y) s)
                        (VGA_WIDTH * 2)\<rparr>) [1..<Suc n] s
    = s\<lparr>ram := shift_rows n (terminal_buffer s) (ram s)\<rparr>"
  using assms
proof (induction n)
  case 0
  then show ?case by (simp add: shift_rows_def)
next
  case (Suc n)
  have a: "2 * (of_nat n * 80) = (of_nat (160 * n) :: u32)" by simp
  show ?case
    using Suc shift_rows_Suc [of n "terminal_buffer s" "ram s"]
    by (simp add: VGA_PTR_def VGA_INDEX_def VGA_WIDTH_def algebra_simps)
qed

lemma terminal_shift_buffer_eq:
  "terminal_shift_buffer s =
     s\<lparr>ram := shift_rows 25 (terminal_buffer s) (ram s), terminal_row := terminal_row s - 1\<rparr>"
  using shift_rows_fold [of 25 s]
  by (simp add: terminal_shift_buffer_def VGA_HEIGHT_def Let_def)

lemma cell_shift_rows:
  assumes "i < 2080"
  shows "cell (shift_rows 25 b m) b i = (if i < 2000 then cell m b (i + 80) else cell m b i)"
proof -
  have u: "unat (of_nat (2 * i + k) :: u32) = 2 * i + k" if "k < 2" for k
    using assms that by (intro of_nat_less_u32) simp
  have o: "shift_rows 25 b m (b + of_nat (2 * i + k)) =
      (if i < 2000 then m (b + of_nat (2 * (i + 80) + k)) else m (b + of_nat (2 * i + k)))" if "k < 2" for k
    using u [OF that] that by (auto simp: shift_rows_def ac_simps)
  show ?thesis using o [of 0] o [of 1] by (simp add: cell_def load16_def ac_simps)
qed

section \<open>The screen as a list of cells\<close>

text \<open>
  The abstract console: the 2080 cells the code touches (25 rows and the row below them, which
  scrolling reads) and one linear cursor position. \<open>scroll\<close> moves everything up a row; the row
  that comes in at the bottom is the one below the screen.
\<close>

type_synonym screen = "u16 list \<times> nat"

definition scroll :: "screen \<Rightarrow> screen" where
  "scroll sc = (case sc of (cs, p) \<Rightarrow> if p < 2000 then (cs, p) else (drop 80 cs @ drop 2000 cs, p - 80))"

definition screen_put :: "u8 \<Rightarrow> u8 \<Rightarrow> screen \<Rightarrow> screen" where
  "screen_put c color sc = (case sc of (cs, p) \<Rightarrow>
     if c = 10 then scroll (cs, 80 * Suc (p div 80))
     else if c = 13 then (cs, 80 * (p div 80))
     else scroll (cs[p := vga_entry c color], Suc p))"

definition cursor :: "'a console_scheme \<Rightarrow> nat" where
  "cursor s = 80 * unat (terminal_row s) + unat (terminal_column s)"

definition screen_of :: "'a console_scheme \<Rightarrow> screen" where
  "screen_of s = (map (cell (ram s) (terminal_buffer s)) [0..<2080], cursor s)"

definition terminal_inv :: "'a console_scheme \<Rightarrow> bool" where
  "terminal_inv s \<longleftrightarrow> terminal_row s < VGA_HEIGHT \<and> terminal_column s < VGA_WIDTH"

lemma terminal_inv_unat:
  "terminal_inv s \<longleftrightarrow> unat (terminal_row s) < 25 \<and> unat (terminal_column s) < 80"
  by (simp add: terminal_inv_def VGA_HEIGHT_def VGA_WIDTH_def word_less_nat_alt)

lemma cells_shift:
  "map (cell (shift_rows 25 b m) b) [0..<2080] =
     drop 80 (map (cell m b) [0..<2080]) @ drop 2000 (map (cell m b) [0..<2080])"
  by (rule nth_equalityI) (auto simp: nth_append cell_shift_rows add.commute)

lemma cells_store:
  "j < 2080 \<Longrightarrow> map (cell (store16 m (b + of_nat (2 * j)) v) b) [0..<2080] =
     (map (cell m b) [0..<2080])[j := v]"
  by (rule nth_equalityI) (auto simp: nth_list_update cell_store16 simp del: of_nat_mult)

lemma putentry_eq:
  assumes "terminal_inv s"
  shows "terminal_putentryat c color (terminal_column s) (terminal_row s) s =
    s\<lparr>ram := store16 (ram s) (terminal_buffer s + of_nat (2 * cursor s)) (vga_entry c color)\<rparr>"
proof -
  have "2 * VGA_INDEX (terminal_column s) (terminal_row s) = of_nat (2 * cursor s)"
    by (simp add: VGA_INDEX_def VGA_WIDTH_def cursor_def algebra_simps)
  then show ?thesis by (simp add: terminal_putentryat_def)
qed

text \<open>The end of every line break: move to the start of the next row, scrolling off the last.\<close>

definition next_row :: "'a console_scheme \<Rightarrow> 'a console_scheme" where
  "next_row s = (let s = s\<lparr>terminal_column := 0, terminal_row := terminal_row s + 1\<rparr>
                 in if terminal_row s = VGA_HEIGHT then terminal_shift_buffer s else s)"

lemma next_row_refines:
  assumes "unat (terminal_row s) < 25"
  shows "terminal_inv (next_row s)"
    and "screen_of (next_row s) = scroll (fst (screen_of s), 80 * Suc (unat (terminal_row s)))"
    and "terminal_buffer (next_row s) = terminal_buffer s"
    and "unat (a - terminal_buffer s) \<ge> 4000 \<Longrightarrow> ram (next_row s) a = ram s a"
proof -
  have u: "unat (terminal_row s + 1) = Suc (unat (terminal_row s))"
    using assms unat_add_lt [of "terminal_row s" 1] by simp
  have full: "terminal_row s + 1 = 25 \<longleftrightarrow> unat (terminal_row s) = 24"
    unfolding word_unat_eq_iff u by simp
  note defs = next_row_def terminal_shift_buffer_eq VGA_HEIGHT_def VGA_WIDTH_def Let_def
  show "terminal_inv (next_row s)"
    using assms u full by (auto simp: terminal_inv_unat defs)
  show "screen_of (next_row s) = scroll (fst (screen_of s), 80 * Suc (unat (terminal_row s)))"
    using assms u full by (auto simp: screen_of_def cursor_def scroll_def cells_shift defs)
  show "terminal_buffer (next_row s) = terminal_buffer s" by (simp add: defs)
  show "unat (a - terminal_buffer s) \<ge> 4000 \<Longrightarrow> ram (next_row s) a = ram s a"
    by (auto simp: defs shift_rows_def)
qed

lemma putchar_eq:
  "terminal_putchar_color c color s =
    (if c = 10 then next_row s
     else if c = 13 then s\<lparr>terminal_column := 0\<rparr>
     else let t = terminal_putentryat c color (terminal_column s) (terminal_row s) s
          in if terminal_column s + 1 = VGA_WIDTH then next_row t
             else t\<lparr>terminal_column := terminal_column s + 1\<rparr>)"
  by (simp add: terminal_putchar_color_def next_row_def terminal_putentryat_def terminal_shift_buffer_eq Let_def)

lemma cursor_row_col:
  assumes "terminal_inv s"
  shows "cursor s < 2000" "cursor s div 80 = unat (terminal_row s)" "cursor s mod 80 = unat (terminal_column s)"
  using assms by (auto simp: cursor_def terminal_inv_unat)

lemma putchar_refines:
  assumes inv: "terminal_inv s"
  shows "terminal_inv (terminal_putchar_color c color s)"
    and "screen_of (terminal_putchar_color c color s) = screen_put c color (screen_of s)"
proof -
  let ?t = "terminal_putentryat c color (terminal_column s) (terminal_row s) s"
  note row_col = cursor_row_col [OF inv]
  have r: "unat (terminal_row s) < 25" "unat (terminal_column s) < 80" using inv by (simp_all add: terminal_inv_unat)
  have u: "unat (terminal_column s + 1) = Suc (unat (terminal_column s))"
    using r unat_add_lt [of "terminal_column s" 1] by simp
  have last: "terminal_column s + 1 = VGA_WIDTH \<longleftrightarrow> unat (terminal_column s) = 79"
    unfolding word_unat_eq_iff u by (simp add: VGA_WIDTH_def)
  have put: "fst (screen_of ?t) = (fst (screen_of s))[cursor s := vga_entry c color]"
    "fst (screen_of (?t\<lparr>terminal_column := x\<rparr>)) = (fst (screen_of s))[cursor s := vga_entry c color]" for x
    using row_col(1) by (simp_all add: putentry_eq [OF inv] screen_of_def cells_store del: of_nat_mult)
  have t: "terminal_row ?t = terminal_row s" by (simp add: terminal_putentryat_def)
  have "screen_of s = (fst (screen_of s), cursor s)" by (simp add: screen_of_def)
  note sc = this [symmetric]
  show "terminal_inv (terminal_putchar_color c color s)"
    using r u last t next_row_refines(1) [of s] next_row_refines(1) [of ?t]
    by (auto simp: putchar_eq Let_def terminal_inv_unat)
  show "screen_of (terminal_putchar_color c color s) = screen_put c color (screen_of s)"
  proof (cases "c = 10 \<or> c = 13")
    case True
    then show ?thesis
      using r row_col next_row_refines(2) [of s]
      by (auto simp: putchar_eq screen_put_def screen_of_def cursor_def)
  next
    case False
    then have "screen_put c color (screen_of s) = scroll ((fst (screen_of s))[cursor s := vga_entry c color], Suc (cursor s))"
      by (simp add: screen_put_def screen_of_def)
    moreover have "screen_of (terminal_putchar_color c color s) =
        scroll ((fst (screen_of s))[cursor s := vga_entry c color], Suc (cursor s))"
    proof (cases "unat (terminal_column s) = 79")
      case True
      then show ?thesis using False last r t next_row_refines(2) [of ?t] put
        by (simp add: putchar_eq Let_def) (simp add: cursor_def)
    next
      case False
      then have "Suc (cursor s) < 2000" using r by (simp add: cursor_def)
      moreover have "cursor (?t\<lparr>terminal_column := terminal_column s + 1\<rparr>) = Suc (cursor s)"
        using u t by (simp add: cursor_def)
      ultimately show ?thesis using False \<open>\<not> (c = 10 \<or> c = 13)\<close> last put(2) [of "terminal_column s + 1"]
        by (simp add: putchar_eq Let_def scroll_def prod_eq_iff) (simp add: screen_of_def)
    qed
    ultimately show ?thesis by simp
  qed
qed

lemma putchar_frame:
  assumes inv: "terminal_inv s" and out: "\<not> in_range (terminal_buffer s) 4000 a"
  shows "ram (terminal_putchar_color c color s) a = ram s a"
    and "terminal_buffer (terminal_putchar_color c color s) = terminal_buffer s"
proof -
  let ?t = "terminal_putentryat c color (terminal_column s) (terminal_row s) s"
  have d: "unat (a - terminal_buffer s) \<ge> 4000" using out by (simp add: in_range_def word_less_nat_alt)
  have "\<not> in_range (terminal_buffer s + of_nat (2 * cursor s)) (of_nat 2)
      (terminal_buffer s + of_nat (unat (a - terminal_buffer s)))"
    using d cursor_row_col(1) [OF inv] u32_lt [of "a - terminal_buffer s"] by (subst in_range_of_nat) auto
  then have t: "ram ?t a = ram s a" by (simp add: putentry_eq [OF inv] store16_frame)
  have r: "unat (terminal_row s) < 25" "terminal_row ?t = terminal_row s" "terminal_buffer ?t = terminal_buffer s"
    using inv by (simp_all add: terminal_inv_unat terminal_putentryat_def)
  show "ram (terminal_putchar_color c color s) a = ram s a"
    using r t d next_row_refines(4) [of s a] next_row_refines(4) [of ?t a] by (auto simp: putchar_eq Let_def)
  show "terminal_buffer (terminal_putchar_color c color s) = terminal_buffer s"
    using r next_row_refines(3) [of s] next_row_refines(3) [of ?t] by (auto simp: putchar_eq Let_def)
qed

lemma putchar_frame_other:
  "kmem.truncate (terminal_putchar_color c color s) = (kmem.truncate s)\<lparr>ram := ram (terminal_putchar_color c color s)\<rparr>"
  "console.more (terminal_putchar_color c color s) = console.more s"
  by (auto simp: terminal_putchar_color_def terminal_shift_buffer_eq terminal_putentryat_def kmem.truncate_def Let_def)

section \<open>Properties of the console\<close>

lemma terminal_write_Nil [simp]: "terminal_write [] color s = s"
  by (simp add: terminal_write_def)

lemma terminal_write_Cons [simp]:
  "terminal_write (c # cs) color s = terminal_write cs color (terminal_putchar_color c color s)"
  by (simp add: terminal_write_def)

lemma terminal_write_append [simp]:
  "terminal_write (xs @ ys) color s = terminal_write ys color (terminal_write xs color s)"
  by (simp add: terminal_write_def)

lemma terminal_write_inv: "terminal_inv s \<Longrightarrow> terminal_inv (terminal_write data color s)"
  by (induction data arbitrary: s) (auto intro: putchar_refines)

lemma terminal_write_buffer: "terminal_inv s \<Longrightarrow> terminal_buffer (terminal_write data color s) = terminal_buffer s"
proof (induction data arbitrary: s)
  case (Cons c data)
  have "\<not> in_range (terminal_buffer s) 4000 (terminal_buffer s - 1)" by (simp add: in_range_def)
  from putchar_frame(2) [OF Cons.prems this, of c color] Cons.IH putchar_refines(1) [OF Cons.prems, of c color]
  show ?case by simp
qed simp

lemma terminal_write_screen:
  "terminal_inv s \<Longrightarrow> screen_of (terminal_write data color s) = fold (\<lambda>c. screen_put c color) data (screen_of s)"
  by (induction data arbitrary: s) (simp_all add: putchar_refines)

text \<open>C7. On a terminal whose cursor is on the screen, \<open>terminal_write\<close> does to the video memory what
  the abstract console does with the same characters one after the other: newline, carriage return,
  wrap at column 80 and scrolling off row 25 included; and the cursor is on the screen again.\<close>

theorem terminal_write_refines:
  assumes "terminal_inv s"
  shows "terminal_inv (terminal_write data color s)
    \<and> screen_of (terminal_write data color s) = fold (\<lambda>c. screen_put c color) data (screen_of s)"
  using assms by (simp add: terminal_write_inv terminal_write_screen)

definition console0 :: "u32 \<Rightarrow> u32 \<Rightarrow> console" where
  "console0 row col = \<lparr>ram = (\<lambda>_. 0), freelist_head = 0, kernel_pgdir = 0, cr3 = 0,
     terminal_row = row, terminal_column = col, terminal_buffer = phys2virt 0xB8000\<rparr>"

theorem terminal_write_refines_witness:
  "screen_of (terminal_write [72, 105, 10] 7 (console0 24 79))
     = fold (\<lambda>c. screen_put c 7) [72, 105, 10] (screen_of (console0 24 79))"
  using terminal_write_refines [of "console0 24 79" "[72, 105, 10]" 7]
  by (simp add: console0_def terminal_inv_def VGA_HEIGHT_def VGA_WIDTH_def)

lemma terminal_write_outside:
  "terminal_inv s \<Longrightarrow> \<not> in_range (terminal_buffer s) 4000 a \<Longrightarrow> ram (terminal_write data color s) a = ram s a"
proof (induction data arbitrary: s)
  case (Cons c data)
  have "terminal_buffer (terminal_putchar_color c color s) = terminal_buffer s"
    using terminal_write_buffer [OF Cons.prems(1), of "[c]" color] by simp
  with Cons.IH [OF putchar_refines(1) [OF Cons.prems(1), of c color]] putchar_frame(1) [OF Cons.prems(1), of a c color] Cons.prems(2)
  show ?case by simp
qed simp

lemma terminal_write_rest:
  "kmem.truncate (terminal_write data color s) = (kmem.truncate s)\<lparr>ram := ram (terminal_write data color s)\<rparr>"
  "console.more (terminal_write data color s) = console.more s"
proof -
  have "kmem.truncate (terminal_write data color s) = (kmem.truncate s)\<lparr>ram := ram (terminal_write data color s)\<rparr>
    \<and> console.more (terminal_write data color s) = console.more s"
    by (induction data arbitrary: s) (simp_all add: kmem.truncate_def putchar_frame_other putchar_frame_other(1) [unfolded kmem.truncate_def, simplified])
  then show "kmem.truncate (terminal_write data color s) = (kmem.truncate s)\<lparr>ram := ram (terminal_write data color s)\<rparr>"
    "console.more (terminal_write data color s) = console.more s" by auto
qed

text \<open>C34. Writing to the console touches nothing else: outside the 4000 bytes of the visible screen
  every byte of memory is kept, so are the buffer address, the allocator and paging registers and
  whatever state extends the console's.\<close>

theorem terminal_write_frame:
  assumes "terminal_inv s"
  shows "(\<forall>a. \<not> in_range (terminal_buffer s) 4000 a \<longrightarrow> ram (terminal_write data color s) a = ram s a)
    \<and> terminal_buffer (terminal_write data color s) = terminal_buffer s
    \<and> kmem.truncate (terminal_write data color s) = (kmem.truncate s)\<lparr>ram := ram (terminal_write data color s)\<rparr>
    \<and> console.more (terminal_write data color s) = console.more s"
  using assms by (simp add: terminal_write_outside terminal_write_buffer terminal_write_rest)

theorem terminal_write_frame_witness:
  "ram (terminal_write [72, 10] 7 (console0 24 0)) 0xC00B7FFF = 0"
  using terminal_write_frame [of "console0 24 0" "[72, 10]" 7]
  by (simp add: console0_def terminal_inv_def VGA_HEIGHT_def VGA_WIDTH_def in_range_def phys2virt_def KERNEL_HIGH_def)

lemma screen_put_text:
  assumes "10 \<notin> set data" "13 \<notin> set data" "p + length data < 2000" "length cs = 2080"
  shows "fold (\<lambda>c. screen_put c color) data (cs, p) =
    (take p cs @ map (\<lambda>c. vga_entry c color) data @ drop (p + length data) cs, p + length data)"
  using assms
proof (induction data arbitrary: cs p)
  case (Cons c data)
  have "screen_put c color (cs, p) = (cs[p := vga_entry c color], Suc p)"
    using Cons.prems by (auto simp: screen_put_def scroll_def)
  moreover have "take (Suc p) (cs[p := v]) = take p cs @ [v]" for v
    using Cons.prems by (simp add: take_Suc_conv_app_nth take_update_cancel)
  ultimately show ?case using Cons by simp
qed simp

text \<open>\<open>terminal_initialize\<close> leaves a blank screen with the cursor at the top left corner.\<close>

lemma clear_cell_eq:
  "clear_cell color y x s =
     s\<lparr>ram := store16 (ram s) (terminal_buffer s + of_nat (2 * (80 * y + x))) (vga_entry 32 color)\<rparr>"
proof -
  have "2 * (of_nat y * VGA_WIDTH + of_nat x) = (of_nat (2 * (80 * y + x)) :: u32)"
    by (simp add: VGA_WIDTH_def)
  then show ?thesis by (simp only: clear_cell_def Let_def)
qed

definition cleared :: "u8 \<Rightarrow> nat \<Rightarrow> nat \<Rightarrow> 'a console_scheme \<Rightarrow> 'a console_scheme \<Rightarrow> bool" where
  "cleared color a b s t \<longleftrightarrow> terminal_buffer t = terminal_buffer s \<and> terminal_row t = terminal_row s
     \<and> terminal_column t = terminal_column s
     \<and> (\<forall>i<2080. cell (ram t) (terminal_buffer s) i =
          (if a \<le> i \<and> i < b then vga_entry 32 color else cell (ram s) (terminal_buffer s) i))"

lemma cleared_empty: "b \<le> a \<Longrightarrow> cleared color a b s s"
  by (auto simp: cleared_def)

lemma cleared_trans: "cleared color a b s t \<Longrightarrow> cleared color b c t u \<Longrightarrow> a \<le> b \<Longrightarrow> b \<le> c \<Longrightarrow> cleared color a c s u"
  by (auto simp: cleared_def)

lemma clear_cell_cleared:
  assumes "80 * y + x < 2080"
  shows "cleared color (80 * y + x) (Suc (80 * y + x)) s (clear_cell color y x s)"
proof -
  have "i < 2080 \<Longrightarrow> cell (store16 (ram s) (terminal_buffer s + of_nat (2 * (80 * y + x))) (vga_entry 32 color))
      (terminal_buffer s) i = (if i = 80 * y + x then vga_entry 32 color else cell (ram s) (terminal_buffer s) i)" for i
    using assms by (intro cell_store16) auto
  then show ?thesis by (auto simp only: cleared_def clear_cell_eq kmem.simps console.simps) auto
qed

lemma clear_row: "y < 25 \<Longrightarrow> n \<le> 80 \<Longrightarrow> cleared color (80 * y) (80 * y + n) s (fold (clear_cell color y) [0..<n] s)"
proof (induction n)
  case (Suc n)
  then have "80 * y + n < 2080" by simp
  from cleared_trans [OF Suc.IH clear_cell_cleared [OF this]] Suc.prems show ?case by simp
qed (simp add: cleared_empty)

lemma clear_rows:
  "n \<le> 25 \<Longrightarrow> cleared color 0 (80 * n) s (fold (\<lambda>y. fold (clear_cell color y) [0..<80]) [0..<n] s)"
proof (induction n)
  case (Suc n)
  then show ?case
    using cleared_trans [OF Suc.IH clear_row [of n 80 color]] by (simp add: add.commute)
qed (simp add: cleared_empty)

lemma terminal_clear_cells:
  "terminal_inv (terminal_clear color s) = terminal_inv s"
  "terminal_buffer (terminal_clear color s) = terminal_buffer s"
  "screen_of (terminal_clear color s) = (replicate 2000 (vga_entry 32 color) @ drop 2000 (fst (screen_of s)), cursor s)"
  using clear_rows [of 25 color s]
  by (auto simp: terminal_clear_def cleared_def VGA_WIDTH_def VGA_HEIGHT_def terminal_inv_def screen_of_def cursor_def
      nth_append intro!: nth_equalityI)

lemma screen_cong:
  assumes "terminal_row t = terminal_row s" "terminal_column t = terminal_column s" "terminal_buffer t = terminal_buffer s"
    and "\<And>k. k < 4160 \<Longrightarrow> ram t (terminal_buffer s + of_nat k) = ram s (terminal_buffer s + of_nat k)"
  shows "screen_of t = screen_of s"
proof -
  have "cell (ram t) (terminal_buffer s) i = cell (ram s) (terminal_buffer s) i" if "i < 2080" for i
    using assms(4) [of "2 * i"] assms(4) [of "2 * i + 1"] that
    by (simp add: cell_def load16_def add.assoc [symmetric] del: of_nat_mult) (simp add: add_ac)
  then show ?thesis using assms(1-3) by (simp add: screen_of_def cursor_def)
qed

lemma terminal_clear_outside:
  assumes "\<not> in_range (terminal_buffer s) 4000 a"
  shows "ram (terminal_clear color s) a = ram s a"
proof -
  define same where "same t \<longleftrightarrow> ram t a = ram s a \<and> terminal_buffer t = terminal_buffer s" for t :: "'a console_scheme"
  have cell: "same (clear_cell color y x t)" if "same t" "y < 25" "x < 80" for t x y
  proof -
    have "unat (of_nat (2 * (80 * y + x)) :: u32) = 2 * (80 * y + x)" using that by (intro of_nat_less_u32) simp
    then have "\<not> in_range (terminal_buffer s + of_nat (2 * (80 * y + x))) 2 a"
      using in_range_sub [of "terminal_buffer s" "of_nat (2 * (80 * y + x))" 2 a 4000] assms that by auto
    then show ?thesis using that(1) by (simp only: same_def clear_cell_eq) (simp add: store16_frame)
  qed
  have row: "same (fold (clear_cell color y) [0..<n] t)" if "same t" "y < 25" "n \<le> 80" for t y n
    using that(3) by (induction n) (simp_all add: that cell)
  have "same (fold (\<lambda>y. fold (clear_cell color y) [0..<80]) [0..<n] s)" if "n \<le> 25" for n
    using that
  proof (induction n)
    case (Suc n)
    then show ?case using row [of _ n 80] by simp
  qed (simp add: same_def)
  then show ?thesis by (simp add: terminal_clear_def VGA_WIDTH_def VGA_HEIGHT_def same_def)
qed

lemma terminal_initialize_eq:
  assumes "bus_inv bus" "callbacks_count bus < CALLBACKS_MAX_COUNT"
  obtains bus' where "terminal_initialize hk bus s =
      Inr (bus', terminal_clear 7 (s\<lparr>terminal_row := 0, terminal_column := 0, terminal_buffer := phys2virt 0xB8000\<rparr>))"
    "active bus' = active bus @ [\<lparr>cb_event_type = EVENT_KEY_PRESS, callback = hk, arg = NULL\<rparr>]" "bus_inv bus'"
proof -
  obtain bus' where r: "register_event_callback EVENT_KEY_PRESS hk NULL bus = Inr (0, bus')"
    using assms(2) unfolding register_event_callback_def Let_def by (metis linorder_not_le)
  have "vga_entry_color VGA_COLOR_LIGHT_GREY VGA_COLOR_BLACK = 7" by (simp add: vga_entry_color_def)
  with r have "terminal_initialize hk bus s =
      Inr (bus', terminal_clear 7 (s\<lparr>terminal_row := 0, terminal_column := 0, terminal_buffer := phys2virt 0xB8000\<rparr>))"
    by (simp add: terminal_initialize_def Let_def)
  with register_inv [OF assms(1) r] that show ?thesis by blast
qed

text \<open>After \<open>terminal_initialize\<close> the keypress handler is the last active callback of the event
  bus, and a text without line breaks that fits the screen then stands at its start, in order, in
  the colour it was written with, on an otherwise blank light-grey-on-black screen.\<close>

lemma terminal_shows_text:
  assumes "bus_inv bus" "callbacks_count bus < CALLBACKS_MAX_COUNT"
    and "10 \<notin> set data" "13 \<notin> set data" "length data < 2000"
  shows "\<exists>bus' t. terminal_initialize hk bus s = Inr (bus', t)
    \<and> active bus' = active bus @ [\<lparr>cb_event_type = EVENT_KEY_PRESS, callback = hk, arg = NULL\<rparr>]
    \<and> take 2000 (fst (screen_of (terminal_write data color t)))
        = map (\<lambda>c. vga_entry c color) data @ replicate (2000 - length data) 0x0720"
proof -
  let ?b = "s\<lparr>terminal_row := 0, terminal_column := 0, terminal_buffer := phys2virt 0xB8000\<rparr>"
  let ?t = "terminal_clear 7 ?b"
  obtain bus' where init: "terminal_initialize hk bus s = Inr (bus', ?t)"
    "active bus' = active bus @ [\<lparr>cb_event_type = EVENT_KEY_PRESS, callback = hk, arg = NULL\<rparr>]"
    by (rule terminal_initialize_eq [OF assms(1,2)])
  have inv: "terminal_inv ?t" unfolding terminal_clear_cells by (simp add: terminal_inv_def VGA_HEIGHT_def VGA_WIDTH_def)
  have "vga_entry 32 7 = 0x0720" by (simp add: vga_entry_def)
  then have "screen_of ?t = (replicate 2000 0x0720 @ drop 2000 (fst (screen_of ?b)), 0)"
    by (simp add: terminal_clear_cells cursor_def)
  moreover have "length (fst (screen_of ?b)) = 2080" by (simp add: screen_of_def)
  ultimately have "take 2000 (fst (screen_of (terminal_write data color ?t)))
        = map (\<lambda>c. vga_entry c color) data @ replicate (2000 - length data) 0x0720"
    using assms(3,4,5) by (simp add: terminal_write_screen [OF inv] screen_put_text)
  with init show ?thesis by blast
qed

lemma callbacks_count_empty: "callbacks_count empty_bus = 0"
  by (simp add: empty_bus_def)

end
