(* ===== verification/Printk.thy ===== *)
theory Printk
  imports Vga
begin

text \<open>
  Formatted output: \<^verbatim>\<open>src/printk.c\<close>.

  The conversion routines fill the 11-byte buffer of \<open>vprintk\<close> through a pointer into it, here an
  offset; a store past the end of the buffer is \<open>Out_Of_Bounds\<close>. The variadic arguments are a list
  whose elements are machine words or C strings; taking an argument that is missing or of the
  other kind is \<open>Bad_Arg\<close>. The specification \<open>format\<close> says which characters a format string and
  its arguments stand for; the refinement theorem says that \<open>vprintk\<close> writes exactly these to the
  console, so in particular no conversion can overflow the buffer.
\<close>

section \<open>Bytes of character literals\<close>

definition bytes :: "string \<Rightarrow> u8 list" where
  "bytes str = map of_char str"

section \<open>Conversions\<close>

definition PRINTK_BUF_SIZE :: nat where "PRINTK_BUF_SIZE = 11"

definition digits :: "u8 list" where
  "digits = bytes ''0123456789abcdef''"

definition bput :: "nat \<Rightarrow> u8 \<Rightarrow> u8 list \<Rightarrow> u8 list result" where
  "bput i c buf = (if i < length buf then Inr (buf[i := c]) else Inl Out_Of_Bounds)"

function bprintu32_loop :: "nat \<Rightarrow> nat \<Rightarrow> u32 \<Rightarrow> u32 \<Rightarrow> u8 list \<Rightarrow> (nat \<times> u8 list) result" where
  "bprintu32_loop off n a base buf =
     (if a > 0 then
        if base = 0 then Inl Div_By_Zero
        else if unat (a mod base) < length digits \<and> off + n < length buf then
          bprintu32_loop off (Suc n) (a div base) base (buf[off + n := digits ! unat (a mod base)])
        else Inl Out_Of_Bounds
      else Inr (n, buf))"
  by pat_completeness auto
termination
  by (relation "measure (\<lambda>(off, n, a, base, buf). length buf - (off + n))") auto

definition xor_swap :: "nat \<Rightarrow> nat \<Rightarrow> u8 list \<Rightarrow> u8 list" where
  "xor_swap i j buf =
     (let buf = buf[i := buf ! i XOR buf ! j];
          buf = buf[j := buf ! j XOR buf ! i]
      in buf[i := buf ! i XOR buf ! j])"

definition bprintu32 :: "nat \<Rightarrow> u32 \<Rightarrow> u32 \<Rightarrow> u8 list \<Rightarrow> (nat \<times> u8 list) result" where
  "bprintu32 off a base buf =
     (if a = 0 then
        case bput off (of_char CHR ''0'') buf of Inl e \<Rightarrow> Inl e | Inr buf \<Rightarrow> Inr (1, buf)
      else case bprintu32_loop off 0 a base buf of Inl e \<Rightarrow> Inl e
        | Inr (n, buf) \<Rightarrow>
            Inr (n, fold (\<lambda>i. xor_swap (off + i) (off + (n - i - 1))) [0..<n div 2] buf))"

definition bprints32 :: "nat \<Rightarrow> u32 \<Rightarrow> u32 \<Rightarrow> u8 list \<Rightarrow> (nat \<times> u8 list) result" where
  "bprints32 off a base buf =
     (if a <s 0 then
        case bput off (of_char CHR ''-'') buf of Inl e \<Rightarrow> Inl e
        | Inr buf \<Rightarrow> (case bprintu32 (off + 1) (- a) base buf of Inl e \<Rightarrow> Inl e
           | Inr (n, buf) \<Rightarrow> Inr (1 + n, buf))
      else bprintu32 off a base buf)"

fun bprintstr_loop :: "nat \<Rightarrow> u8 list \<Rightarrow> nat \<Rightarrow> u8 list \<Rightarrow> (nat \<times> u8 list) result" where
  "bprintstr_loop off [] len buf = Inr (len, buf)"
| "bprintstr_loop off (c # cur) len buf =
     (case bput (off + len) c buf of Inl e \<Rightarrow> Inl e | Inr buf \<Rightarrow> bprintstr_loop off cur (Suc len) buf)"

definition bprintstr :: "nat \<Rightarrow> u8 list \<Rightarrow> u8 list \<Rightarrow> (nat \<times> u8 list) result" where
  "bprintstr off str buf = bprintstr_loop off (c_string str) 0 buf"

definition bprintptr :: "nat \<Rightarrow> u32 \<Rightarrow> u8 list \<Rightarrow> (nat \<times> u8 list) result" where
  "bprintptr off ptr buf =
     (if ptr = NULL then bprintstr off (bytes ''(nil)'') buf
      else case bprintstr off (bytes ''0x'') buf of Inl e \<Rightarrow> Inl e
        | Inr (n, buf) \<Rightarrow> (case bprintu32 (off + n) ptr 16 buf of Inl e \<Rightarrow> Inl e
            | Inr (k, buf) \<Rightarrow> Inr (n + k, buf)))"

section \<open>vprintk\<close>

datatype va = VWord u32 | VStr "u8 list"

definition va_word :: "va list \<Rightarrow> (u32 \<times> va list) result" where
  "va_word args = (case args of VWord w # args \<Rightarrow> Inr (w, args) | _ \<Rightarrow> Inl Bad_Arg)"

definition va_str :: "va list \<Rightarrow> (u8 list \<times> va list) result" where
  "va_str args = (case args of VStr str # args \<Rightarrow> Inr (str, args) | _ \<Rightarrow> Inl Bad_Arg)"

text \<open>The conversion of one directive: the size written to the buffer, and the console, which only
  \<^verbatim>\<open>%s\<close> changes. \<open>conv_word\<close> takes a word argument and prints it with a buffer routine.\<close>

definition conv_word ::
  "(u32 \<Rightarrow> u8 list \<Rightarrow> (nat \<times> u8 list) result) \<Rightarrow> va list \<Rightarrow> u8 list \<Rightarrow> 'c \<Rightarrow> (nat \<times> va list \<times> u8 list \<times> 'c) result" where
  "conv_word print args buf s =
     (case va_word args of Inl e \<Rightarrow> Inl e
      | Inr (w, args) \<Rightarrow> (case print w buf of Inl e \<Rightarrow> Inl e | Inr (n, buf) \<Rightarrow> Inr (n, args, buf, s)))"

definition directive ::
  "u8 \<Rightarrow> u16 \<Rightarrow> va list \<Rightarrow> u8 list \<Rightarrow> 'a console_scheme \<Rightarrow> (nat \<times> va list \<times> u8 list \<times> 'a console_scheme) result" where
  "directive c color args buf s =
     (if c = of_char CHR ''u'' then conv_word (\<lambda>w. bprintu32 0 w 10) args buf s
      else if c = of_char CHR ''x'' then conv_word (\<lambda>w. bprintu32 0 w 16) args buf s
      else if c = of_char CHR ''d'' then conv_word (\<lambda>w. bprints32 0 w 10) args buf s
      else if c = of_char CHR ''p'' then conv_word (\<lambda>w. bprintptr 0 w) args buf s
      else if c = of_char CHR ''s'' then
        (case va_str args of Inl e \<Rightarrow> Inl e
         | Inr (str, args) \<Rightarrow> Inr (0, args, buf, terminal_writestring_color str (ucast color) s))
      else Inr (0, args, buf, s))"

fun vprintk_loop ::
  "u16 \<Rightarrow> bool \<Rightarrow> u8 list \<Rightarrow> va list \<Rightarrow> u8 list \<Rightarrow> 'a console_scheme \<Rightarrow> 'a console_scheme result" where
  "vprintk_loop color idle [] args buf s = Inr s"
| "vprintk_loop color idle (c # cur) args buf s =
     (if idle then
        if c \<noteq> of_char CHR ''%'' then vprintk_loop color True cur args buf (terminal_write [c] (ucast color) s)
        else vprintk_loop color False cur args buf s
      else case directive c color args buf s of Inl e \<Rightarrow> Inl e
        | Inr (n, args, buf, s) \<Rightarrow>
            vprintk_loop color True cur args buf
              (if n \<noteq> 0 then terminal_write (take n buf) (ucast color) s else s))"

definition vprintk :: "u8 list \<Rightarrow> va list \<Rightarrow> 'a console_scheme \<Rightarrow> 'a console_scheme result" where
  "vprintk fmt args s =
     (let color = vga_entry (color_value VGA_COLOR_LIGHT_GREY) (color_value VGA_COLOR_BLACK)
      in vprintk_loop color True (c_string fmt) args (replicate PRINTK_BUF_SIZE 0) s)"

definition printk :: "string \<Rightarrow> va list \<Rightarrow> 'a console_scheme \<Rightarrow> 'a console_scheme result" where
  "printk fmt args s = vprintk (bytes fmt) args s"

declare bprintu32_loop.simps [simp del]

section \<open>What the conversions print\<close>

definition digit :: "nat \<Rightarrow> u8" where
  "digit d = digits ! d"

function num :: "nat \<Rightarrow> nat \<Rightarrow> u8 list" where
  "num b n = (if n < b \<or> b < 2 then [digit (n mod b)] else num b (n div b) @ [digit (n mod b)])"
  by pat_completeness auto
termination by (relation "measure (\<lambda>(b, n). n)") (auto simp: div_less_dividend)

declare num.simps [simp del]

text \<open>The loop of \<open>bprintu32\<close> produces the digits in reverse.\<close>

definition rnum :: "nat \<Rightarrow> nat \<Rightarrow> u8 list" where
  "rnum b n = (if n = 0 then [] else rev (num b n))"

lemma rnum_step: "2 \<le> b \<Longrightarrow> n \<noteq> 0 \<Longrightarrow> rnum b n = digit (n mod b) # rnum b (n div b)"
  by (auto simp: rnum_def num.simps [of b n] div_eq_0_iff)

lemma length_digits [simp]: "length digits = 16"
  by (simp add: digits_def bytes_def)

lemma bprintu32_loop_eq:
  assumes "2 \<le> base" "base \<le> 16" "off + n + length (rnum (unat base) (unat a)) \<le> length buf"
  shows "bprintu32_loop off n a base buf =
    Inr (n + length (rnum (unat base) (unat a)),
      take (off + n) buf @ rnum (unat base) (unat a) @ drop (off + n + length (rnum (unat base) (unat a))) buf)"
  using assms
proof (induction off n a base buf rule: bprintu32_loop.induct)
  case (1 off n a base buf)
  have b: "2 \<le> unat base" "unat base \<le> 16"
    using "1.prems"(1,2) by (simp_all add: word_le_nat_alt)
  show ?case
  proof (cases "a > 0")
    case False
    then have "a = 0" by (simp add: word_gt_0)
    then show ?thesis by (subst bprintu32_loop.simps) (simp add: rnum_def)
  next
    case True
    let ?d = "digit (unat a mod unat base)"
    let ?r = "rnum (unat base) (unat a div unat base)"
    have nz: "unat a \<noteq> 0" "base \<noteq> 0" using True b by (auto simp: word_gt_0 unat_eq_0)
    have r: "rnum (unat base) (unat a) = ?d # ?r" using rnum_step [OF b(1) nz(1)] .
    have u: "unat (a mod base) = unat a mod unat base" "unat (a div base) = unat a div unat base"
      by (simp_all add: unat_mod unat_div)
    have ok: "unat (a mod base) < length digits \<and> off + n < length buf"
    proof -
      have "unat a mod unat base < 16" using b mod_less_divisor [of "unat base" "unat a"] by linarith
      then show ?thesis using "1.prems"(3) b by (simp add: r u)
    qed
    have "bprintu32_loop off n a base buf = bprintu32_loop off (Suc n) (a div base) base (buf[off + n := ?d])"
      using True nz ok by (subst bprintu32_loop.simps) (simp add: u digit_def)
    also have "\<dots> = Inr (Suc n + length ?r, take (Suc (off + n)) (buf[off + n := ?d]) @ ?r @ drop (Suc (off + n) + length ?r) buf)"
      using "1.IH" [OF True nz(2) ok] "1.prems" r by (simp add: u digit_def)
    also have "take (Suc (off + n)) (buf[off + n := ?d]) = take (off + n) buf @ [?d]"
      using ok by (simp add: take_Suc_conv_app_nth take_update_cancel)
    finally show ?thesis by (simp add: r)
  qed
qed

text \<open>Three exclusive-ors swap two different bytes, and swapping from both ends reverses.\<close>

lemma xor_swap_eq:
  assumes "i \<noteq> j" "i < length buf" "j < length buf"
  shows "xor_swap i j buf = buf[i := buf ! j, j := buf ! i]"
proof -
  have "(x XOR y) XOR (y XOR (x XOR y)) = y" "y XOR (x XOR y) = x" for x y :: u8
    by (rule bit_word_eqI, auto simp: bit_xor_iff)+
  then show ?thesis using assms by (simp add: xor_swap_def Let_def list_update_swap [of i j])
qed

lemma swap_loop:
  assumes "off + n \<le> length buf" "k \<le> n div 2"
  defines "res \<equiv> fold (\<lambda>i. xor_swap (off + i) (off + (n - i - 1))) [0..<k] buf"
  shows "length res = length buf"
    and "\<And>j. j < length buf \<Longrightarrow> res ! j =
      (if off \<le> j \<and> j < off + k \<or> off + n - k \<le> j \<and> j < off + n then buf ! (2 * off + n - 1 - j) else buf ! j)"
proof -
  have "length res = length buf \<and> (\<forall>j < length buf. res ! j =
      (if off \<le> j \<and> j < off + k \<or> off + n - k \<le> j \<and> j < off + n then buf ! (2 * off + n - 1 - j) else buf ! j))"
    using assms(2) unfolding res_def
  proof (induction k)
    case (Suc k)
    define r where "r = fold (\<lambda>i. xor_swap (off + i) (off + (n - i - 1))) [0..<k] buf"
    have IH: "length r = length buf" "\<And>j. j < length buf \<Longrightarrow> r ! j =
      (if off \<le> j \<and> j < off + k \<or> off + n - k \<le> j \<and> j < off + n then buf ! (2 * off + n - 1 - j) else buf ! j)"
      using Suc by (simp_all add: r_def)
    let ?a = "off + k" and ?b = "off + (n - k - 1)"
    have k: "2 * Suc k \<le> n" using Suc.prems by simp
    then have ab: "?a \<noteq> ?b" "?a < length r" "?b < length r" using assms(1) IH(1) by auto
    have vals: "r ! ?a = buf ! ?a" "r ! ?b = buf ! ?b" using IH(2) [of ?a] IH(2) [of ?b] ab k IH(1) by auto
    have step: "fold (\<lambda>i. xor_swap (off + i) (off + (n - i - 1))) [0..<Suc k] buf = r[?a := buf ! ?b, ?b := buf ! ?a]"
      using xor_swap_eq [OF ab] vals by (simp add: r_def)
    have mirror: "2 * off + n - 1 - ?a = ?b" "2 * off + n - 1 - ?b = ?a" using k by auto
    show ?case unfolding step
    proof (intro conjI allI impI)
      fix j assume j: "j < length buf"
      consider "j = ?a" | "j = ?b" | "j \<noteq> ?a" "j \<noteq> ?b" by blast
      then show "r[?a := buf ! ?b, ?b := buf ! ?a] ! j =
        (if off \<le> j \<and> j < off + Suc k \<or> off + n - Suc k \<le> j \<and> j < off + n then buf ! (2 * off + n - 1 - j) else buf ! j)"
      proof cases
        case 1
        with ab mirror k show ?thesis by simp
      next
        case 2
        with ab mirror k show ?thesis by (simp del: diff_diff_left) auto
      next
        case 3
        then have "(off \<le> j \<and> j < off + Suc k \<or> off + n - Suc k \<le> j \<and> j < off + n) \<longleftrightarrow>
          (off \<le> j \<and> j < off + k \<or> off + n - k \<le> j \<and> j < off + n)" using k by auto
        with 3 IH(2) [OF j] show ?thesis by simp
      qed
    qed (simp add: IH(1))
  qed auto
  then show "length res = length buf" "\<And>j. j < length buf \<Longrightarrow> res ! j =
      (if off \<le> j \<and> j < off + k \<or> off + n - k \<le> j \<and> j < off + n then buf ! (2 * off + n - 1 - j) else buf ! j)"
    by auto
qed

lemma swap_loop_rev:
  "fold (\<lambda>i. xor_swap (length xs + i) (length xs + (length ds - i - 1))) [0..<length ds div 2] (xs @ ds @ ys)
    = xs @ rev ds @ ys"
proof (rule nth_equalityI)
  note L = swap_loop [of "length xs" "length ds" "xs @ ds @ ys" "length ds div 2", simplified]
  let ?r = "fold (\<lambda>i. xor_swap (length xs + i) (length xs + (length ds - i - 1))) [0..<length ds div 2] (xs @ ds @ ys)"
  show len: "length ?r = length (xs @ rev ds @ ys)"
    using L(1) by simp
  fix j assume j: "j < length ?r"
  then have jl: "j < length xs + (length ds + length ys)" using len by simp
  show "?r ! j = (xs @ rev ds @ ys) ! j"
  proof (cases "length xs \<le> j \<and> j < length xs + length ds")
    case True
    define i where "i = j - length xs"
    have i: "i < length ds" "j = length xs + i" using True by (auto simp: i_def)
    have m: "2 * length xs + length ds - Suc j = length xs + (length ds - Suc i)" using i by simp
    have mid: "length ds - Suc i = i" if "\<not> i < length ds div 2" "\<not> length ds - length ds div 2 \<le> i"
      using that i by presburger
    show ?thesis
      using L(2) [OF jl] m mid i by (auto simp: nth_append rev_nth split: if_splits)
  next
    case False
    then show ?thesis using L(2) [OF jl] by (auto simp: nth_append split: if_splits)
  qed
qed

text \<open>A conversion prints \<open>tx\<close> at \<open>off\<close> when it overwrites exactly that part of the buffer with it.\<close>

definition prints :: "nat \<Rightarrow> u8 list \<Rightarrow> u8 list \<Rightarrow> (nat \<times> u8 list) result \<Rightarrow> bool" where
  "prints off buf tx r \<longleftrightarrow> r = Inr (length tx, take off buf @ tx @ drop (off + length tx) buf)"

lemma bput_eq: "i < length buf \<Longrightarrow> bput i c buf = Inr (take i buf @ c # drop (Suc i) buf)"
  by (simp add: bput_def upd_conv_take_nth_drop)

lemma num_nonempty [simp]: "num b n \<noteq> []"
  by (subst num.simps) simp

lemma bprintu32_prints:
  assumes "2 \<le> base" "base \<le> 16" "off + length (num (unat base) (unat a)) \<le> length buf"
  shows "prints off buf (num (unat base) (unat a)) (bprintu32 off a base buf)"
proof (cases "a = 0")
  case True
  have "2 \<le> unat base" using assms(1) by (simp add: word_le_nat_alt)
  then have "num (unat base) 0 = [of_char CHR ''0'']"
    by (subst num.simps) (simp add: digit_def digits_def bytes_def)
  with True assms(3) show ?thesis by (simp add: prints_def bprintu32_def bput_eq)
next
  case False
  let ?ds = "rnum (unat base) (unat a)"
  have r: "num (unat base) (unat a) = rev ?ds" using False by (simp add: rnum_def unat_eq_0)
  have len: "off + length ?ds \<le> length buf" using assms(3) r by simp
  have o: "length (take off buf) = off" using len by simp
  show ?thesis
    using False bprintu32_loop_eq [of base off 0 a buf] assms(1,2) len
      swap_loop_rev [of "take off buf" ?ds "drop (off + length ?ds) buf", unfolded o]
    by (simp add: prints_def bprintu32_def r)
qed

text \<open>At most ten digits in base 10 and eight in base 16.\<close>

lemma length_num: "2 \<le> b \<Longrightarrow> n < b ^ k \<Longrightarrow> 0 < k \<Longrightarrow> length (num b n) \<le> k"
proof (induction b n arbitrary: k rule: num.induct)
  case (1 b n)
  show ?case
  proof (cases "n < b")
    case True
    with "1.prems" show ?thesis by (subst num.simps) simp
  next
    case False
    then obtain j where k: "k = Suc j" "0 < j" using "1.prems" by (cases k; cases "k - 1"; auto)
    have "n div b < b ^ j" using "1.prems" k by (simp add: less_mult_imp_div_less mult.commute)
    with "1.IH" [of j] "1.prems" False k show ?thesis by (subst num.simps) simp
  qed
qed

lemma length_num10: "length (num 10 (unat (a :: u32))) \<le> 10"
  using u32_lt [of a] by (intro length_num) auto

lemma length_num16: "length (num 16 (unat (a :: u32))) \<le> 8"
  using u32_lt [of a] by (intro length_num) auto

definition snum :: "u32 \<Rightarrow> u8 list" where
  "snum a = (if sint a < 0 then of_char CHR ''-'' # num 10 (nat (- sint a)) else num 10 (nat (sint a)))"

lemma signed_neg: "(a :: u32) <s 0 \<longleftrightarrow> \<not> unat a < 2147483648"
  using u32_lt [of a] by (simp add: word_sless_alt sint_u32)

lemma snum_eq: "snum a = (if a <s 0 then of_char CHR ''-'' # num 10 (unat (- a)) else num 10 (unat a))"
proof (cases "a <s 0")
  case True
  then have "\<not> unat a < 2147483648" by (simp only: signed_neg) simp
  moreover from this have "a \<noteq> 0" by auto
  ultimately show ?thesis using u32_lt [of a] True
    by (simp add: snum_def sint_u32 unat_uminus) (simp add: nat_diff_distrib')
next
  case False
  then have "unat a < 2147483648" by (simp only: signed_neg) simp
  with False show ?thesis by (simp add: snum_def sint_u32)
qed

lemma bprints32_prints:
  assumes "off + length (snum a) \<le> length buf"
  shows "prints off buf (snum a) (bprints32 off a 10 buf)"
proof (cases "a <s 0")
  case True
  have "prints (Suc off) (take off buf @ of_char CHR ''-'' # drop (Suc off) buf) (num 10 (unat (- a)))
      (bprintu32 (Suc off) (- a) 10 (take off buf @ of_char CHR ''-'' # drop (Suc off) buf))"
    using assms True bprintu32_prints [of 10 "Suc off" "- a"] by (simp add: snum_eq)
  with True assms show ?thesis by (simp add: prints_def bprints32_def bput_eq snum_eq add.commute)
next
  case False
  then show ?thesis using bprintu32_prints [of 10 off a buf] assms
    by (simp add: bprints32_def snum_eq)
qed

lemma bprintstr_loop_eq:
  "off + len + length str \<le> length buf \<Longrightarrow>
   bprintstr_loop off str len buf = Inr (len + length str, take (off + len) buf @ str @ drop (off + len + length str) buf)"
proof (induction off str len buf rule: bprintstr_loop.induct)
  case (2 off c cur len buf)
  then show ?case by (simp add: bput_eq add.commute)
qed simp

lemma bprintstr_prints:
  "off + length (c_string str) \<le> length buf \<Longrightarrow> prints off buf (c_string str) (bprintstr off str buf)"
  using bprintstr_loop_eq [of off 0 "c_string str" buf] by (simp add: prints_def bprintstr_def)

definition pnum :: "u32 \<Rightarrow> u8 list" where
  "pnum p = (if p = NULL then bytes ''(nil)'' else bytes ''0x'' @ num 16 (unat p))"

lemma bprintptr_prints:
  assumes "off + length (pnum p) \<le> length buf"
  shows "prints off buf (pnum p) (bprintptr off p buf)"
proof (cases "p = NULL")
  case True
  have "c_string (bytes ''(nil)'') = bytes ''(nil)''" by (simp add: c_string_def bytes_def)
  with True assms show ?thesis using bprintstr_prints [of off "bytes ''(nil)''" buf]
    by (simp add: bprintptr_def pnum_def)
next
  case False
  have c: "c_string (bytes ''0x'') = bytes ''0x''" "length (bytes ''0x'') = 2"
    by (simp_all add: c_string_def bytes_def)
  with assms False have "prints off buf (bytes ''0x'') (bprintstr off (bytes ''0x'') buf)"
    using bprintstr_prints [of off "bytes ''0x''" buf] by (simp add: pnum_def)
  moreover have "prints (off + 2) (take off buf @ bytes ''0x'' @ drop (off + 2) buf) (num 16 (unat p))
      (bprintu32 (off + 2) p 16 (take off buf @ bytes ''0x'' @ drop (off + 2) buf))"
    using assms False c bprintu32_prints [of 16 "off + 2" p] by (simp add: pnum_def)
  ultimately show ?thesis using assms False c by (simp add: prints_def bprintptr_def pnum_def add.commute)
qed

section \<open>Specification\<close>

text \<open>The characters a format string and its arguments stand for. As in the code, a directive that
  is not known, \<^verbatim>\<open>%%\<close> included, prints nothing, and so does a lone \<^verbatim>\<open>%\<close> at the end.\<close>

definition spec_word :: "(u32 \<Rightarrow> u8 list) \<Rightarrow> va list \<Rightarrow> (u8 list \<times> va list) result" where
  "spec_word f args = (case args of VWord w # args \<Rightarrow> Inr (f w, args) | _ \<Rightarrow> Inl Bad_Arg)"

definition spec_directive :: "u8 \<Rightarrow> va list \<Rightarrow> (u8 list \<times> va list) result" where
  "spec_directive c args =
     (if c = of_char CHR ''u'' then spec_word (\<lambda>w. num 10 (unat w)) args
      else if c = of_char CHR ''x'' then spec_word (\<lambda>w. num 16 (unat w)) args
      else if c = of_char CHR ''d'' then spec_word snum args
      else if c = of_char CHR ''p'' then spec_word pnum args
      else if c = of_char CHR ''s'' then
        (case args of VStr str # args \<Rightarrow> Inr (c_string str, args) | _ \<Rightarrow> Inl Bad_Arg)
      else Inr ([], args))"

fun format :: "u8 list \<Rightarrow> va list \<Rightarrow> u8 list result" where
  "format [] args = Inr []"
| "format (c # cs) args =
     (if c \<noteq> of_char CHR ''%'' then
        (case format cs args of Inl e \<Rightarrow> Inl e | Inr out \<Rightarrow> Inr (c # out))
      else case cs of [] \<Rightarrow> Inr []
        | d # cs \<Rightarrow> (case spec_directive d args of Inl e \<Rightarrow> Inl e
            | Inr (tx, args) \<Rightarrow> (case format cs args of Inl e \<Rightarrow> Inl e | Inr out \<Rightarrow> Inr (tx @ out))))"

section \<open>Output as a monoid action\<close>

text \<open>What formatted output needs of the device it prints to: writing a text and then another is
  writing the two joined.\<close>

locale char_sink =
  fixes put :: "u8 list \<Rightarrow> 's \<Rightarrow> 's"
  assumes put_nil: "put [] s = s"
    and put_append: "put (xs @ ys) s = put ys (put xs s)"
begin

definition emit :: "u8 list result \<Rightarrow> 's \<Rightarrow> 's result" where
  "emit r s = (case r of Inl e \<Rightarrow> Inl e | Inr out \<Rightarrow> Inr (put out s))"

lemma emit_prefix:
  "emit (case r of Inl e \<Rightarrow> Inl e | Inr out \<Rightarrow> Inr (tx @ out)) s = emit r (put tx s)"
  by (simp add: emit_def put_append split: sum.split)

lemma put_unless_empty: "(if n \<noteq> 0 then put (take n buf) s else s) = put (take n buf) s"
  by (simp add: put_nil)

lemma put_concat: "put (concat xss) s = fold put xss s"
  by (induction xss arbitrary: s) (simp_all add: put_nil put_append)

end

interpretation tty: char_sink "\<lambda>tx s. terminal_write tx 7 s"
  by unfold_locales simp_all

lemma conv_word_prints:
  assumes "\<And>w buf. length buf = 11 \<Longrightarrow> prints 0 buf (f w) (print w buf)" "length buf = 11" "\<And>w. length (f w) \<le> 11"
  shows "case spec_word f args of Inl e \<Rightarrow> conv_word print args buf s = Inl e
    | Inr (tx, args') \<Rightarrow> \<exists>buf'. conv_word print args buf s = Inr (length tx, args', buf', s)
        \<and> length buf' = 11 \<and> take (length tx) buf' = tx"
  using assms by (auto simp: spec_word_def conv_word_def va_word_def prints_def split: list.split va.split)

lemma num_fits [simp]: "length (num 10 (unat (w :: u32))) \<le> 11" "length (num 16 (unat w)) \<le> 11"
  "length (snum w) \<le> 11" "length (pnum w) \<le> 11"
  using length_num10 [of w] length_num16 [of w] length_num10 [of "- w"]
  by (auto simp: snum_eq pnum_def bytes_def)

lemma directive_eq:
  assumes "length buf = 11"
  shows "case spec_directive c args of Inl e \<Rightarrow> directive c 7 args buf s = Inl e
    | Inr (tx, args') \<Rightarrow> \<exists>n buf' s'. directive c 7 args buf s = Inr (n, args', buf', s')
        \<and> length buf' = 11 \<and> terminal_write (take n buf') 7 s' = terminal_write tx 7 s"
proof -
  note cw = conv_word_prints [OF _ assms]
  have u: "\<And>w buf. length buf = 11 \<Longrightarrow> prints 0 buf (num 10 (unat w)) (bprintu32 0 w 10 buf)"
    using bprintu32_prints [where base = 10 and off = 0] by simp
  have x: "\<And>w buf. length buf = 11 \<Longrightarrow> prints 0 buf (num 16 (unat w)) (bprintu32 0 w 16 buf)"
    using bprintu32_prints [where base = 16 and off = 0] by simp
  have d: "\<And>w buf. length buf = 11 \<Longrightarrow> prints 0 buf (snum w) (bprints32 0 w 10 buf)"
    by (rule bprints32_prints) simp
  have p: "\<And>w buf. length buf = 11 \<Longrightarrow> prints 0 buf (pnum w) (bprintptr 0 w buf)"
    by (rule bprintptr_prints) simp
  consider "c = of_char CHR ''u''" | "c = of_char CHR ''x''" | "c = of_char CHR ''d''" | "c = of_char CHR ''p''"
    | "c = of_char CHR ''s''"
    | "c \<noteq> of_char CHR ''u''" "c \<noteq> of_char CHR ''x''" "c \<noteq> of_char CHR ''d''" "c \<noteq> of_char CHR ''p''"
      "c \<noteq> of_char CHR ''s''"
    by blast
  then show ?thesis
  proof cases
    case 1
    then show ?thesis using cw [where f = "\<lambda>w. num 10 (unat w)" and print = "\<lambda>w. bprintu32 0 w 10" and args = args and s = s, OF u num_fits(1)]
      by (auto simp: spec_directive_def directive_def split: sum.splits)
  next
    case 2
    then show ?thesis using cw [where f = "\<lambda>w. num 16 (unat w)" and print = "\<lambda>w. bprintu32 0 w 16" and args = args and s = s, OF x num_fits(2)]
      by (auto simp: spec_directive_def directive_def split: sum.splits)
  next
    case 3
    then show ?thesis using cw [where f = "snum" and print = "\<lambda>w. bprints32 0 w 10" and args = args and s = s, OF d num_fits(3)]
      by (auto simp: spec_directive_def directive_def split: sum.splits)
  next
    case 4
    then show ?thesis using cw [where f = "pnum" and print = "bprintptr 0" and args = args and s = s, OF p num_fits(4)]
      by (auto simp: spec_directive_def directive_def split: sum.splits)
  next
    case 5
    then show ?thesis using assms
      by (auto simp: spec_directive_def directive_def va_str_def terminal_writestring_color_def
          split: list.split va.split)
  next
    case 6
    then show ?thesis using assms by (simp add: spec_directive_def directive_def)
  qed
qed

lemma vprintk_loop_eq:
  "length buf = 11 \<Longrightarrow> vprintk_loop 7 True fmt args buf s = tty.emit (format fmt args) s"
proof (induction fmt args arbitrary: buf s rule: format.induct)
  case (1 args)
  then show ?case by (simp add: tty.emit_def)
next
  case (2 c cs args)
  show ?case
  proof (cases "c = of_char CHR ''%''")
    case False
    then have "vprintk_loop 7 True (c # cs) args buf s = tty.emit (format cs args) (terminal_write [c] 7 s)"
      using "2.IH"(1) [OF False "2.prems"] by simp
    also have "\<dots> = tty.emit (format (c # cs) args) s"
      using False tty.emit_prefix [where r = "format cs args" and tx = "[c]" and s = s]
      by (simp cong: sum.case_cong)
    finally show ?thesis .
  next
    case True
    show ?thesis
    proof (cases cs)
      case Nil
      with True show ?thesis by (simp add: tty.emit_def)
    next
      case (Cons d rest)
      note D = directive_eq [OF "2.prems", of d args s]
      show ?thesis
      proof (cases "spec_directive d args")
        case (Inl e)
        with D True Cons show ?thesis by (simp add: tty.emit_def)
      next
        case (Inr r)
        obtain tx args' where r: "r = (tx, args')" by (cases r)
        with D Inr obtain n buf' s' where dir: "directive d 7 args buf s = Inr (n, args', buf', s')"
          and len: "length buf' = 11" and out: "terminal_write (take n buf') 7 s' = terminal_write tx 7 s" by auto
        have "vprintk_loop 7 True (c # cs) args buf s = vprintk_loop 7 True rest args' buf' (terminal_write tx 7 s)"
          using True Cons dir out by (cases "n = 0") simp_all
        also have "\<dots> = tty.emit (format rest args') (terminal_write tx 7 s)"
          by (rule "2.IH"(2) [OF _ Cons Inr r [symmetric] len]) (use True in simp)
        also have "\<dots> = tty.emit (format (c # cs) args) s"
          using True Cons Inr r tty.emit_prefix [where r = "format rest args'" and tx = tx and s = s] by simp
        finally show ?thesis .
      qed
    qed
  qed
qed

lemma vprintk_eq: "vprintk fmt args s = tty.emit (format (c_string fmt) args) s"
proof -
  have "vga_entry (color_value VGA_COLOR_LIGHT_GREY) (color_value VGA_COLOR_BLACK) = 7"
    by (simp add: vga_entry_def)
  then show ?thesis using vprintk_loop_eq [of "replicate 11 0"]
    by (simp add: vprintk_def PRINTK_BUF_SIZE_def)
qed

section \<open>Properties of formatted output\<close>

text \<open>The value a digit string denotes, by Horner's rule.\<close>

definition digit_value :: "u8 \<Rightarrow> nat" where
  "digit_value c = (if c < 58 then unat (c - 48) else unat (c - 87))"

definition value_of :: "nat \<Rightarrow> u8 list \<Rightarrow> nat" where
  "value_of b ds = fold (\<lambda>c v. b * v + digit_value c) ds 0"

lemma digit_value_digit: "d < 16 \<Longrightarrow> digit_value (digit d) = d"
proof -
  have "\<forall>d \<in> set [0..<16]. digit_value (digit d) = d" by code_simp
  then show "d < 16 \<Longrightarrow> digit_value (digit d) = d" by simp
qed

lemma value_of_num: "2 \<le> b \<Longrightarrow> b \<le> 16 \<Longrightarrow> value_of b (num b n) = n"
proof (induction b n rule: num.induct)
  case (1 b n)
  have d: "digit_value (digit (n mod b)) = n mod b"
    using "1.prems" mod_less_divisor [of b n] by (intro digit_value_digit) linarith
  show ?case
  proof (cases "n < b")
    case True
    then show ?thesis using d by (subst num.simps) (simp add: value_of_def)
  next
    case False
    with "1.IH" "1.prems" d show ?thesis by (subst num.simps) (simp add: value_of_def)
  qed
qed

lemma spec_directive_error: "spec_directive c args = Inl e \<Longrightarrow> e = Bad_Arg"
  by (simp add: spec_directive_def spec_word_def split: if_splits list.splits va.splits)

lemma format_error: "format fmt args = Inl e \<Longrightarrow> e = Bad_Arg"
proof (induction fmt args rule: format.induct)
  case (2 c cs args)
  show ?case
  proof (cases "c = of_char CHR ''%''")
    case False
    with "2.prems" "2.IH"(1) [OF False] show ?thesis by (simp split: sum.splits)
  next
    case True
    then obtain d rest where cs: "cs = d # rest" using "2.prems" by (cases cs) simp_all
    show ?thesis
    proof (cases "spec_directive d args")
      case (Inl e')
      with True cs "2.prems" spec_directive_error [of d args e'] show ?thesis by simp
    next
      case (Inr r)
      obtain tx args' where r: "r = (tx, args')" by (cases r)
      have IH: "format rest args' = Inl e \<Longrightarrow> e = Bad_Arg"
        by (rule "2.IH"(2) [OF _ cs Inr r [symmetric]]) (use True in simp)
      show ?thesis by (rule IH) (use "2.prems" True cs Inr r in \<open>simp split: sum.splits\<close>)
    qed
  qed
qed simp

text \<open>C9. \<open>vprintk\<close> writes to the console exactly the characters its format string and arguments
  stand for, in order and in light grey; the only way it can fail is an argument that is
  missing or of the wrong kind, so no conversion overruns its 11-byte buffer.\<close>

theorem vprintk_format:
  "vprintk fmt args s = (case format (c_string fmt) args of
     Inr out \<Rightarrow> Inr (terminal_write out 7 s) | Inl e \<Rightarrow> Inl e)
   \<and> (format (c_string fmt) args = Inl Bad_Arg \<or> (\<exists>out. format (c_string fmt) args = Inr out))"
  using format_error [of "c_string fmt" args]
  by (cases "format (c_string fmt) args") (simp_all add: vprintk_eq tty.emit_def)

theorem vprintk_format_witness:
  "vprintk (bytes ''pid=%d x%x'') [VWord (- 12), VWord 255] (console0 0 0)
     = Inr (terminal_write (bytes ''pid=-12 xff'') 7 (console0 0 0))"
proof -
  have n: "num 10 12 = bytes ''12''" "num 16 255 = bytes ''ff''"
    by (simp_all add: num.simps digit_def digits_def bytes_def)
  have "format (c_string (bytes ''pid=%d x%x'')) [VWord (- 12), VWord 255] = Inr (bytes ''pid=-12 xff'')"
    using n by (simp add: bytes_def c_string_def spec_directive_def spec_word_def snum_def)
  then show ?thesis
    using vprintk_format [of "bytes ''pid=%d x%x''" "[VWord (- 12), VWord 255]" "console0 0 0"] by simp
qed

text \<open>The digits \<open>bprintu32\<close> leaves in the buffer, read back in the same base, are the number it
  was given: for every 32-bit number and every base from 2 to 16 for which the buffer has room,
  and bases 10 and 16 never need more than 10 and 8 bytes.\<close>

lemma bprintu32_roundtrip:
  assumes "2 \<le> base" "base \<le> 16" "off + length (num (unat base) (unat a)) \<le> length buf"
  shows "\<exists>n buf'. bprintu32 off a base buf = Inr (n, buf')
    \<and> value_of (unat base) (take n (drop off buf')) = unat a
    \<and> length buf' = length buf \<and> take off buf' = take off buf \<and> drop (off + n) buf' = drop (off + n) buf
    \<and> (base = 10 \<longrightarrow> n \<le> 10) \<and> (base = 16 \<longrightarrow> n \<le> 8)"
proof -
  let ?t = "num (unat base) (unat a)"
  have b: "2 \<le> unat base" "unat base \<le> 16" using assms(1,2) by (simp_all add: word_le_nat_alt)
  have "bprintu32 off a base buf = Inr (length ?t, take off buf @ ?t @ drop (off + length ?t) buf)"
    using bprintu32_prints [OF assms] by (simp add: prints_def)
  moreover have "base = 10 \<Longrightarrow> length ?t \<le> 10" "base = 16 \<Longrightarrow> length ?t \<le> 8"
    using length_num10 [of a] length_num16 [of a] by simp_all
  ultimately show ?thesis using assms(3) value_of_num [OF b] by simp
qed

end
