(* ===== verification/Layout.thy ===== *)
theory Layout
  imports Memory
begin

text \<open>
  C structures as layouts: the fields of a structure with their sizes in bytes, in order. The sizes and
  offsets that the compiler computes are functions of the layout, and a field of an object in memory is
  a load at the object's address plus the offset. The structures described this way
  (\<^verbatim>\<open>src/acpi.h\<close>, \<^verbatim>\<open>src/apic.c\<close>, \<^verbatim>\<open>src/multiboot.h\<close>, \<^verbatim>\<open>src/ext2.c\<close>) are packed, or have all fields at natural alignment.
\<close>

type_synonym layout = "(string \<times> nat) list"

definition sizeof :: "layout \<Rightarrow> nat" where
  "sizeof l = sum_list (map snd l)"

fun offset_of :: "string \<Rightarrow> layout \<Rightarrow> nat" where
  "offset_of f [] = 0"
| "offset_of f ((g, n) # l) = (if f = g then 0 else n + offset_of f l)"

definition field32 :: "mem \<Rightarrow> u32 \<Rightarrow> layout \<Rightarrow> string \<Rightarrow> u32" where
  "field32 m p l f = load32 m (p + of_nat (offset_of f l))"

definition field16 :: "mem \<Rightarrow> u32 \<Rightarrow> layout \<Rightarrow> string \<Rightarrow> u16" where
  "field16 m p l f = load16 m (p + of_nat (offset_of f l))"

end
