(* ===== verification/Acpi.thy ===== *)
theory Acpi
  imports Page_Tables Printk Layout
begin

text \<open>
  Firmware tables: \<^verbatim>\<open>src/acpi.c\<close> and \<^verbatim>\<open>src/acpi.h\<close>.

  Tables are read from the byte memory at the offsets of the packed structs. When they are read paging is
  on, and only the kernel's first 4 MiB, the page of the user program and the page that \<open>acpi_find_rsdt\<close>
  maps for the root table are mapped; the tables it lists are wherever the firmware put them. So every read through a pointer of
  the root table checks that the processor translates the address (\<open>readable\<close>, over the page walk of \<open>Page_Tables\<close>): if not, it is a
  page fault in kernel mode, and the handler panics. The lemmas characterise each search by the first match, the checksum by
  the sum of the table's bytes modulo 256, and say when the walk over the tables ends in a page fault.
\<close>

section \<open>Tables\<close>

text \<open>The packed structures of \<^verbatim>\<open>acpi.h\<close>; in \<^verbatim>\<open>struct acpi_sdt\<close> the pointers \<^verbatim>\<open>entries\<close> follow the header.\<close>

definition acpi_sdt_header :: layout where
  "acpi_sdt_header = [(''signature'', 4), (''length'', 4), (''revision'', 1), (''checksum'', 1), (''oemid'', 6),
     (''oem_tableid'', 8), (''oem_revision'', 4), (''creator_id'', 4), (''creator_revision'', 4)]"

definition acpi_rsdp :: layout where
  "acpi_rsdp = [(''signature'', 8), (''checksum'', 1), (''oemid'', 6), (''revision'', 1), (''rsdt_addr'', 4)]"

lemma acpi_layouts [simp]:
  "sizeof acpi_sdt_header = 36" "offset_of ''length'' acpi_sdt_header = 4" "offset_of ''rsdt_addr'' acpi_rsdp = 16"
  by (simp_all add: acpi_sdt_header_def acpi_rsdp_def sizeof_def)

definition SDT_HEADER_SIZE :: u32 where "SDT_HEADER_SIZE = of_nat (sizeof acpi_sdt_header)"

definition sdt_length :: "mem \<Rightarrow> u32 \<Rightarrow> u32" where
  "sdt_length m sdt = load32 m (sdt + of_nat (offset_of ''length'' acpi_sdt_header))"

definition sdt_entry :: "mem \<Rightarrow> u32 \<Rightarrow> nat \<Rightarrow> u32" where
  "sdt_entry m sdt i = load32 m (sdt + SDT_HEADER_SIZE + 4 * of_nat i)"

definition rsdt_addr :: "mem \<Rightarrow> u32 \<Rightarrow> u32" where
  "rsdt_addr m rsdp = load32 m (rsdp + of_nat (offset_of ''rsdt_addr'' acpi_rsdp))"

text \<open>A string literal as a memory of its own, at address 0.\<close>

definition literal :: "string \<Rightarrow> mem" where
  "literal str = (\<lambda>a. if unat a < length str then bytes str ! unat a else 0)"

section \<open>Searches\<close>

definition find_rsdp_in_region :: "mem \<Rightarrow> u32 \<Rightarrow> u32 \<Rightarrow> u32" where
  "find_rsdp_in_region m start len =
     (case find (\<lambda>i. memcmp (literal ''RSD PTR '') 0 m (start + of_nat i) 8 = 0) [0..<unat (len - 8)] of
        Some i \<Rightarrow> start + of_nat i | None \<Rightarrow> NULL)"

definition acpi_find_rsdt :: "'a kmem_scheme \<Rightarrow> (u32 \<times> 'a kmem_scheme) result option" where
  "acpi_find_rsdt s =
     (let ebda_addr = phys2virt (push_bit 4 (ucast (load16 (ram s) (phys2virt 0x40e))));
          rsdp = find_rsdp_in_region (ram s) ebda_addr 1024;
          rsdp = (if rsdp = NULL then find_rsdp_in_region (ram s) (phys2virt 0xe0000) (0xfffff - 0xe0000)
                  else rsdp)
      in if rsdp = NULL then Some (Inr (NULL, s))
         else let rsdt = rsdt_addr (ram s) rsdp
              in bindk (identity_map rsdt PAGE_SIZE s) (\<lambda>s. Some (Inr (rsdt, s))))"

text \<open>Reading \<open>n\<close> bytes at \<open>a\<close> without a page fault, and what a page fault in kernel mode comes to
  (\<^verbatim>\<open>pagefault_irq\<close> of \<^verbatim>\<open>paging.c\<close>).\<close>

definition readable :: "'a kmem_scheme \<Rightarrow> u32 \<Rightarrow> nat \<Rightarrow> bool" where
  "readable s a n \<longleftrightarrow> (\<forall>k<n. translate (ram s) (kernel_pgdir s) (a + of_nat k) \<noteq> None)"

definition kernel_page_fault :: fault where
  "kernel_page_fault = Panic ''pagefault in kernel space''"

text \<open>How many bytes \<open>memcmp\<close> reads of a table: up to and including the first that differs.\<close>

definition compared :: "string \<Rightarrow> mem \<Rightarrow> u32 \<Rightarrow> nat" where
  "compared signature m a =
     min 4 (Suc (length (takeWhile (\<lambda>k. m (a + of_nat k) = literal signature (of_nat k)) [0..<4])))"

fun find_entry :: "'a kmem_scheme \<Rightarrow> u32 \<Rightarrow> string \<Rightarrow> nat list \<Rightarrow> nat option result" where
  "find_entry s root signature [] = Inr None"
| "find_entry s root signature (i # is) =
     (if \<not> readable s (root + SDT_HEADER_SIZE + 4 * of_nat i) 4 then Inl kernel_page_fault
      else
        let entry = sdt_entry (ram s) root i
        in if \<not> readable s entry (compared signature (ram s) entry) then Inl kernel_page_fault
           else if memcmp (literal signature) 0 (ram s) entry 4 = 0 then Inr (Some i)
           else find_entry s root signature is)"

definition acpi_find_sdt :: "u32 \<Rightarrow> string \<Rightarrow> 'a kmem_scheme \<Rightarrow> (u32 \<times> 'a kmem_scheme) result option" where
  "acpi_find_sdt root signature s =
     (if \<not> readable s (root + of_nat (offset_of ''length'' acpi_sdt_header)) 4 then Some (Inl kernel_page_fault)
      else
        let sz = (sdt_length (ram s) root - SDT_HEADER_SIZE) div 4
        in case find_entry s root signature [0..<unat sz] of
             Inl e \<Rightarrow> Some (Inl e)
           | Inr (Some i) \<Rightarrow> bindk (identity_map (sdt_entry (ram s) root i) (2 * PAGE_SIZE) s)
               (\<lambda>t. Some (Inr (sdt_entry (ram s) root i, t)))
           | Inr None \<Rightarrow> Some (Inr (NULL, s)))"

section \<open>Checksums\<close>

text \<open>The loop reads the length and then that many bytes from the start of the table on.\<close>

definition acpi_validate_sdt :: "'a kmem_scheme \<Rightarrow> u32 \<Rightarrow> bool result" where
  "acpi_validate_sdt s sdt =
     (if \<not> readable s (sdt + of_nat (offset_of ''length'' acpi_sdt_header)) 4
        \<or> \<not> readable s sdt (unat (sdt_length (ram s) sdt)) then Inl kernel_page_fault
      else Inr (fold (\<lambda>i sum. sum + ram s (sdt + of_nat i)) [0..<unat (sdt_length (ram s) sdt)] (0 :: u8) = 0))"

fun validate_entries :: "'a kmem_scheme \<Rightarrow> u32 \<Rightarrow> nat list \<Rightarrow> unit result" where
  "validate_entries s root [] = Inr ()"
| "validate_entries s root (i # is) =
     (if \<not> readable s (root + SDT_HEADER_SIZE + 4 * of_nat i) 4 then Inl kernel_page_fault
      else
        case acpi_validate_sdt s (sdt_entry (ram s) root i) of Inl e \<Rightarrow> Inl e
        | Inr ok \<Rightarrow> if \<not> ok then Inl (Panic ''SDT table #%d corrupted'') else validate_entries s root is)"

definition acpi_validate_rsdt :: "u32 \<Rightarrow> 'a kmem_scheme \<Rightarrow> unit result" where
  "acpi_validate_rsdt root s =
     (if \<not> readable s (root + of_nat (offset_of ''length'' acpi_sdt_header)) 4 then Inl kernel_page_fault
      else
        let sz = (sdt_length (ram s) root - SDT_HEADER_SIZE) div 4
        in validate_entries s root [0..<unat sz])"

section \<open>Signatures\<close>

text \<open>Four or eight bytes of memory against a literal of that length.\<close>

definition holds_at :: "string \<Rightarrow> mem \<Rightarrow> u32 \<Rightarrow> bool" where
  "holds_at str m a \<longleftrightarrow> (\<forall>k < length str. m (a + of_nat k) = of_char (str ! k))"

lemma memcmp_literal:
  assumes "length str < 4294967296"
  shows "memcmp (literal str) 0 m a (of_nat (length str)) = 0 \<longleftrightarrow> holds_at str m a"
proof -
  have "(\<forall>k < of_nat (length str). literal str (0 + k) = m (a + k)) \<longleftrightarrow>
      (\<forall>k < length str. literal str (of_nat k) = m (a + of_nat k))"
  proof (intro iffI allI impI)
    fix k assume *: "\<forall>k < of_nat (length str). literal str (0 + k) = m (a + k)" "k < length str"
    then have "(of_nat k :: u32) < of_nat (length str)"
      using assms by (simp add: word_less_nat_alt of_nat_less_u32)
    with *(1) show "literal str (of_nat k) = m (a + of_nat k)" by simp
  next
    fix k :: u32 assume *: "\<forall>k < length str. literal str (of_nat k) = m (a + of_nat k)" "k < of_nat (length str)"
    then have "unat k < length str" using assms by (simp add: word_less_nat_alt of_nat_less_u32)
    with *(1) [rule_format, of "unat k"] show "literal str (0 + k) = m (a + k)" by simp
  qed
  also have "\<dots> \<longleftrightarrow> holds_at str m a"
    using assms by (auto simp: holds_at_def literal_def bytes_def of_nat_less_u32)
  finally show ?thesis by (simp add: memcmp_zero_iff)
qed

lemma rsdp_literal: "memcmp (literal ''RSD PTR '') 0 m a 8 = 0 \<longleftrightarrow> holds_at ''RSD PTR '' m a"
  using memcmp_literal [of "''RSD PTR ''"] by simp

lemma signature_literal: "length sig = 4 \<Longrightarrow> memcmp (literal sig) 0 m a 4 = 0 \<longleftrightarrow> holds_at sig m a"
  using memcmp_literal [of sig] by simp

section \<open>Properties of the searches\<close>

text \<open>The pages of a mapping request are always counted down to zero, whatever the page tables
  hold, so the search functions return.\<close>

lemma map_loop_returns: "page_aligned sz \<Longrightarrow> map_loop pgdir addr sz phys flags s \<noteq> None"
proof (induction "unat sz" arbitrary: addr sz phys s rule: less_induct)
  case less
  show ?case
  proof (cases "sz > 0")
    case True
    have d: "4096 dvd unat sz" "0 < unat sz" using less.prems True by (simp_all add: page_aligned_dvd word_gt_0_unat)
    then have "4096 \<le> unat sz" by (simp add: dvd_imp_le)
    then have le: "PAGE_SIZE \<le> sz" by (simp add: PAGE_SIZE_def word_le_nat_alt)
    have "unat (sz - PAGE_SIZE) < unat sz" unfolding unat_sub [OF le] using d by (simp add: PAGE_SIZE_def)
    moreover have "page_aligned (sz - PAGE_SIZE)" using less.prems by (simp add: page_aligned_diff)
    ultimately show ?thesis using less.hyps [of "sz - PAGE_SIZE"]
      by (subst map_loop.simps) (simp add: Let_def)
  next
    case False
    then show ?thesis by (subst map_loop.simps) simp
  qed
qed

lemma identity_map_returns: "identity_map a sz s \<noteq> None"
  by (simp add: identity_map_def map_continous_def map_loop_returns)

text \<open>\<open>find_rsdp_in_region\<close> returns the first address of the region where the eight bytes of the
  signature stand, or \<^verbatim>\<open>NULL\<close>; it looks at the first \<open>len - 8\<close> addresses only, so a signature in
  the very last eight bytes of the region is not seen.\<close>

lemma find_rsdp_first:
  assumes "8 \<le> unat len" "unat start + unat len \<le> 4294967296" "start \<noteq> 0"
  shows "(case find_rsdp_in_region m start len of r \<Rightarrow>
      if r = NULL then \<forall>i < unat len - 8. \<not> holds_at ''RSD PTR '' m (start + of_nat i)
      else \<exists>i < unat len - 8. r = start + of_nat i \<and> holds_at ''RSD PTR '' m r
        \<and> (\<forall>j<i. \<not> holds_at ''RSD PTR '' m (start + of_nat j)))"
proof -
  have le: "(8 :: u32) \<le> len" using assms(1) by (simp add: word_le_nat_alt)
  have u: "unat (len - 8) = unat len - 8" unfolding unat_sub [OF le] by simp
  let ?f = "find (\<lambda>i. holds_at ''RSD PTR '' m (start + of_nat i)) [0..<unat len - 8]"
  have r: "find_rsdp_in_region m start len = (case ?f of Some i \<Rightarrow> start + of_nat i | None \<Rightarrow> NULL)"
    by (simp add: find_rsdp_in_region_def rsdp_literal u)
  have nz: "start + of_nat i \<noteq> 0" if "i < unat len - 8" for i
  proof -
    have "unat (of_nat i :: u32) = i" using that u32_lt [of len] by (intro of_nat_less_u32) simp
    then have "unat (start + of_nat i) = unat start + i"
      using that assms(2) by (subst unat_add_lt) auto
    moreover have "0 < unat start" using assms(3) by (simp add: unat_gt_0)
    ultimately show ?thesis by (metis add_gr_0 neq0_conv unat_0)
  qed
  show ?thesis
  proof (cases ?f)
    case None
    with r have "find_rsdp_in_region m start len = NULL" by simp
    with None show ?thesis by (simp add: find_upt_None)
  next
    case (Some i)
    then have "i < unat len - 8" "holds_at ''RSD PTR '' m (start + of_nat i)"
      "\<forall>j<i. \<not> holds_at ''RSD PTR '' m (start + of_nat j)" by (simp_all add: find_upt_Some)
    with r Some nz show ?thesis by auto
  qed
qed

text \<open>The tables that the root table lists, and what it takes to read them.\<close>

definition table_count :: "mem \<Rightarrow> u32 \<Rightarrow> nat" where
  "table_count m root = unat ((sdt_length m root - 36) div 4)"

definition root_readable :: "'a kmem_scheme \<Rightarrow> u32 \<Rightarrow> bool" where
  "root_readable s root \<longleftrightarrow> readable s (root + 4) 4 \<and> (\<forall>i < table_count (ram s) root. readable s (root + 36 + 4 * of_nat i) 4)"

definition table_readable :: "'a kmem_scheme \<Rightarrow> u32 \<Rightarrow> bool" where
  "table_readable s t \<longleftrightarrow> readable s (t + 4) 4 \<and> readable s t (unat (sdt_length (ram s) t))"

definition checksum_ok :: "mem \<Rightarrow> u32 \<Rightarrow> bool" where
  "checksum_ok m t \<longleftrightarrow> (\<Sum>i < unat (sdt_length m t). unat (m (t + of_nat i))) mod 256 = 0"

lemma readable_mono: "readable s a n \<Longrightarrow> k \<le> n \<Longrightarrow> readable s a k"
  by (simp add: readable_def)

lemma SDT_HEADER_36: "SDT_HEADER_SIZE = 36"
  by (simp add: SDT_HEADER_SIZE_def)

text \<open>\<open>acpi_find_sdt\<close>, when what it reads can be read: the pointer of the first entry of the root table
  whose target carries the signature, with two pages of identity mapping there, and
  \<^verbatim>\<open>NULL\<close> with nothing changed exactly when no entry carries it.\<close>

lemma find_entry_find:
  assumes "length sig = 4" "\<forall>i \<in> set is. readable s (root + 36 + 4 * of_nat i) 4 \<and> readable s (sdt_entry (ram s) root i) 4"
  shows "find_entry s root sig is = Inr (find (\<lambda>i. holds_at sig (ram s) (sdt_entry (ram s) root i)) is)"
  using assms(2)
proof (induction "is")
  case (Cons i "is")
  have "compared sig (ram s) (sdt_entry (ram s) root i) \<le> 4" by (simp add: compared_def)
  then have "readable s (sdt_entry (ram s) root i) (compared sig (ram s) (sdt_entry (ram s) root i))"
    using Cons.prems readable_mono by auto
  with Cons show ?case by (simp add: signature_literal [OF assms(1)] SDT_HEADER_36 Let_def)
qed simp

lemma acpi_find_sdt_eq:
  assumes "length sig = 4" "root_readable s root" "\<forall>i < table_count (ram s) root. readable s (sdt_entry (ram s) root i) 4"
  shows "acpi_find_sdt root sig s =
    (case find (\<lambda>i. holds_at sig (ram s) (sdt_entry (ram s) root i)) [0..<table_count (ram s) root] of
      Some i \<Rightarrow> bindk (identity_map (sdt_entry (ram s) root i) 8192 s) (\<lambda>t. Some (Inr (sdt_entry (ram s) root i, t)))
    | None \<Rightarrow> Some (Inr (NULL, s)))"
proof -
  have p: "2 * PAGE_SIZE = 8192" by (simp add: PAGE_SIZE_def)
  have n: "unat ((sdt_length (ram s) root - SDT_HEADER_SIZE) div 4) = table_count (ram s) root"
    by (simp add: table_count_def SDT_HEADER_36)
  have "\<forall>i \<in> set [0..<table_count (ram s) root]. readable s (root + 36 + 4 * of_nat i) 4 \<and> readable s (sdt_entry (ram s) root i) 4"
    using assms(2,3) by (simp add: root_readable_def)
  note f = find_entry_find [OF assms(1) this]
  have h: "readable s (root + 4) 4" using assms(2) by (simp add: root_readable_def)
  show ?thesis unfolding acpi_find_sdt_def Let_def n f p using h by (simp split: option.split)
qed

lemma acpi_find_sdt_returns: "acpi_find_sdt root sig s \<noteq> None"
proof -
  let ?f = "find_entry s root sig [0..<unat ((sdt_length (ram s) root - SDT_HEADER_SIZE) div 4)]"
  have m: "bindk (identity_map a n s) (\<lambda>t. Some (Inr (b, t))) \<noteq> None" for a n b :: u32
    by (rule bindk_returns [OF identity_map_returns]) simp
  consider e where "?f = Inl e" | "?f = Inr None" | i where "?f = Inr (Some i)" by (cases ?f; cases "projr ?f") auto
  then show ?thesis using m by cases (auto simp: acpi_find_sdt_def Let_def simp del: not_None_eq)
qed

section \<open>Properties of the checks\<close>

lemma fold_checksum:
  "fold (\<lambda>i sum. sum + f i) [0..<n] (c :: u8) = c + of_nat (\<Sum>i<n. unat (f i :: u8))"
  by (induction n arbitrary: c) (simp_all add: add.assoc)

lemma validate_sdt_result:
  "acpi_validate_sdt s t = (if table_readable s t then Inr (checksum_ok (ram s) t) else Inl kernel_page_fault)"
proof -
  have "(of_nat n :: u8) = 0 \<longleftrightarrow> n mod 256 = 0" for n
    by (simp add: word_unat_eq_iff unsigned_of_nat take_bit_eq_mod)
  then have "fold (\<lambda>i sum. sum + ram s (t + of_nat i)) [0..<unat (sdt_length (ram s) t)] (0 :: u8) = 0 \<longleftrightarrow> checksum_ok (ram s) t"
    by (simp only: fold_checksum checksum_ok_def add_0)
  then show ?thesis by (simp add: acpi_validate_sdt_def table_readable_def)
qed

lemma validate_entries_ok:
  assumes "\<forall>i \<in> set is. readable s (root + 36 + 4 * of_nat i) 4"
  shows "validate_entries s root (is @ js) =
    (case find (\<lambda>i. \<not> (table_readable s (sdt_entry (ram s) root i) \<and> checksum_ok (ram s) (sdt_entry (ram s) root i))) is of
       None \<Rightarrow> validate_entries s root js
     | Some i \<Rightarrow> Inl (if table_readable s (sdt_entry (ram s) root i) then Panic ''SDT table #%d corrupted'' else kernel_page_fault))"
  using assms by (induction "is") (auto simp: validate_sdt_result SDT_HEADER_36)

text \<open>With a root table that can be read, \<open>acpi_validate_rsdt\<close> accepts exactly when every table it points to can be read and has
  bytes that sum up to zero modulo 256. Otherwise the first table that fails decides: one that can be read is
  reported as corrupted, and one that has a byte at an address that is not mapped ends in a page fault.\<close>

lemma acpi_validate_rsdt_result:
  assumes "root_readable s root"
  shows "acpi_validate_rsdt root s =
    (case find (\<lambda>i. \<not> (table_readable s (sdt_entry (ram s) root i) \<and> checksum_ok (ram s) (sdt_entry (ram s) root i)))
       [0..<table_count (ram s) root] of
       None \<Rightarrow> Inr ()
     | Some i \<Rightarrow> Inl (if table_readable s (sdt_entry (ram s) root i) then Panic ''SDT table #%d corrupted'' else kernel_page_fault))"
proof -
  have n: "unat ((sdt_length (ram s) root - SDT_HEADER_SIZE) div 4) = table_count (ram s) root"
    by (simp add: table_count_def SDT_HEADER_36)
  have r: "\<forall>i \<in> set [0..<table_count (ram s) root]. readable s (root + 36 + 4 * of_nat i) 4" "readable s (root + 4) 4"
    using assms by (simp_all add: root_readable_def)
  show ?thesis
    using validate_entries_ok [OF r(1), of "[]"] r(2) by (simp add: acpi_validate_rsdt_def n split: option.split)
qed

end
