(* ===== verification/Port_IO.thy ===== *)
theory Port_IO
  imports Printk
begin

text \<open>
  The processor as the kernel's C code sees it: port input and output (\<^verbatim>\<open>src/io.h\<close>), the volatile
  accesses to memory-mapped device registers, and the interrupt flag (\<^verbatim>\<open>src/irq.h\<close>).

  Every access to a device is appended to \<open>io_log\<close> (newest first). A device is a function from the
  history, whose head is the access being answered, to the value the access reads, so a
  device may answer each read differently; the operations that read take the device as their
  argument. The lower bits of the answer are what a narrow read returns.
\<close>

section \<open>Device accesses\<close>

datatype io_event =
    In8 u16 | In16 u16 | In32 u16
  | Out8 u16 u8 | Out16 u16 u16 | Out32 u16 u32
  | Mmio_Read u32 | Mmio_Write u32 u32

type_synonym device = "io_event list \<Rightarrow> u32"

record hw = console +
  io_log :: "io_event list"
  eflags :: u32

definition io :: "io_event \<Rightarrow> 'a hw_scheme \<Rightarrow> 'a hw_scheme" where
  "io ev s = s\<lparr>io_log := ev # io_log s\<rparr>"

definition inl :: "device \<Rightarrow> u16 \<Rightarrow> 'a hw_scheme \<Rightarrow> u32 \<times> 'a hw_scheme" where
  "inl dev port s = (let s = io (In32 port) s in (dev (io_log s), s))"

definition outl :: "u16 \<Rightarrow> u32 \<Rightarrow> 'a hw_scheme \<Rightarrow> 'a hw_scheme" where
  "outl port data s = io (Out32 port data) s"

definition inb :: "device \<Rightarrow> u16 \<Rightarrow> 'a hw_scheme \<Rightarrow> u8 \<times> 'a hw_scheme" where
  "inb dev port s = (let s = io (In8 port) s in (ucast (dev (io_log s)), s))"

definition outb :: "u16 \<Rightarrow> u8 \<Rightarrow> 'a hw_scheme \<Rightarrow> 'a hw_scheme" where
  "outb port data s = io (Out8 port data) s"

definition inw :: "device \<Rightarrow> u16 \<Rightarrow> 'a hw_scheme \<Rightarrow> u16 \<times> 'a hw_scheme" where
  "inw dev port s = (let s = io (In16 port) s in (ucast (dev (io_log s)), s))"

definition outw :: "u16 \<Rightarrow> u16 \<Rightarrow> 'a hw_scheme \<Rightarrow> 'a hw_scheme" where
  "outw port data s = io (Out16 port data) s"

text \<open>Loads and stores through a pointer to \<^verbatim>\<open>volatile\<close> device registers.\<close>

definition mmio_read :: "device \<Rightarrow> u32 \<Rightarrow> 'a hw_scheme \<Rightarrow> u32 \<times> 'a hw_scheme" where
  "mmio_read dev a s = (let s = io (Mmio_Read a) s in (dev (io_log s), s))"

definition mmio_write :: "u32 \<Rightarrow> u32 \<Rightarrow> 'a hw_scheme \<Rightarrow> 'a hw_scheme" where
  "mmio_write a v s = io (Mmio_Write a v) s"

lemmas io_defs = inl_def outl_def inb_def outb_def inw_def outw_def mmio_read_def mmio_write_def io_def

section \<open>The interrupt flag\<close>

definition IF_FLAG :: u32 where "IF_FLAG = push_bit 9 1"

definition disable_irq :: "'a hw_scheme \<Rightarrow> 'a hw_scheme" where
  "disable_irq s = s\<lparr>eflags := eflags s AND NOT IF_FLAG\<rparr>"

definition enable_irq :: "'a hw_scheme \<Rightarrow> 'a hw_scheme" where
  "enable_irq s = s\<lparr>eflags := eflags s OR IF_FLAG\<rparr>"

definition disable_irq_safe :: "'a hw_scheme \<Rightarrow> u32 \<times> 'a hw_scheme" where
  "disable_irq_safe s =
     (let flags = eflags s; state = flags AND push_bit 9 1
      in (state, if state \<noteq> 0 then disable_irq s else s))"

definition restore_irq :: "u32 \<Rightarrow> 'a hw_scheme \<Rightarrow> 'a hw_scheme" where
  "restore_irq state s = (if state \<noteq> 0 then enable_irq s else s)"

definition irqs_on :: "'a hw_scheme \<Rightarrow> bool" where
  "irqs_on s \<longleftrightarrow> bit (eflags s) 9"

lemma bit_512 [simp]: "bit (512 :: u32) n \<longleftrightarrow> n = 9"
proof -
  have "(512 :: u32) = 2 ^ 9" by simp
  then show ?thesis by (auto simp only: bit_exp_iff possible_bit_word) auto
qed

lemma if_flag_set [simp]: "(f :: u32) AND 512 \<noteq> 0 \<longleftrightarrow> bit f 9"
proof
  assume "f AND 512 \<noteq> 0"
  then obtain n where "bit (f AND 512) n" using bit_eq_iff [of "f AND 512" 0] by auto
  then show "bit f 9" by (auto simp only: bit_and_iff bit_512)
next
  assume "bit f 9"
  then have "bit (f AND 512) 9" by (simp add: bit_and_iff)
  then show "f AND 512 \<noteq> 0" by auto
qed

lemma disable_irq_off [simp]: "\<not> irqs_on (disable_irq s)"
  by (simp add: irqs_on_def disable_irq_def IF_FLAG_def bit_simps)

lemma enable_irq_on [simp]: "irqs_on (enable_irq s)"
  by (simp add: irqs_on_def enable_irq_def IF_FLAG_def bit_simps)

text \<open>\<^verbatim>\<open>DISABLE_IRQ_BEGIN ... DISABLE_IRQ_END\<close>: the body runs with interrupts off and the flag is
  what it was before, so the sections nest.\<close>

definition irq_section :: "('a hw_scheme \<Rightarrow> 'a hw_scheme) \<Rightarrow> 'a hw_scheme \<Rightarrow> 'a hw_scheme" where
  "irq_section body s = (let (state, s) = disable_irq_safe s in restore_irq state (body s))"

lemma disable_irq_safe_eq:
  "disable_irq_safe s = (eflags s AND 512, if irqs_on s then disable_irq s else s)"
  using if_flag_set [of "eflags s"] by (simp add: disable_irq_safe_def Let_def irqs_on_def)

lemma disable_irq_safe_off: "\<not> irqs_on (snd (disable_irq_safe s))"
  by (simp add: disable_irq_safe_eq)

lemma irq_section_eq:
  "irq_section body s = (if irqs_on s then enable_irq (body (disable_irq s)) else body s)"
  using if_flag_set [of "eflags s"]
  by (simp add: irq_section_def disable_irq_safe_eq restore_irq_def irqs_on_def)

lemma irq_section_restores:
  assumes "\<And>t. \<not> irqs_on t \<Longrightarrow> eflags (body t) = eflags t"
  shows "eflags (irq_section body s) = eflags s"
proof (cases "irqs_on s")
  case True
  have "eflags s AND NOT 512 OR 512 = eflags s"
  proof (rule bit_word_eqI)
    fix n assume "n < LENGTH(32)"
    with True show "bit (eflags s AND NOT 512 OR 512) n = bit (eflags s) n"
      by (simp only: irqs_on_def bit_or_iff bit_and_iff bit_not_iff bit_512 possible_bit_word) blast
  qed
  with True assms [of "disable_irq s"] show ?thesis
    by (simp add: irq_section_eq enable_irq_def) (simp add: disable_irq_def IF_FLAG_def)
qed (use assms [of s] in \<open>simp add: irq_section_eq\<close>)

section \<open>Saved registers\<close>

record regs =
  r_ebp :: u32  r_edi :: u32  r_esi :: u32  r_edx :: u32  r_ecx :: u32  r_ebx :: u32  r_eax :: u32
  r_gs :: u16  r_fs :: u16  r_es :: u16  r_ds :: u16
  r_error_code :: u32  r_eip :: u32  r_cs :: u32  r_eflags :: u32  r_esp :: u32  r_ss :: u32

definition is_userspace :: "regs \<Rightarrow> bool" where
  "is_userspace rg \<longleftrightarrow> r_cs rg AND 3 = 3"

lemma is_userspace_rpl: "is_userspace rg \<longleftrightarrow> unat (r_cs rg) mod 4 = 3"
proof -
  have "r_cs rg AND 3 = 3 \<longleftrightarrow> unat (r_cs rg AND mask 2) = 3"
    by (simp add: mask_eq_exp_minus_1 word_unat_eq_iff)
  then show ?thesis by (simp add: is_userspace_def and_mask_unat)
qed

section \<open>Panic\<close>

text \<open>\<^verbatim>\<open>__panic\<close> of \<^verbatim>\<open>src/panic.c\<close>: it prints the location and the message and stops the processor
  with interrupts off; the result is the state in which it stays halted. Elsewhere in the
  development a call of \<^verbatim>\<open>panic\<close> is the fault \<open>Panic\<close> with its message.\<close>

definition kpanic :: "u8 list \<Rightarrow> u8 list \<Rightarrow> va list \<Rightarrow> 'a hw_scheme \<Rightarrow> 'a hw_scheme result" where
  "kpanic location msg args s =
     (case printk ''panic at %s: '' [VStr location] s of Inl e \<Rightarrow> Inl e
      | Inr s \<Rightarrow> (case vprintk msg args s of Inl e \<Rightarrow> Inl e | Inr s \<Rightarrow> Inr (disable_irq s)))"

lemma format_panic_at:
  "format (c_string (bytes ''panic at %s: '')) [VStr location] = Inr (bytes ''panic at '' @ c_string location @ bytes '': '')"
  by (simp add: bytes_def c_string_def spec_directive_def)

lemma kpanic_eq:
  assumes "format (c_string msg) args = Inr out"
  shows "kpanic location msg args s =
    Inr (disable_irq (terminal_write (bytes ''panic at '' @ c_string location @ bytes '': '' @ out) 7 s))"
  by (simp add: kpanic_def printk_def vprintk_eq format_panic_at tty.emit_def assms)

end
