(* ===== verification/Apic.thy ===== *)
theory Apic
  imports Acpi Port_IO "HOL-Library.Signed_Division"
begin

text \<open>
  Interrupt controllers and the timer: \<^verbatim>\<open>src/apic.c\<close>.

  The registers of the local APIC and of the I/O APIC are device memory, so reads and writes of
  them are events of the access log. The walk over the MADT and the wait for the interval timer
  are loops that need not stop and are partial functions; the theorems say when they do. What the
  writes mean to the two controllers is the replay of the log in \<open>ioapic_view\<close> and \<open>lapic_view\<close>.
\<close>

section \<open>Registers and state\<close>

definition TYPE_IOAPIC :: u8 where "TYPE_IOAPIC = 1"

definition APIC_TASKPRIOR :: u32 where "APIC_TASKPRIOR = 0x80"
definition APIC_EOI :: u32 where "APIC_EOI = 0x0B0"
definition APIC_SPURIOUS :: u32 where "APIC_SPURIOUS = 0x0F0"
definition APIC_LVT_TMR :: u32 where "APIC_LVT_TMR = 0x320"
definition APIC_LVT_PERF :: u32 where "APIC_LVT_PERF = 0x340"
definition APIC_LVT_LINT0 :: u32 where "APIC_LVT_LINT0 = 0x350"
definition APIC_LVT_LINT1 :: u32 where "APIC_LVT_LINT1 = 0x360"
definition APIC_TMRINITCNT :: u32 where "APIC_TMRINITCNT = 0x380"
definition APIC_TMRCURRCNT :: u32 where "APIC_TMRCURRCNT = 0x390"
definition APIC_TMRDIV :: u32 where "APIC_TMRDIV = 0x3E0"
definition APIC_DISABLE :: u32 where "APIC_DISABLE = 0x10000"
definition APIC_SW_ENABLE :: u32 where "APIC_SW_ENABLE = 0x100"
definition TMR_PERIODIC :: u32 where "TMR_PERIODIC = 0x20000"
definition IOAPIC_REG_TABLE :: u32 where "IOAPIC_REG_TABLE = 0x10"

record apic = hw +
  lapic_ptr :: u32
  ioapic_ptr :: u32

definition lapic_write :: "u32 \<Rightarrow> u32 \<Rightarrow> 'a apic_scheme \<Rightarrow> 'a apic_scheme" where
  "lapic_write idx value s =
     (let s = mmio_write (lapic_ptr s + 4 * (idx div 4)) value s
      in io (Mmio_Read (lapic_ptr s)) s)"

definition lapic_read :: "device \<Rightarrow> u32 \<Rightarrow> 'a apic_scheme \<Rightarrow> u32 \<times> 'a apic_scheme" where
  "lapic_read dev idx s = mmio_read dev (lapic_ptr s + 4 * (idx div 4)) s"

definition ioapic_write :: "u32 \<Rightarrow> u32 \<Rightarrow> 'a apic_scheme \<Rightarrow> 'a apic_scheme" where
  "ioapic_write reg data s =
     (let s = mmio_write (ioapic_ptr s) reg s
      in mmio_write (ioapic_ptr s + 16) data s)"

definition ioapic_enable :: "u32 \<Rightarrow> u32 \<Rightarrow> 'a apic_scheme \<Rightarrow> 'a apic_scheme" where
  "ioapic_enable irq target_irq s =
     (let s = ioapic_write (IOAPIC_REG_TABLE + 2 * irq) target_irq s
      in ioapic_write (IOAPIC_REG_TABLE + 2 * irq + 1) 0 s)"

section \<open>Initialisation\<close>

definition madt_entry :: layout where
  "madt_entry = [(''type'', 1), (''length'', 1), (''data'', 0)]"

definition madt_header :: layout where
  "madt_header = [(''acpi'', sizeof acpi_sdt_header), (''lapic_addr'', 4), (''flags'', 4), (''first_entry'', sizeof madt_entry)]"

lemma madt_layouts [simp]:
  "offset_of ''type'' madt_entry = 0" "offset_of ''length'' madt_entry = 1" "offset_of ''data'' madt_entry = 2"
  "offset_of ''lapic_addr'' madt_header = 36" "offset_of ''first_entry'' madt_header = 44"
  by (simp_all add: madt_entry_def madt_header_def)

partial_function (option) madt_loop :: "mem \<Rightarrow> u32 \<Rightarrow> u32 \<Rightarrow> u32 \<Rightarrow> u32 option" where
  "madt_loop m end_addr ent ioapic =
     (if ent \<ge> end_addr then Some ioapic
      else madt_loop m end_addr (ent + ucast (m (ent + of_nat (offset_of ''length'' madt_entry))))
             (if m (ent + of_nat (offset_of ''type'' madt_entry)) = TYPE_IOAPIC
              then load32 m (ent + of_nat (offset_of ''data'' madt_entry) + 2) else ioapic))"

definition apic_setup :: "'a apic_scheme \<Rightarrow> 'a apic_scheme" where
  "apic_setup s =
     (let s = outb (0x20 + 1) 0xFF s;
          s = outb (0xA0 + 1) 0xFF s;
          s = lapic_write APIC_SPURIOUS (39 OR APIC_SW_ENABLE) s;
          s = lapic_write APIC_LVT_PERF APIC_DISABLE s;
          s = lapic_write APIC_LVT_LINT0 APIC_DISABLE s;
          s = lapic_write APIC_LVT_LINT1 APIC_DISABLE s;
          s = lapic_write APIC_EOI 0 s;
          s = lapic_write APIC_TASKPRIOR 0 s;
          s = lapic_write APIC_TMRDIV 0xB s;
          s = lapic_write APIC_LVT_TMR (32 OR TMR_PERIODIC) s;
          s = lapic_write APIC_TMRINITCNT 10000000 s;
          s = ioapic_enable 1 40 s;
          s = ioapic_enable 14 41 s
      in ioapic_enable 15 42 s)"

definition apic_init :: "u32 \<Rightarrow> 'a apic_scheme \<Rightarrow> 'a apic_scheme result option" where
  "apic_init rsdt s =
     bindk (acpi_find_sdt rsdt ''APIC'' s) (\<lambda>(header, s).
       if header = NULL then Some (Inl (Panic ''MADT not found!''))
       else
         let s = s\<lparr>lapic_ptr := load32 (ram s) (header + of_nat (offset_of ''lapic_addr'' madt_header))\<rparr>
         in case madt_loop (ram s) (header + sdt_length (ram s) header)
                   (header + of_nat (offset_of ''first_entry'' madt_header)) (ioapic_ptr s) of
              None \<Rightarrow> None
            | Some ioapic \<Rightarrow>
                let s = s\<lparr>ioapic_ptr := ioapic\<rparr>
                in if ioapic_ptr s = NULL then Some (Inl (Panic ''cannot locate I/O APIC address''))
                   else if lapic_ptr s = NULL then Some (Inl (Panic ''cannot locate Local APIC address''))
                   else bindk (identity_map (lapic_ptr s) (2 * PAGE_SIZE) s) (\<lambda>s.
                        bindk (identity_map (ioapic_ptr s) (2 * PAGE_SIZE) s) (\<lambda>s.
                        Some (Inr (apic_setup s)))))"

definition apic_eoi :: "'a apic_scheme \<Rightarrow> 'a apic_scheme" where
  "apic_eoi s = lapic_write APIC_EOI 0 s"

section \<open>Calibration against the interval timer\<close>

text \<open>\<^verbatim>\<open>int\<close> division truncates and divides by zero for less than 100 microseconds.\<close>

definition pit_prepare_sleep :: "device \<Rightarrow> int \<Rightarrow> 'a hw_scheme \<Rightarrow> 'a hw_scheme result" where
  "pit_prepare_sleep dev mcsec s =
     (let (st, s) = inb dev 0x61 s;
          st = (st AND 0xfd) OR 1;
          s = outb 0x61 st s;
          s = outb 0x43 0xb2 s
      in if mcsec sdiv 100 = 0 then Inl Div_By_Zero
         else let tick_cnt = 1193182 sdiv (mcsec sdiv 100);
                  s = outb 0x42 (of_int (tick_cnt AND 0xff)) s;
                  (_, s) = inb dev 0x60 s
              in Inr (outb 0x42 (of_int (drop_bit 8 tick_cnt)) s))"

partial_function (option) pit_wait :: "device \<Rightarrow> u32 \<Rightarrow> 'a hw_scheme \<Rightarrow> (u32 \<times> 'a hw_scheme) option" where
  "pit_wait dev cnt s =
     (let r = inb dev 0x61 s
      in if fst r AND 0x20 \<noteq> 0 then pit_wait dev (cnt + 1) (snd r) else Some (cnt, snd r))"

definition pit_gate :: "device \<Rightarrow> 'a hw_scheme \<Rightarrow> 'a hw_scheme" where
  "pit_gate dev s =
     (let (st, s) = inb dev 0x61 s;
          st = st AND 0xfe;
          s = outb 0x61 st s;
          st = st OR 1
      in outb 0x61 st s)"

definition pit_perform_sleep :: "device \<Rightarrow> 'a hw_scheme \<Rightarrow> (u32 \<times> 'a hw_scheme) option" where
  "pit_perform_sleep dev s = pit_wait dev 0 (pit_gate dev s)"

definition calibrate_apic_timer :: "device \<Rightarrow> 'a apic_scheme \<Rightarrow> 'a apic_scheme result option" where
  "calibrate_apic_timer dev s =
     (let s = lapic_write APIC_TMRDIV 0x3 s
      in case pit_prepare_sleep dev 10000 s of Inl e \<Rightarrow> Some (Inl e)
         | Inr s \<Rightarrow>
             let s = lapic_write APIC_TMRINITCNT 0xFFFFFFFF s
             in case pit_perform_sleep dev s of None \<Rightarrow> None
                | Some (cnt, s) \<Rightarrow>
                    let s = lapic_write APIC_LVT_TMR APIC_DISABLE s;
                        (count, s) = lapic_read dev APIC_TMRCURRCNT s;
                        ticksIn10ms = 0xFFFFFFFF - count;
                        s = lapic_write APIC_LVT_TMR (32 OR TMR_PERIODIC) s;
                        s = lapic_write APIC_TMRDIV 0x3 s
                    in Some (Inr (lapic_write APIC_TMRINITCNT (ticksIn10ms div 10) s)))"

section \<open>The walk over the MADT\<close>

text \<open>\<open>madt_chain m p ps e\<close>: the entries from \<open>p\<close> on, each starting where the one before ends, are at the
  addresses \<open>ps\<close>, and the one after them is the first at or past \<open>e\<close>.\<close>

fun madt_chain :: "mem \<Rightarrow> u32 \<Rightarrow> u32 list \<Rightarrow> u32 \<Rightarrow> bool" where
  "madt_chain m p [] e \<longleftrightarrow> e \<le> p"
| "madt_chain m p (q # qs) e \<longleftrightarrow> q = p \<and> p < e \<and> madt_chain m (p + ucast (m (p + 1))) qs e"

definition note_ioapic :: "mem \<Rightarrow> u32 \<Rightarrow> u32 \<Rightarrow> u32" where
  "note_ioapic m p ioapic = (if m p = TYPE_IOAPIC then load32 m (p + 4) else ioapic)"

lemma madt_loop_chain:
  "madt_chain m p ps e \<Longrightarrow> madt_loop m e p ioapic = Some (fold (note_ioapic m) ps ioapic)"
proof (induction ps arbitrary: p ioapic)
  case Nil
  then show ?case by (simp add: madt_loop.simps)
next
  case (Cons q qs)
  then have "madt_loop m e p ioapic = madt_loop m e (p + ucast (m (p + 1))) (note_ioapic m p ioapic)"
    by (subst madt_loop.simps) (auto simp: note_ioapic_def add.assoc)
  with Cons show ?case by simp
qed

lemma madt_loop_Some:
  "madt_loop m e p ioapic = Some r \<Longrightarrow> \<exists>ps. madt_chain m p ps e"
proof (erule madt_loop.raw_induct [where P = "\<lambda>m e p ioapic r. \<exists>ps. madt_chain m p ps e", rotated])
  fix f m e p ioapic r
  assume IH: "\<And>m e p ioapic r. f m e p ioapic = Some r \<Longrightarrow> \<exists>ps. madt_chain m p ps e"
    and eq: "(if e \<le> p then Some ioapic else f m e (p + ucast (m (p + of_nat (offset_of ''length'' madt_entry))))
        (if m (p + of_nat (offset_of ''type'' madt_entry)) = TYPE_IOAPIC
         then load32 m (p + of_nat (offset_of ''data'' madt_entry) + 2) else ioapic)) = Some r"
  show "\<exists>ps. madt_chain m p ps e"
  proof (cases "e \<le> p")
    case True
    then have "madt_chain m p [] e" by simp
    then show ?thesis by blast
  next
    case False
    with IH eq obtain ps where "madt_chain m (p + ucast (m (p + 1))) ps e" by fastforce
    with False have "madt_chain m p (p # ps) e" by simp
    then show ?thesis by blast
  qed
qed

lemma madt_chain_unique: "madt_chain m p ps e \<Longrightarrow> madt_chain m p qs e \<Longrightarrow> ps = qs"
proof (induction ps arbitrary: p qs)
  case Nil
  then show ?case by (cases qs) auto
next
  case (Cons a ps)
  then show ?case by (cases qs) auto
qed

lemma madt_chain_zero_length:
  assumes "p < e" "m (p + 1) = 0"
  shows "\<not> madt_chain m p ps e"
proof (induction ps)
  case Nil
  then show ?case using assms by simp
next
  case (Cons q ps)
  then show ?case using assms by simp
qed

text \<open>C31. The walk over the MADT entries returns exactly when following the entry lengths reaches the
  end of the table, and then the I/O APIC address is that of the last entry of that type (the
  old value if there is none); an entry of length zero before the end makes it run forever.\<close>

theorem madt_loop_correct:
  "(madt_loop m e p ioapic \<noteq> None \<longleftrightarrow> (\<exists>ps. madt_chain m p ps e))
   \<and> (\<forall>ps. madt_chain m p ps e \<longrightarrow> madt_loop m e p ioapic =
        Some (let qs = filter (\<lambda>q. m q = TYPE_IOAPIC) ps in if qs = [] then ioapic else load32 m (last qs + 4)))
   \<and> (p < e \<and> m (p + 1) = 0 \<longrightarrow> madt_loop m e p ioapic = None)"
proof (intro conjI allI impI)
  have f: "fold (note_ioapic m) ps ioapic =
      (let qs = filter (\<lambda>q. m q = TYPE_IOAPIC) ps in if qs = [] then ioapic else load32 m (last qs + 4))" for ps
  proof (induction ps rule: rev_induct)
    case (snoc q ps)
    then show ?case by (auto simp: note_ioapic_def Let_def)
  qed (simp add: Let_def)
  show "madt_loop m e p ioapic \<noteq> None \<longleftrightarrow> (\<exists>ps. madt_chain m p ps e)"
    using madt_loop_Some madt_loop_chain by fastforce
  show "madt_loop m e p ioapic =
      Some (let qs = filter (\<lambda>q. m q = TYPE_IOAPIC) ps in if qs = [] then ioapic else load32 m (last qs + 4))"
    if "madt_chain m p ps e" for ps
    using madt_loop_chain [OF that] f by (simp only:)
  show "madt_loop m e p ioapic = None" if "p < e \<and> m (p + 1) = 0"
    using that madt_chain_zero_length [of p e m] madt_loop_Some [of m e p ioapic]
    by (cases "madt_loop m e p ioapic") auto
qed

definition madt_mem :: mem where
  "madt_mem = (\<lambda>_. 0)(0x1001 := 8, 0x1008 := 1, 0x1009 := 12, 0x100e := 0xc0, 0x100f := 0xfe)"

theorem madt_loop_correct_witness:
  "madt_loop madt_mem 0x1014 0x1000 0 = Some 0xfec00000 \<and> madt_loop madt_mem 0x1020 0x1000 0 = None"
proof -
  have c: "madt_chain madt_mem 0x1000 [0x1000, 0x1008] 0x1014" by (simp add: madt_mem_def)
  have "madt_loop madt_mem 0x1014 0x1000 0 = Some (load32 madt_mem (0x1008 + 4))"
    using madt_loop_correct [of madt_mem "0x1014" "0x1000" 0, THEN conjunct2, THEN conjunct1, rule_format, OF c]
    by (simp add: TYPE_IOAPIC_def) (simp add: madt_mem_def)
  moreover have "load32 madt_mem 0x100c = 0xfec00000" by (simp add: load32_def madt_mem_def)
  moreover have "madt_loop madt_mem 0x1020 0x1000 0 = madt_loop madt_mem 0x1020 0x1014 0xfec00000"
    by (simp add: madt_loop.simps [of _ _ "0x1000"] madt_loop.simps [of _ _ "0x1008"] madt_mem_def
        TYPE_IOAPIC_def load32_def)
  moreover have "madt_loop madt_mem 0x1020 0x1014 0xfec00000 = None"
    using madt_loop_correct [of madt_mem "0x1020" "0x1014" "0xfec00000"] by (simp add: madt_mem_def)
  ultimately show ?thesis by simp
qed

section \<open>What the controllers are told\<close>

text \<open>The registers of the two controllers as the log of accesses leaves them: the I/O APIC at \<open>b\<close> has a
  select register at offset 0 and a data window at offset 16; the local APIC has a register
  at every address written.\<close>

fun ioapic_view :: "u32 \<Rightarrow> (u32 \<Rightarrow> u32) \<Rightarrow> io_event list \<Rightarrow> u32 \<times> (u32 \<Rightarrow> u32)" where
  "ioapic_view b r0 [] = (0, r0)"
| "ioapic_view b r0 (Mmio_Write a v # log) =
     (let (sel, r) = ioapic_view b r0 log
      in if a = b then (v, r) else if a = b + 16 then (sel, r(sel := v)) else (sel, r))"
| "ioapic_view b r0 (ev # log) = ioapic_view b r0 log"

fun lapic_view :: "(u32 \<Rightarrow> u32) \<Rightarrow> io_event list \<Rightarrow> (u32 \<Rightarrow> u32)" where
  "lapic_view r0 [] = r0"
| "lapic_view r0 (Mmio_Write a v # log) = (lapic_view r0 log)(a := v)"
| "lapic_view r0 (ev # log) = lapic_view r0 log"

lemma lapic_write_eq:
  "lapic_write idx v s = s\<lparr>io_log := Mmio_Read (lapic_ptr s) # Mmio_Write (lapic_ptr s + 4 * (idx div 4)) v # io_log s\<rparr>"
  by (simp add: lapic_write_def io_defs Let_def)

lemma ioapic_write_eq:
  "ioapic_write reg v s = s\<lparr>io_log := Mmio_Write (ioapic_ptr s + 16) v # Mmio_Write (ioapic_ptr s) reg # io_log s\<rparr>"
  by (simp add: ioapic_write_def io_defs Let_def)

lemma ioapic_write_view:
  "ioapic_view (ioapic_ptr s) r0 (io_log (ioapic_write reg v s))
     = (reg, (snd (ioapic_view (ioapic_ptr s) r0 (io_log s)))(reg := v))"
  by (simp add: ioapic_write_eq split: prod.split)

lemma lapic_write_ioapic_view:
  assumes "lapic_ptr s + 4 * (idx div 4) \<noteq> ioapic_ptr s" "lapic_ptr s + 4 * (idx div 4) \<noteq> ioapic_ptr s + 16"
  shows "ioapic_view (ioapic_ptr s) r0 (io_log (lapic_write idx v s)) = ioapic_view (ioapic_ptr s) r0 (io_log s)"
  using assms by (simp add: lapic_write_eq split: prod.split)

lemma ptr_frame [simp]:
  "lapic_ptr (lapic_write idx v s) = lapic_ptr s" "ioapic_ptr (lapic_write idx v s) = ioapic_ptr s"
  "lapic_ptr (ioapic_write idx v s) = lapic_ptr s" "ioapic_ptr (ioapic_write idx v s) = ioapic_ptr s"
  "lapic_ptr (ioapic_enable irq t s) = lapic_ptr s" "ioapic_ptr (ioapic_enable irq t s) = ioapic_ptr s"
  "lapic_ptr (outb p c s) = lapic_ptr s" "ioapic_ptr (outb p c s) = ioapic_ptr s"
  "lapic_ptr (apic_eoi s) = lapic_ptr s" "ioapic_ptr (apic_eoi s) = ioapic_ptr s"
  by (simp_all add: lapic_write_eq ioapic_write_eq ioapic_enable_def outb_def io_def apic_eoi_def Let_def)

lemma ioapic_enable_view:
  "snd (ioapic_view (ioapic_ptr s) r0 (io_log (ioapic_enable irq t s)))
     = (snd (ioapic_view (ioapic_ptr s) r0 (io_log s)))(16 + 2 * irq := t, 16 + 2 * irq + 1 := 0)"
  using ioapic_write_view [of "ioapic_write (IOAPIC_REG_TABLE + 2 * irq) t s" r0 "IOAPIC_REG_TABLE + 2 * irq + 1" 0]
    ioapic_write_view [of s r0 "IOAPIC_REG_TABLE + 2 * irq" t]
  by (simp add: ioapic_enable_def IOAPIC_REG_TABLE_def Let_def)

lemma ioapic_enable_lapic_view:
  assumes "a \<noteq> ioapic_ptr s" "a \<noteq> ioapic_ptr s + 16"
  shows "lapic_view r0 (io_log (ioapic_enable irq t s)) a = lapic_view r0 (io_log s) a"
  using assms by (simp add: ioapic_enable_def ioapic_write_eq Let_def)

lemma outb_views [simp]:
  "ioapic_view b r0 (io_log (outb p c s)) = ioapic_view b r0 (io_log s)"
  "lapic_view r0 (io_log (outb p c s)) = lapic_view r0 (io_log s)"
  by (simp_all add: outb_def io_def)

text \<open>The local APIC's page does not hold the two registers of the I/O APIC.\<close>

definition apart :: "'a apic_scheme \<Rightarrow> bool" where
  "apart s \<longleftrightarrow> \<not> in_range (lapic_ptr s) 4096 (ioapic_ptr s) \<and> \<not> in_range (lapic_ptr s) 4096 (ioapic_ptr s + 16)"

lemma apartD: "apart s \<Longrightarrow> k < 4096 \<Longrightarrow> lapic_ptr s + k \<noteq> ioapic_ptr s \<and> lapic_ptr s + k \<noteq> ioapic_ptr s + 16"
  by (auto simp: apart_def in_range_def) (metis add_diff_cancel_left')+

lemma apart_cong [simp]: "apart (lapic_write idx v s) = apart s" "apart (outb p c s) = apart s"
  "apart (ioapic_enable irq t s) = apart s"
  by (simp_all add: apart_def)

lemma lapic_write_views:
  assumes "apart s" "4 * (idx div 4) < 4096"
  shows "snd (ioapic_view (ioapic_ptr s) r0 (io_log (lapic_write idx v s))) = snd (ioapic_view (ioapic_ptr s) r0 (io_log s))"
    and "lapic_view r0 (io_log (lapic_write idx v s)) = (lapic_view r0 (io_log s))(lapic_ptr s + 4 * (idx div 4) := v)"
  using apartD [OF assms] by (simp_all add: lapic_write_ioapic_view) (simp add: lapic_write_eq)

lemma views_at:
  "ioapic_ptr s = b \<Longrightarrow> snd (ioapic_view b r0 (io_log (ioapic_enable irq t s)))
     = (snd (ioapic_view b r0 (io_log s)))(16 + 2 * irq := t, 16 + 2 * irq + 1 := 0)"
  "ioapic_ptr s = b \<Longrightarrow> apart s \<Longrightarrow> 4 * (idx div 4) < 4096 \<Longrightarrow>
     snd (ioapic_view b r0 (io_log (lapic_write idx v s))) = snd (ioapic_view b r0 (io_log s))"
  using ioapic_enable_view [of s r0 irq t] lapic_write_views(1) [of s idx r0 v] by auto

lemmas apic_regs = APIC_TASKPRIOR_def APIC_EOI_def APIC_SPURIOUS_def APIC_LVT_TMR_def APIC_LVT_PERF_def
  APIC_LVT_LINT0_def APIC_LVT_LINT1_def APIC_TMRINITCNT_def APIC_TMRCURRCNT_def APIC_TMRDIV_def
  APIC_DISABLE_def APIC_SW_ENABLE_def TMR_PERIODIC_def

text \<open>C35. After the set-up of \<open>apic_init\<close>, with the two controllers at distinct places, the I/O APIC sends
  lines 1, 14 and 15 to vectors 40, 41 and 42 of processor 0 and all its other registers are as
  before, both old interrupt controllers are masked, and the local APIC is enabled with spurious
  vector 39, its timer periodic on vector 32, its external pins and counter overflow off.\<close>

theorem apic_setup_programs:
  assumes "apart s"
  shows "snd (ioapic_view (ioapic_ptr s) r0 (io_log (apic_setup s)))
      = (snd (ioapic_view (ioapic_ptr s) r0 (io_log s)))(0x12 := 40, 0x13 := 0, 0x2c := 41, 0x2d := 0, 0x2e := 42, 0x2f := 0)
    \<and> (\<exists>new. io_log (apic_setup s) = new @ Out8 0xA1 0xFF # Out8 0x21 0xFF # io_log s \<and> (\<forall>p v. Out8 p v \<notin> set new))
    \<and> (let r = (\<lambda>k. lapic_view r0 (io_log (apic_setup s)) (lapic_ptr s + k))
       in r 0xf0 = 0x127 \<and> r 0x320 = 0x20020 \<and> r 0x380 = 10000000 \<and> r 0x3e0 = 0xb \<and> r 0x80 = 0
        \<and> r 0x340 = 0x10000 \<and> r 0x350 = 0x10000 \<and> r 0x360 = 0x10000)"
proof (intro conjI)
  show "snd (ioapic_view (ioapic_ptr s) r0 (io_log (apic_setup s)))
      = (snd (ioapic_view (ioapic_ptr s) r0 (io_log s)))(0x12 := 40, 0x13 := 0, 0x2c := 41, 0x2d := 0, 0x2e := 42, 0x2f := 0)"
    using assms by (simp add: apic_setup_def Let_def apic_regs views_at)
  show "\<exists>new. io_log (apic_setup s) = new @ Out8 0xA1 0xFF # Out8 0x21 0xFF # io_log s \<and> (\<forall>p v. Out8 p v \<notin> set new)"
    by (rule exI [of _ "take 30 (io_log (apic_setup s))"])
       (simp add: apic_setup_def Let_def lapic_write_eq ioapic_enable_def ioapic_write_eq outb_def io_def)
  show "let r = (\<lambda>k. lapic_view r0 (io_log (apic_setup s)) (lapic_ptr s + k))
       in r 0xf0 = 0x127 \<and> r 0x320 = 0x20020 \<and> r 0x380 = 10000000 \<and> r 0x3e0 = 0xb \<and> r 0x80 = 0
        \<and> r 0x340 = 0x10000 \<and> r 0x350 = 0x10000 \<and> r 0x360 = 0x10000"
    using assms apartD [OF assms]
    by (simp add: apic_setup_def Let_def apic_regs ioapic_enable_lapic_view lapic_write_views(2))
qed

definition apic0 :: apic where
  "apic0 = \<lparr>ram = (\<lambda>_. 0), freelist_head = 0, kernel_pgdir = 0, cr3 = 0,
     terminal_row = 0, terminal_column = 0, terminal_buffer = 0xc00b8000, io_log = [], eflags = 2,
     lapic_ptr = 0xfee00000, ioapic_ptr = 0xfec00000\<rparr>"

theorem apic_setup_programs_witness:
  "snd (ioapic_view 0xfec00000 (\<lambda>_. 0x10000) (io_log (apic_setup apic0))) 0x12 = 40
   \<and> lapic_view (\<lambda>_. 0) (io_log (apic_setup apic0)) 0xfee00320 = 0x20020"
  using apic_setup_programs [of apic0 "\<lambda>_. 0x10000"] apic_setup_programs [of apic0 "\<lambda>_. 0"]
  by (simp add: apart_def in_range_def apic0_def Let_def)

section \<open>Calibration\<close>

definition polls :: "nat \<Rightarrow> 'a hw_scheme \<Rightarrow> 'a hw_scheme" where
  "polls n s = s\<lparr>io_log := replicate n (In8 0x61) @ io_log s\<rparr>"

definition out2_high :: "device \<Rightarrow> 'a hw_scheme \<Rightarrow> nat \<Rightarrow> bool" where
  "out2_high dev s n \<longleftrightarrow> (ucast (dev (io_log (polls (Suc n) s))) :: u8) AND 0x20 \<noteq> 0"

lemma polls_Suc: "polls n (snd (inb dev 0x61 s)) = polls (Suc n) s"
  by (simp add: polls_def inb_def io_def Let_def replicate_app_Cons_same [symmetric])

lemma out2_high_Suc: "out2_high dev (snd (inb dev 0x61 s)) n = out2_high dev s (Suc n)"
  by (simp only: out2_high_def polls_Suc)

lemma out2_high_0: "(fst (inb dev 0x61 s) AND 0x20 \<noteq> 0) = out2_high dev s 0"
  by (simp add: out2_high_def polls_def inb_def io_def Let_def)

lemma pit_wait_step:
  "pit_wait dev cnt s = (if out2_high dev s 0 then pit_wait dev (cnt + 1) (snd (inb dev 0x61 s)) else Some (cnt, polls 1 s))"
  by (subst pit_wait.simps) (simp add: out2_high_0 [symmetric] Let_def inb_def polls_def io_def)

lemma pit_wait_Some:
  "\<forall>k<n. out2_high dev s k \<Longrightarrow> \<not> out2_high dev s n \<Longrightarrow> pit_wait dev cnt s = Some (cnt + of_nat n, polls (Suc n) s)"
proof (induction n arbitrary: cnt s)
  case 0
  then show ?case by (subst pit_wait_step) simp
next
  case (Suc n)
  then have "pit_wait dev (cnt + 1) (snd (inb dev 0x61 s))
      = Some (cnt + 1 + of_nat n, polls (Suc n) (snd (inb dev 0x61 s)))"
    by (intro Suc.IH) (auto simp: out2_high_Suc)
  moreover have "out2_high dev s 0" using Suc.prems by blast
  ultimately show ?case by (subst pit_wait_step) (simp add: polls_Suc add.commute)
qed

lemma pit_wait_None: "pit_wait dev cnt s = Some r \<Longrightarrow> \<exists>n. \<not> out2_high dev s n"
proof (erule pit_wait.raw_induct [where P = "\<lambda>dev cnt s r. \<exists>n. \<not> out2_high dev s n", rotated])
  fix f dev cnt r and s :: "'a hw_scheme"
  assume IH: "\<And>dev cnt (s :: 'a hw_scheme) r. f dev cnt s = Some r \<Longrightarrow> \<exists>n. \<not> out2_high dev s n"
    and eq: "(let r = inb dev 0x61 s in if fst r AND 0x20 \<noteq> 0 then f dev (cnt + 1) (snd r) else Some (cnt, snd r)) = Some r"
  show "\<exists>n. \<not> out2_high dev s n"
  proof (cases "out2_high dev s 0")
    case True
    with eq have "f dev (cnt + 1) (snd (inb dev 0x61 s)) = Some r"
      by (simp add: out2_high_0 [symmetric] Let_def)
    from IH [OF this] show ?thesis by (auto simp: out2_high_Suc)
  qed blast
qed

text \<open>The state in which the code starts to poll the interval timer.\<close>

definition wait_start :: "device \<Rightarrow> 'a apic_scheme \<Rightarrow> 'a apic_scheme" where
  "wait_start dev s =
     (case pit_prepare_sleep dev 10000 (lapic_write APIC_TMRDIV 0x3 s) of
        Inr t \<Rightarrow> pit_gate dev (lapic_write APIC_TMRINITCNT 0xFFFFFFFF t))"

lemma pit_prepare_10ms:
  "pit_prepare_sleep dev 10000 s =
     Inr (s\<lparr>io_log := [Out8 0x42 0x2e, In8 0x60, Out8 0x42 0x9b, Out8 0x43 0xb2,
       Out8 0x61 (ucast (dev (In8 0x61 # io_log s)) AND 0xfd OR 1), In8 0x61] @ io_log s\<rparr>)"
  by (simp add: pit_prepare_sleep_def io_defs Let_def signed_divide_int_def)

lemma ptr_hw_frame [simp]:
  "lapic_ptr (pit_gate dev s) = lapic_ptr s" "lapic_ptr (polls n s) = lapic_ptr s"
  by (simp_all add: pit_gate_def polls_def io_defs Let_def)

lemma wait_start_ptr: "lapic_ptr (wait_start dev s) = lapic_ptr s"
  by (simp add: wait_start_def pit_prepare_10ms)

text \<open>The result, when the \<open>n\<close>th poll is the first to see the output low.\<close>

lemma calibrate_apic_timer_eq:
  assumes n: "\<not> out2_high dev (wait_start dev s) n" "\<forall>k<n. out2_high dev (wait_start dev s) k"
  defines "r \<equiv> lapic_read dev APIC_TMRCURRCNT (lapic_write APIC_LVT_TMR APIC_DISABLE (polls (Suc n) (wait_start dev s)))"
  shows "calibrate_apic_timer dev s = Some (Inr (lapic_write APIC_TMRINITCNT ((0xFFFFFFFF - fst r) div 10)
      (lapic_write APIC_TMRDIV 3 (lapic_write APIC_LVT_TMR (32 OR TMR_PERIODIC) (snd r)))))"
proof -
  obtain t where prep: "pit_prepare_sleep dev 10000 (lapic_write APIC_TMRDIV 3 s) = Inr t"
    using pit_prepare_10ms by blast
  then have w: "wait_start dev s = pit_gate dev (lapic_write APIC_TMRINITCNT 0xFFFFFFFF t)" by (simp add: wait_start_def)
  have "pit_perform_sleep dev (lapic_write APIC_TMRINITCNT 0xFFFFFFFF t) = Some (of_nat n, polls (Suc n) (wait_start dev s))"
    using pit_wait_Some [of n dev "wait_start dev s" 0] n by (simp add: pit_perform_sleep_def w)
  then show ?thesis by (simp add: calibrate_apic_timer_def prep Let_def split_def r_def)
qed

text \<open>C30. \<open>calibrate_apic_timer\<close> returns exactly if the timer output bit is seen low some time; it then
  has polled up to the first low reading, and leaves the local APIC's timer periodic on vector 32
  with divider 16 and a tenth of the ticks it counted down as its period.\<close>

theorem calibrate_apic_timer_correct:
  "(calibrate_apic_timer dev s \<noteq> None \<longleftrightarrow> (\<exists>n. \<not> out2_high dev (wait_start dev s) n))
   \<and> (\<forall>n. \<not> out2_high dev (wait_start dev s) n \<and> (\<forall>k<n. out2_high dev (wait_start dev s) k) \<longrightarrow>
        (\<exists>t. calibrate_apic_timer dev s = Some (Inr t)
          \<and> (let w = lapic_write APIC_LVT_TMR APIC_DISABLE (polls (Suc n) (wait_start dev s));
                 count = fst (lapic_read dev APIC_TMRCURRCNT w);
                 reg = (\<lambda>k. lapic_view r0 (io_log t) (lapic_ptr s + k))
             in reg 0x380 = (0xFFFFFFFF - count) div 10 \<and> reg 0x320 = 0x20020 \<and> reg 0x3e0 = 3)))"
proof -
  let ?w = "wait_start dev s"
  obtain t where prep: "pit_prepare_sleep dev 10000 (lapic_write APIC_TMRDIV 3 s) = Inr t"
    using pit_prepare_10ms by blast
  then have w: "?w = pit_gate dev (lapic_write APIC_TMRINITCNT 0xFFFFFFFF t)" by (simp add: wait_start_def)
  have "calibrate_apic_timer dev s \<noteq> None \<longleftrightarrow> pit_wait dev 0 ?w \<noteq> None"
    by (simp add: calibrate_apic_timer_def prep w pit_perform_sleep_def Let_def split: option.split prod.split)
  moreover have "(\<exists>n. \<not> out2_high dev ?w n) \<Longrightarrow> \<exists>n. \<not> out2_high dev ?w n \<and> (\<forall>k<n. out2_high dev ?w k)"
    using exists_least_iff [of "\<lambda>n. \<not> out2_high dev ?w n"] by blast
  ultimately have ret: "calibrate_apic_timer dev s \<noteq> None \<longleftrightarrow> (\<exists>n. \<not> out2_high dev ?w n)"
    using pit_wait_None [of dev 0 ?w] pit_wait_Some [of _ dev ?w 0] by (metis not_Some_eq)
  have "\<exists>t. calibrate_apic_timer dev s = Some (Inr t)
          \<and> (let w = lapic_write APIC_LVT_TMR APIC_DISABLE (polls (Suc n) ?w);
                 count = fst (lapic_read dev APIC_TMRCURRCNT w);
                 reg = (\<lambda>k. lapic_view r0 (io_log t) (lapic_ptr s + k))
             in reg 0x380 = (0xFFFFFFFF - count) div 10 \<and> reg 0x320 = 0x20020 \<and> reg 0x3e0 = 3)"
    if n: "\<not> out2_high dev ?w n" "\<forall>k<n. out2_high dev ?w k" for n
  proof -
    define v where "v = lapic_write APIC_LVT_TMR APIC_DISABLE (polls (Suc n) ?w)"
    define r where "r = lapic_read dev APIC_TMRCURRCNT v"
    have "calibrate_apic_timer dev s = Some (Inr (lapic_write APIC_TMRINITCNT ((0xFFFFFFFF - fst r) div 10)
        (lapic_write APIC_TMRDIV 3 (lapic_write APIC_LVT_TMR (32 OR TMR_PERIODIC) (snd r)))))"
      unfolding r_def v_def by (rule calibrate_apic_timer_eq [OF n])
    moreover have "lapic_ptr (snd r) = lapic_ptr s"
      using wait_start_ptr [of dev s] by (simp add: r_def v_def lapic_read_def mmio_read_def io_def Let_def)
    ultimately show ?thesis
      by (simp add: Let_def v_def [symmetric] r_def [symmetric])
         (simp add: lapic_write_eq apic_regs)
  qed
  with ret show ?thesis by blast
qed

theorem calibrate_apic_timer_correct_witness:
  "calibrate_apic_timer (\<lambda>log. if length log < 13 then 0x20 else 0) apic0 \<noteq> None"
proof -
  let ?dev = "\<lambda>log :: io_event list. if length log < 13 then 0x20 else 0"
  have "\<not> out2_high ?dev (wait_start ?dev apic0) 20" by (simp add: out2_high_def polls_def)
  with calibrate_apic_timer_correct [of ?dev apic0 "\<lambda>_. 0"] show ?thesis by blast
qed

end
