(* ===== verification/Keyboard.thy ===== *)
theory Keyboard
  imports Apic
begin

text \<open>
  The PS/2 keyboard driver: \<^verbatim>\<open>src/keyboard.c\<close>, \<^verbatim>\<open>src/keyboard.h\<close> and the scan code tables of
  \<^verbatim>\<open>src/ps2_kbd_defs.h\<close>.

  The static variable \<open>shift\<close> of \<open>readcode\<close> is the field \<open>kbd_shift\<close>; the event bus is the field
  \<open>ebus\<close>. The controller is a device: it answers the reads of the status and the data port.
\<close>

section \<open>Scan code tables\<close>

definition KBSTATP :: u16 where "KBSTATP = 0x64"
definition KBS_DIB :: u32 where "KBS_DIB = 1"
definition KBDATAP :: u16 where "KBDATAP = 0x60"

definition SHIFT :: u32 where "SHIFT = push_bit 0 1"
definition CTL :: u32 where "CTL = push_bit 1 1"
definition ALT :: u32 where "ALT = push_bit 2 1"
definition CAPSLOCK :: u32 where "CAPSLOCK = push_bit 3 1"
definition NUMLOCK :: u32 where "NUMLOCK = push_bit 4 1"
definition SCROLLLOCK :: u32 where "SCROLLLOCK = push_bit 5 1"
definition E0ESC :: u32 where "E0ESC = push_bit 6 1"

text \<open>An array of 256 bytes with a list of leading elements and designated ones.\<close>

definition char_table :: "u8 list \<Rightarrow> (nat \<times> u8) list \<Rightarrow> u8 list" where
  "char_table first designated =
     fold (\<lambda>(i, c) xs. xs[i := c]) designated (first @ replicate (256 - length first) 0)"

definition C :: "string \<Rightarrow> u8 list" where
  "C keys = map (\<lambda>x. x - 64) (bytes keys)"

definition shiftcode :: "u8 list" where
  "shiftcode = char_table []
     [(0x1D, 2), (0x2A, 1), (0x36, 1), (0x38, 4), (0x9D, 2), (0xB8, 4)]"

definition togglecode :: "u8 list" where
  "togglecode = char_table [] [(0x3A, 8), (0x45, 16), (0x46, 32)]"

definition special_keys :: "(nat \<times> u8) list" where
  "special_keys = [(0xC8, 0xE2), (0xD0, 0xE3), (0xC9, 0xE6), (0xD1, 0xE7), (0xCB, 0xE4), (0xCD, 0xE5),
     (0x97, 0xE0), (0xCF, 0xE1), (0xD2, 0xE8), (0xD3, 0xE9)]"

definition normalmap :: "u8 list" where
  "normalmap = char_table
     ([0, 0x1B] @ bytes ''1234567890-='' @ [8, 9] @ bytes ''qwertyuiop[]'' @ [10, 0] @
      bytes ''asdfghjkl;'' @ [39, 96, 0, 92] @ bytes ''zxcvbnm,./'' @ [0, 42, 0, 32] @
      replicate 13 0 @ bytes ''789-456+1230.'' @ [0, 0, 0, 0])
     ([(0x9C, 10), (0xB5, 47)] @ special_keys)"

definition shiftmap :: "u8 list" where
  "shiftmap = char_table
     ([0, 27] @ bytes ''!@#$%^&*()_+'' @ [8, 9] @ bytes ''QWERTYUIOP{}'' @ [10, 0] @
      bytes ''ASDFGHJKL:'' @ [34, 126, 0, 124] @ bytes ''ZXCVBNM<>?'' @ [0, 42, 0, 32] @
      replicate 13 0 @ bytes ''789-456+1230.'' @ [0, 0, 0, 0])
     ([(0x9C, 10), (0xB5, 47)] @ special_keys)"

definition ctlmap :: "u8 list" where
  "ctlmap = char_table
     (replicate 16 0 @ C ''QWERTYUIOP'' @ [0, 0, 13, 0] @ C ''ASDFGHJKL'' @ [0, 0, 0, 0] @
      [92 - 64] @ C ''ZXCVBNM'' @ [0, 0] @ C ''/'' @ [0, 0])
     ([(0x9C, 13), (0xB5, 47 - 64)] @ special_keys)"

definition charcode :: "u8 list list" where
  "charcode = [normalmap, shiftmap, ctlmap, ctlmap]"

section \<open>The driver\<close>

record kbd = apic +
  kbd_shift :: u32
  ebus :: event_bus

text \<open>Reading an array element, and the next step of a computation that may fault. Every table access of
  \<open>readcode\<close> goes through \<open>elem\<close>, so an index outside a table is the fault \<open>Out_Of_Bounds\<close>.\<close>

definition elem :: "'a list \<Rightarrow> u32 \<Rightarrow> 'a result" where
  "elem xs i = (if unat i < length xs then Inr (xs ! unat i) else Inl Out_Of_Bounds)"

definition andthen :: "'a result \<Rightarrow> ('a \<Rightarrow> 'b result) \<Rightarrow> 'b result" where
  "andthen r f = (case r of Inl e \<Rightarrow> Inl e | Inr x \<Rightarrow> f x)"

text \<open>The part of \<open>readcode\<close> after both ports were read: the new shift state and the result.\<close>

definition decode :: "u32 \<Rightarrow> u32 \<Rightarrow> (u32 \<times> u32) result" where
  "decode data shift =
     (if data = 0xE0 then Inr (shift OR E0ESC, 0)
      else if data AND 0x80 \<noteq> 0 then
        let data = (if shift AND E0ESC \<noteq> 0 then data else data AND 0x7F)
        in andthen (elem shiftcode data) (\<lambda>sc. Inr (shift AND NOT (ucast sc OR E0ESC), 0))
      else
        let (data, shift) = (if shift AND E0ESC \<noteq> 0 then (data OR 0x80, shift AND NOT E0ESC) else (data, shift))
        in andthen (elem shiftcode data) (\<lambda>sc. let shift = shift OR ucast sc in
           andthen (elem togglecode data) (\<lambda>tc. let shift = shift XOR ucast tc in
           andthen (elem charcode (shift AND (CTL OR SHIFT))) (\<lambda>keymap.
           andthen (elem keymap data) (\<lambda>k.
             let c = ucast k;
                 c = (if shift AND CAPSLOCK \<noteq> 0 then
                        if 97 \<le> c \<and> c \<le> 122 then c + (65 - 97)
                        else if 65 \<le> c \<and> c \<le> 90 then c + (97 - 65) else c
                      else c)
             in Inr (shift, c))))))"

definition readcode :: "device \<Rightarrow> 'a kbd_scheme \<Rightarrow> (u32 \<times> 'a kbd_scheme) result" where
  "readcode dev s =
     (let (st, s) = inb dev KBSTATP s
      in if ucast st AND KBS_DIB = 0 then Inr (- 1, s)
         else let (data, s) = inb dev KBDATAP s
              in andthen (decode (ucast data) (kbd_shift s)) (\<lambda>(shift, c). Inr (c, s\<lparr>kbd_shift := shift\<rparr>)))"

text \<open>The size of \<^verbatim>\<open>struct keyboard_event\<close> is 12: two words of header and the keycode.\<close>

definition keyboard_irq ::
  "(u32 \<Rightarrow> keyboard_event \<Rightarrow> u32 \<Rightarrow> 'a kbd_scheme \<Rightarrow> 'a kbd_scheme) \<Rightarrow> device \<Rightarrow> 'a kbd_scheme \<Rightarrow> 'a kbd_scheme result" where
  "keyboard_irq call dev s =
     andthen (readcode dev s) (\<lambda>(code, s).
       let s = apic_eoi s;
           event = \<lparr>event_type = EVENT_KEY_PRESS, ev_length = 12, keycode = code\<rparr>
       in Inr (snd (fire_event call event (ebus s) s)))"

partial_function (option) kbd_ack_loop :: "device \<Rightarrow> 'a hw_scheme \<Rightarrow> 'a hw_scheme option" where
  "kbd_ack_loop dev s =
     (let r = inb dev KBSTATP s
      in if fst r = 0xFA \<or> fst r = 0xFE then Some (snd r) else kbd_ack_loop dev (snd r))"

definition turn_on_capslock_light :: "device \<Rightarrow> 'a hw_scheme \<Rightarrow> 'a hw_scheme option" where
  "turn_on_capslock_light dev s = kbd_ack_loop dev (outb KBDATAP 2 (outb KBSTATP 0xED s))"

section \<open>The tables\<close>

lemma fold_update_length: "length (fold (\<lambda>(i, c) xs. xs[i := c]) ds xs) = length xs"
  by (induction ds arbitrary: xs) auto

lemma length_tables [simp]:
  "length shiftcode = 256" "length togglecode = 256" "length normalmap = 256" "length shiftmap = 256" "length ctlmap = 256"
  by (simp_all add: shiftcode_def togglecode_def normalmap_def shiftmap_def ctlmap_def char_table_def
      fold_update_length bytes_def C_def)

lemma shiftcode_lt: "\<forall>d \<in> set [0..<256]. shiftcode ! d < 8"
  by code_simp

lemma togglecode_vals: "\<forall>d \<in> set [0..<256]. togglecode ! d \<in> {0, 8, 16, 32}"
  by code_simp

lemma letters:
  "\<forall>d \<in> set [0..<128]. 97 \<le> normalmap ! d \<and> normalmap ! d \<le> 122 \<longrightarrow>
     shiftmap ! d = normalmap ! d - 32 \<and> shiftcode ! d = 0 \<and> togglecode ! d = 0"
  by code_simp

section \<open>The shift state\<close>

lemma low7: "(x :: u32) < 128 \<longleftrightarrow> x AND 127 = x"
proof -
  have "unat (x AND 127) = unat x mod 128"
    using and_mask_unat [of x 7] by (simp add: mask_eq_exp_minus_1)
  then show ?thesis by (auto simp: word_less_nat_alt word_unat_eq_iff)
qed

lemma low7_or: "(x :: u32) < 128 \<Longrightarrow> y < 128 \<Longrightarrow> x OR y < 128"
  by (simp add: low7 bit.conj_disj_distrib2)

lemma low7_xor: "(x :: u32) < 128 \<Longrightarrow> y < 128 \<Longrightarrow> x XOR y < 128"
  by (simp add: low7 bit.conj_xor_distrib2)

lemma low7_and: "(x :: u32) < 128 \<Longrightarrow> x AND y < 128"
  by (simp add: low7) (metis and.assoc and.commute)

lemma ucast_u8_lt: "(ucast (c :: u8) :: u32) < 256"
  using u8_lt_256 [of c] by (simp add: word_less_nat_alt)

lemma table_lt128:
  assumes "d < 256"
  shows "(ucast (shiftcode ! d) :: u32) < 128" "(ucast (togglecode ! d) :: u32) < 128"
proof -
  have "shiftcode ! d < 8" using shiftcode_lt assms by auto
  then show "(ucast (shiftcode ! d) :: u32) < 128" by (simp add: word_less_nat_alt)
  have "togglecode ! d \<in> {0, 8, 16, 32}" using togglecode_vals assms by auto
  then show "(ucast (togglecode ! d) :: u32) < 128" by auto
qed

lemma or_80_lt: "(d :: u32) < 256 \<Longrightarrow> d OR 0x80 < 256"
proof -
  have *: "(x :: u32) < 256 \<longleftrightarrow> x AND 255 = x" for x
  proof -
    have "unat (x AND 255) = unat x mod 256"
      using and_mask_unat [of x 8] by (simp add: mask_eq_exp_minus_1)
    then show ?thesis by (auto simp: word_less_nat_alt word_unat_eq_iff)
  qed
  show "d < 256 \<Longrightarrow> d OR 0x80 < 256" by (simp add: * bit.conj_disj_distrib2)
qed

lemma and_7f_lt: "unat ((d :: u32) AND 0x7F) < 256"
  using and_mask_unat [of d 7] mod_less_divisor [of 128 "unat d"] by (simp add: mask_eq_exp_minus_1)

lemma caps_lt: "(c :: u32) < 256 \<Longrightarrow>
  (if 97 \<le> c \<and> c \<le> 122 then c + (65 - 97) else if 65 \<le> c \<and> c \<le> 90 then c + (97 - 65) else c) < 256"
proof -
  have "c - 32 < 256" if "97 \<le> c" "c \<le> 122"
    using that by (simp add: word_less_nat_alt word_le_nat_alt unat_sub)
  moreover have "c + 32 < 256" if "c \<le> 90"
    using that unat_add_lt [of c 32] by (simp add: word_less_nat_alt word_le_nat_alt)
  ultimately show "c < 256 \<Longrightarrow> ?thesis" by simp
qed

lemma andthen_simps [simp]: "andthen (Inr x) f = f x" "andthen (Inl e) f = Inl e"
  by (simp_all add: andthen_def)

lemma elem_shift: "unat d < 256 \<Longrightarrow> elem shiftcode d = Inr (shiftcode ! unat d)"
  and elem_toggle: "unat d < 256 \<Longrightarrow> elem togglecode d = Inr (togglecode ! unat d)"
  by (simp_all add: elem_def)

text \<open>The index into \<open>charcode\<close> has two bits, so it selects one of the four tables, each of 256 bytes.\<close>

lemma elem_charcode:
  obtains keymap where "elem charcode (shift AND (CTL OR SHIFT)) = Inr keymap" "keymap = charcode ! unat (shift AND 3)"
    "\<And>d. unat d < 256 \<Longrightarrow> elem keymap d = Inr (keymap ! unat d)"
proof -
  let ?i = "unat (shift AND (CTL OR SHIFT))"
  have i: "?i < 4" "CTL OR SHIFT = 3" using and_mask_unat [of shift 2] by (simp_all add: CTL_def SHIFT_def mask_eq_exp_minus_1)
  then have b: "?i < length charcode" by (simp add: charcode_def)
  then have c: "charcode ! ?i \<in> set charcode" by (rule nth_mem)
  have "\<forall>m \<in> set charcode. length m = 256" by (simp add: charcode_def)
  with c have l: "length (charcode ! ?i) = 256" by blast
  show ?thesis by (rule that [of "charcode ! ?i"]) (use b l i(2) in \<open>simp_all add: elem_def\<close>)
qed

definition kbd_inv :: "'a kbd_scheme \<Rightarrow> bool" where
  "kbd_inv s \<longleftrightarrow> kbd_shift s < 128"

text \<open>Decoding a byte never leaves a table, whatever the modifiers are.\<close>

lemma decode_result:
  assumes "data < 256"
  obtains sh c where "decode data shift = Inr (sh, c)" "shift < 128 \<longrightarrow> sh < 128" "c < 256"
    "data AND 0x80 \<noteq> 0 \<longrightarrow> c = 0"
proof -
  let ?d = "data OR 0x80" and ?r = "data AND 0x7F"
  have d: "unat data < 256" "unat ?d < 256" "unat ?r < 256"
    using assms or_80_lt [OF assms] and_7f_lt [of data] by (simp_all add: word_less_nat_alt)
  note el = elem_shift [OF d(1)] elem_shift [OF d(2)]
    elem_shift [OF d(3)] elem_toggle [OF d(1)] elem_toggle [OF d(2)]
  have pressed: "\<exists>sh (c :: u32). andthen (elem shiftcode x) (\<lambda>sc. let sft = s0 OR ucast sc in
           andthen (elem togglecode x) (\<lambda>tc. let sft = sft XOR ucast tc in
           andthen (elem charcode (sft AND (CTL OR SHIFT))) (\<lambda>keymap.
           andthen (elem keymap x) (\<lambda>k.
             let c = ucast k;
                 c = (if sft AND CAPSLOCK \<noteq> 0 then
                        if 97 \<le> c \<and> c \<le> 122 then c + (65 - 97)
                        else if 65 \<le> c \<and> c \<le> 90 then c + (97 - 65) else c
                      else c)
             in Inr (sft, c))))) = Inr (sh, c) \<and> (s0 < 128 \<longrightarrow> sh < 128) \<and> c < 256"
    if x: "unat x < 256" for x s0 :: u32
  proof -
    let ?sh = "(s0 OR ucast (shiftcode ! unat x)) XOR ucast (togglecode ! unat x)"
    obtain km where km: "elem charcode (?sh AND (CTL OR SHIFT)) = Inr km" "elem km x = Inr (km ! unat x)"
      by (rule elem_charcode [of ?sh]) (use x in blast)
    have sh: "s0 < 128 \<longrightarrow> ?sh < 128" using table_lt128 [OF x] by (simp add: low7_or low7_xor)
    let ?k = "ucast (km ! unat x) :: u32"
    have c: "(if P then if 97 \<le> ?k \<and> ?k \<le> 122 then ?k + (65 - 97) else if 65 \<le> ?k \<and> ?k \<le> 90 then ?k + (97 - 65) else ?k
        else ?k) < 256" for P
      using caps_lt [OF ucast_u8_lt, of "km ! unat x"] ucast_u8_lt [of "km ! unat x"] by (cases P) (simp_all only: if_True if_False)
    show ?thesis
      unfolding elem_shift [OF x] elem_toggle [OF x] andthen_simps Let_def km
      by (rule exI, rule exI, rule conjI [OF refl], rule conjI [OF sh c])
  qed
  have esc: "shift < 128 \<longrightarrow> shift AND NOT E0ESC < 128" by (simp add: low7_and)
  consider "data = 0xE0" | "data \<noteq> 0xE0" "data AND 0x80 \<noteq> 0" | "data \<noteq> 0xE0" "data AND 0x80 = 0" by blast
  then show ?thesis
  proof cases
    case 1
    then have "decode data shift = Inr (shift OR E0ESC, 0)" by (simp add: decode_def)
    then show ?thesis by (rule that) (simp_all add: E0ESC_def low7_or)
  next
    case 2
    let ?x = "if shift AND E0ESC \<noteq> 0 then data else data AND 0x7F"
    have "elem shiftcode ?x = Inr (shiftcode ! unat ?x)" using el(1,3) by simp
    with 2 have "decode data shift = Inr (shift AND NOT (ucast (shiftcode ! unat ?x) OR E0ESC), 0)"
      unfolding decode_def Let_def by simp
    then show ?thesis by (rule that) (simp_all add: low7_and)
  next
    case 3
    obtain sh c where "decode data shift = Inr (sh, c)" "shift < 128 \<longrightarrow> sh < 128" "c < 256"
    proof (cases "shift AND E0ESC = 0")
      case True
      with 3 pressed [OF d(1), of shift] that show ?thesis unfolding decode_def by auto
    next
      case False
      with 3 pressed [OF d(2), of "shift AND NOT E0ESC"] esc that show ?thesis unfolding decode_def by auto
    qed
    then show ?thesis by (rule that) (simp add: 3)
  qed
qed

lemma readcode_eq:
  "readcode dev s =
    (let log1 = In8 KBSTATP # io_log s; log2 = In8 KBDATAP # log1;
         st = ucast (dev log1) :: u8; data = ucast (dev log2) :: u8
     in if ucast st AND KBS_DIB = (0 :: u32) then Inr (- 1, s\<lparr>io_log := log1\<rparr>)
        else andthen (decode (ucast data) (kbd_shift s)) (\<lambda>(shift, c). Inr (c, s\<lparr>io_log := log2, kbd_shift := shift\<rparr>)))"
  by (simp add: readcode_def inb_def io_def Let_def split_def)

lemma readcode_result:
  obtains c l sh where "readcode dev s = Inr (c, s\<lparr>io_log := l, kbd_shift := sh\<rparr>)" "kbd_inv s \<longrightarrow> sh < 128"
proof -
  let ?data = "ucast (ucast (dev (In8 KBDATAP # In8 KBSTATP # io_log s)) :: u8) :: u32"
  obtain sh c where "decode ?data (kbd_shift s) = Inr (sh, c)" "kbd_shift s < 128 \<longrightarrow> sh < 128"
    using decode_result [OF ucast_u8_lt] by blast
  note d = this
  show ?thesis
  proof (cases "ucast (ucast (dev (In8 KBSTATP # io_log s)) :: u8) AND KBS_DIB = (0 :: u32)")
    case True
    then have "readcode dev s = Inr (- 1, s\<lparr>io_log := In8 KBSTATP # io_log s, kbd_shift := kbd_shift s\<rparr>)"
      by (simp add: readcode_eq Let_def)
    then show ?thesis by (rule that) (simp add: kbd_inv_def)
  next
    case False
    then have "readcode dev s = Inr (c, s\<lparr>io_log := In8 KBDATAP # In8 KBSTATP # io_log s, kbd_shift := sh\<rparr>)"
      using d(1) by (simp add: readcode_eq Let_def)
    then show ?thesis by (rule that) (use d(2) in \<open>simp add: kbd_inv_def\<close>)
  qed
qed

text \<open>C36. \<open>readcode\<close> never reads outside a scan code table: with the modifier state within its seven bits it returns
  without a fault, keeps the modifier state within its seven bits, and gives a byte, or \<open>- 1\<close> exactly when the
  controller has no data; in that case nothing but the status port was read.\<close>

theorem readcode_range:
  assumes "kbd_inv s"
  shows "\<exists>c t. readcode dev s = Inr (c, t) \<and> kbd_inv t
    \<and> (if ucast (ucast (dev (In8 KBSTATP # io_log s)) :: u8) AND KBS_DIB = (0 :: u32)
       then c = - 1 \<and> t = s\<lparr>io_log := In8 KBSTATP # io_log s\<rparr>
       else c < 256)"
proof -
  let ?data = "ucast (ucast (dev (In8 KBDATAP # In8 KBSTATP # io_log s)) :: u8) :: u32"
  obtain sh c where "decode ?data (kbd_shift s) = Inr (sh, c)" "kbd_shift s < 128 \<longrightarrow> sh < 128" "c < 256"
    using decode_result [OF ucast_u8_lt] by blast
  with assms show ?thesis by (simp add: readcode_eq kbd_inv_def Let_def)
qed

section \<open>Letters\<close>

lemma and_3_modes:
  assumes "(shift :: u32) AND 2 = 0"
  shows "unat (shift AND 3) = (if shift AND 1 \<noteq> 0 then 1 else 0)"
proof -
  have "shift AND 3 = (shift AND 2) OR (shift AND 1)"
    by (simp add: bit.conj_disj_distrib [symmetric])
  then have "shift AND 3 = of_bool (odd shift)" using assms by (simp add: and_one_eq mod_2_eq_odd)
  then show ?thesis by (simp add: and_one_eq mod_2_eq_odd)
qed

text \<open>With no control key down and no escape pending, a letter key gives that letter, upper case
  exactly when one of Shift and Caps Lock is on but not both, and leaves the modifiers alone.\<close>

lemma letter_case:
  assumes "d < 128" "97 \<le> normalmap ! d" "normalmap ! d \<le> 122"
    and "shift AND CTL = 0" "shift AND E0ESC = 0"
  shows "decode (of_nat d) shift = Inr (shift,
    if (shift AND SHIFT \<noteq> 0) \<noteq> (shift AND CAPSLOCK \<noteq> 0) then ucast (normalmap ! d) - 32 else ucast (normalmap ! d))"
proof -
  have l: "shiftmap ! d = normalmap ! d - 32" "shiftcode ! d = 0" "togglecode ! d = 0"
    using letters assms(1-3) by auto
  have u: "unat (of_nat d :: u32) = d" using assms(1) by (intro of_nat_less_u32) simp
  have lt: "(of_nat d :: u32) < 128" using assms(1) by (simp add: word_less_nat_alt u)
  have "(of_nat d :: u32) AND 0x80 = (of_nat d AND 127) AND 0x80" using lt by (simp add: low7)
  also have "\<dots> = 0" by (simp add: and.assoc)
  finally have hi: "(of_nat d :: u32) AND 0x80 = 0" .
  have ne: "(of_nat d :: u32) \<noteq> 0xE0" using lt by auto
  have n: "97 \<le> unat (normalmap ! d)" "unat (normalmap ! d) \<le> 122"
    using assms(2,3) by (simp_all add: word_le_nat_alt)
  have up: "unat (normalmap ! d - 32) = unat (normalmap ! d) - 32"
    using n unat_sub [of 32 "normalmap ! d"] by (simp add: word_le_nat_alt)
  have N: "97 \<le> (ucast (normalmap ! d) :: u32)" "(ucast (normalmap ! d) :: u32) \<le> 122"
    using n by (simp_all add: word_le_nat_alt)
  have U: "(ucast (normalmap ! d - 32) :: u32) = ucast (normalmap ! d) - 32"
    using n up unat_sub [of 32 "ucast (normalmap ! d) :: u32"] by (simp add: word_unat_eq_iff word_le_nat_alt)
  have R: "65 \<le> (ucast (normalmap ! d) - 32 :: u32)" "(ucast (normalmap ! d) - 32 :: u32) \<le> 90"
    "\<not> 97 \<le> (ucast (normalmap ! d) - 32 :: u32)"
    unfolding U [symmetric] using n by (simp_all add: word_le_nat_alt up)
  have "unat (shift AND 3) = (if shift AND SHIFT \<noteq> 0 then 1 else 0)"
    using and_3_modes [of shift] assms(4) by (simp add: CTL_def SHIFT_def)
  then have cc: "charcode ! unat (shift AND 3) = (if shift AND SHIFT \<noteq> 0 then shiftmap else normalmap)"
    by (simp add: charcode_def)
  obtain km where "elem charcode (shift AND (CTL OR SHIFT)) = Inr km" "km = charcode ! unat (shift AND 3)"
    "elem km (of_nat d) = Inr (km ! d)"
    by (rule elem_charcode [of shift]) (use u assms(1) in auto)
  note km = this(1,3) this(2) [unfolded cc]
  have el: "elem shiftcode (of_nat d) = Inr 0" "elem togglecode (of_nat d) = Inr 0"
    using u assms(1) l by (simp_all add: elem_def)
  have kd: "km ! d = (if shift AND SHIFT \<noteq> 0 then normalmap ! d - 32 else normalmap ! d)" using km(3) l(1) by simp
  show ?thesis
    using assms(5) by (simp add: decode_def hi ne el km(1,2) kd Let_def N U R)
qed

definition kbd0 :: kbd where
  "kbd0 = apic.extend apic0 \<lparr>kbd_shift = 0, ebus = empty_bus\<rparr>"

theorem readcode_range_witness: "\<exists>c t. readcode (\<lambda>_. 0x1F) kbd0 = Inr (c, t) \<and> kbd_inv t \<and> c < 256"
  using readcode_range [of kbd0 "\<lambda>_. 0x1F"] by (simp add: kbd_inv_def kbd0_def apic.defs KBS_DIB_def)

section \<open>From the interrupt to the screen\<close>

text \<open>Calling a callback address: the kernel registers one, \<open>handle_keypress\<close> at \<open>hk\<close>.\<close>

definition kernel_call :: "u32 \<Rightarrow> u32 \<Rightarrow> keyboard_event \<Rightarrow> u32 \<Rightarrow> 'a console_scheme \<Rightarrow> 'a console_scheme" where
  "kernel_call hk cb event a s = (if cb = hk then handle_keypress event a s else s)"

lemma handle_keypress_eq:
  "handle_keypress event a s = (if ucast (keycode event) = (0 :: u8) then s else terminal_write [ucast (keycode event)] 7 s)"
  by (simp add: handle_keypress_def terminal_writestring_def c_string_def vga_entry_color_def)

lemma ebus_frame [simp]: "ebus (apic_eoi s) = ebus s"
  by (simp add: apic_eoi_def lapic_write_eq)

lemma keyboard_irq_eq:
  assumes "bus_inv (ebus s)" "active (ebus s) = [\<lparr>cb_event_type = EVENT_KEY_PRESS, callback = hk, arg = NULL\<rparr>]"
    and "readcode dev s = Inr (code, u)" "ebus u = ebus s"
  shows "keyboard_irq (kernel_call hk) dev s =
    Inr (let c = ucast code :: u8; t = apic_eoi u in if c = 0 then t else terminal_write [c] 7 t)"
  using assms by (simp add: keyboard_irq_def Let_def fire_event_active deliver_def kernel_call_def handle_keypress_eq)

text \<open>C29. A keyboard interrupt on a kernel whose only callback is the console's: the end of interrupt
  is signalled, a scan code with bit 7 set (a release or an escape prefix) leaves the console
  alone, any other prints the byte \<open>decode\<close> gives unless that is zero; and when the controller
  has no data the byte \<open>0xFF\<close> is printed. \<open>t\<close> is the state \<open>readcode\<close> leaves, after the end of interrupt.\<close>

theorem keyboard_irq_prints:
  assumes "bus_inv (ebus s)" "active (ebus s) = [\<lparr>cb_event_type = EVENT_KEY_PRESS, callback = hk, arg = NULL\<rparr>]"
  shows "let log = In8 KBSTATP # io_log s; ready = ucast (ucast (dev log) :: u8) AND KBS_DIB \<noteq> (0 :: u32);
             data = ucast (ucast (dev (In8 KBDATAP # log)) :: u8) :: u32
         in \<exists>code u shift k. readcode dev s = Inr (code, u) \<and> decode data (kbd_shift s) = Inr (shift, k) \<and>
              keyboard_irq (kernel_call hk) dev s = Inr (let t = apic_eoi u; c = ucast k :: u8
                in if \<not> ready then terminal_write [0xFF] 7 t
                   else if data AND 0x80 \<noteq> 0 \<or> c = 0 then t else terminal_write [c] 7 t)"
proof -
  let ?log = "In8 KBSTATP # io_log s" and ?data = "ucast (ucast (dev (In8 KBDATAP # In8 KBSTATP # io_log s)) :: u8) :: u32"
  obtain shift k where d: "decode ?data (kbd_shift s) = Inr (shift, k)" "?data AND 0x80 \<noteq> 0 \<longrightarrow> k = 0"
    using decode_result [OF ucast_u8_lt] by blast
  have m1: "(ucast (- 1 :: u32) :: u8) = 255" by code_simp
  show ?thesis
  proof (cases "ucast (ucast (dev ?log) :: u8) AND KBS_DIB = (0 :: u32)")
    case True
    then have r: "readcode dev s = Inr (- 1, s\<lparr>io_log := ?log\<rparr>)" by (simp add: readcode_eq Let_def)
    from keyboard_irq_eq [OF assms r] d(1) r True show ?thesis by (simp add: Let_def m1)
  next
    case False
    then have r: "readcode dev s = Inr (k, s\<lparr>io_log := In8 KBDATAP # ?log, kbd_shift := shift\<rparr>)"
      using d(1) by (simp add: readcode_eq Let_def)
    from keyboard_irq_eq [OF assms r] d r False show ?thesis by (auto simp: Let_def)
  qed
qed

lemma register_kbd:
  "\<exists>b. register_event_callback EVENT_KEY_PRESS hk NULL empty_bus = Inr (0, b) \<and> bus_inv b
     \<and> active b = [\<lparr>cb_event_type = EVENT_KEY_PRESS, callback = hk, arg = NULL\<rparr>]"
proof -
  obtain b where "register_event_callback EVENT_KEY_PRESS hk NULL empty_bus = Inr (0, b)"
    by (simp add: register_event_callback_def callbacks_count_empty CALLBACKS_MAX_COUNT_def Let_def)
  with register_inv [OF bus_inv_empty this] show ?thesis by simp
qed

theorem keyboard_irq_prints_witness:
  "\<exists>b c u. bus_inv b \<and> readcode (\<lambda>_. 0) (kbd0\<lparr>ebus := b\<rparr>) = Inr (c, u)
     \<and> keyboard_irq (kernel_call 16) (\<lambda>_. 0) (kbd0\<lparr>ebus := b\<rparr>) = Inr (terminal_write [0xFF] 7 (apic_eoi u))"
proof -
  obtain b where "bus_inv b" "active b = [\<lparr>cb_event_type = EVENT_KEY_PRESS, callback = 16, arg = NULL\<rparr>]"
    using register_kbd by blast
  then show ?thesis using keyboard_irq_prints [of "kbd0\<lparr>ebus := b\<rparr>" 16 "\<lambda>_. 0"] by (auto simp: Let_def)
qed

end
