(* ===== verification/Descriptors.thy ===== *)
theory Descriptors
  imports Keyboard
begin

text \<open>
  Segment and interrupt descriptors: \<^verbatim>\<open>src/gdt.c\<close>, \<^verbatim>\<open>src/gdt.h\<close> and \<^verbatim>\<open>src/idt.c\<close>.

  The two tables are lists of descriptor records with the fields of the packed structs; loading the
  table registers is their copy in the state. \<open>seg_of\<close> and \<open>gate_of\<close> say what the processor reads
  out of a descriptor; they are the decoders of the locale \<open>codec\<close>, which is interpreted once for
  each table. The addresses of the tables, of the TSS and of the entry stubs are arguments.
\<close>

section \<open>Segments\<close>

record gdt_entry =
  limit_low :: u16
  base_low :: u16
  base_middle :: u8
  access :: u8
  limit_high :: u8
  base_high :: u8

record table_ptr =
  tp_limit :: u16
  tp_base :: u32

text \<open>The fields of \<^verbatim>\<open>struct tss\<close> that the kernel sets; the struct is 100 bytes long.\<close>

record tss =
  esp0 :: u32
  ss0 :: u16
  iopb :: u16

definition SIZEOF_TSS :: u32 where "SIZEOF_TSS = 4 + 4 + 2 + 2 + 4 * 21 + 2 + 2"

definition ACCESS_PRESENT :: u8 where "ACCESS_PRESENT = 0b10000000"
definition ACCESS_RING0 :: u8 where "ACCESS_RING0 = 0"
definition ACCESS_RING3 :: u8 where "ACCESS_RING3 = 0b01100000"
definition ACCESS_SEGMENT :: u8 where "ACCESS_SEGMENT = 0b00010000"
definition ACCESS_EXEC :: u8 where "ACCESS_EXEC = 0b00001000"
definition ACCESS_RW :: u8 where "ACCESS_RW = 0b00000010"

definition gdt_descr :: "u32 \<Rightarrow> u32 \<Rightarrow> u8 \<Rightarrow> gdt_entry" where
  "gdt_descr base lim acc =
     \<lparr>limit_low = ucast (lim AND 0xFFFF),
      base_low = ucast (base AND 0xFFFF),
      base_middle = ucast (drop_bit 16 base AND 0xFF),
      access = acc OR ACCESS_PRESENT,
      limit_high = ucast (drop_bit 16 lim AND 0x0F) OR 0b11000000,
      base_high = ucast (drop_bit 24 base AND 0xFF)\<rparr>"

definition gdt_register :: "nat \<Rightarrow> u32 \<Rightarrow> u32 \<Rightarrow> u8 \<Rightarrow> gdt_entry list \<Rightarrow> gdt_entry list" where
  "gdt_register idx base lim acc gdt = gdt[idx := gdt_descr base lim acc]"

record gdt_state =
  GDT :: "gdt_entry list"
  GDTPTR :: table_ptr
  gdtr :: table_ptr         \<comment> \<open>loaded by \<^verbatim>\<open>lgdt\<close>\<close>
  seg_ds :: u16             \<comment> \<open>\<^verbatim>\<open>ds\<close>, \<^verbatim>\<open>es\<close>, \<^verbatim>\<open>fs\<close>, \<^verbatim>\<open>gs\<close> and \<^verbatim>\<open>ss\<close>, always loaded together\<close>
  seg_cs :: u16
  task_reg :: u16

text \<open>\<^verbatim>\<open>ltr\<close> faults on a descriptor that is not an available TSS (type 9) and marks it busy
  (type 11) otherwise.\<close>

definition ltr :: "u16 \<Rightarrow> gdt_state \<Rightarrow> gdt_state result" where
  "ltr sel g =
     (let i = unat (drop_bit 3 sel) in
      if length (GDT g) \<le> i \<or> access (GDT g ! i) AND 0x9f \<noteq> 0x89 then Inl (Panic ''general protection'')
      else Inr (g\<lparr>GDT := (GDT g)[i := (GDT g ! i)\<lparr>access := access (GDT g ! i) OR 2\<rparr>], task_reg := sel\<rparr>))"

definition reload_tss :: "gdt_state \<Rightarrow> gdt_state result" where
  "reload_tss g =
     ltr 0x2b (g\<lparr>GDT := (GDT g)[5 := (GDT g ! 5)\<lparr>access := access (GDT g ! 5) AND 0b11111101\<rparr>]\<rparr>)"

definition init_gdt :: "u32 \<Rightarrow> u32 \<Rightarrow> gdt_state \<Rightarrow> gdt_state result" where
  "init_gdt TSS_addr GDT_addr g =
     (let t = GDT g;
          t = gdt_register 0 0 0 0 t;
          t = gdt_register 1 0 0xffffffff (ACCESS_RING0 OR ACCESS_SEGMENT OR ACCESS_EXEC OR ACCESS_RW) t;
          t = gdt_register 2 0 0xffffffff (ACCESS_RING0 OR ACCESS_SEGMENT OR ACCESS_RW) t;
          t = gdt_register 3 0 0xffffffff (ACCESS_RING3 OR ACCESS_SEGMENT OR ACCESS_EXEC OR ACCESS_RW) t;
          t = gdt_register 4 0 0xffffffff (ACCESS_RING3 OR ACCESS_SEGMENT OR ACCESS_RW) t;
          t = gdt_register 5 TSS_addr (SIZEOF_TSS - 1) (ACCESS_EXEC OR 1) t;
          ptr = \<lparr>tp_limit = 8 * 6 - 1, tp_base = GDT_addr\<rparr>
      in reload_tss (g\<lparr>GDT := t, GDTPTR := ptr, gdtr := ptr, seg_ds := 0x10, seg_cs := 0x08\<rparr>))"

text \<open>The routine of \<^verbatim>\<open>gdt.S\<close>, which does the same without \<open>reload_tss\<close>; nothing calls it.\<close>

definition load_gdt :: "table_ptr \<Rightarrow> gdt_state \<Rightarrow> gdt_state result" where
  "load_gdt ptr g =
     (case ltr 0x2b (g\<lparr>gdtr := ptr, seg_ds := 0x10\<rparr>) of Inl e \<Rightarrow> Inl e | Inr g \<Rightarrow> Inr (g\<lparr>seg_cs := 0x08\<rparr>))"

section \<open>Gates\<close>

record idt_entry =
  base_lo :: u16
  selector :: u16
  zero :: u8
  flags :: u8
  base_hi :: u16

record idt_state =
  IDT :: "idt_entry list"
  IDTPTR :: table_ptr
  idtr :: table_ptr         \<comment> \<open>loaded by \<^verbatim>\<open>lidt\<close>\<close>

definition idt_gate :: "u32 \<Rightarrow> u16 \<Rightarrow> u8 \<Rightarrow> idt_entry" where
  "idt_gate base sel flg =
     \<lparr>base_lo = ucast (base AND 0xFFFF), selector = sel, zero = 0, flags = flg,
      base_hi = ucast (drop_bit 16 base AND 0xFFFF)\<rparr>"

definition idt_register :: "u8 \<Rightarrow> u32 \<Rightarrow> u16 \<Rightarrow> u8 \<Rightarrow> idt_entry list \<Rightarrow> idt_entry list" where
  "idt_register pos base sel flg idt = idt[unat pos := idt_gate base sel flg]"

definition REGISTER_IRQ :: "u8 \<Rightarrow> u32 \<Rightarrow> u16 \<Rightarrow> u8 \<Rightarrow> idt_entry list \<Rightarrow> idt_entry list" where
  "REGISTER_IRQ n stub sel flg idt = idt_register n stub sel (flg OR 0b10000000) idt"

definition GATE_INTERRUPT :: u8 where "GATE_INTERRUPT = 0b1110"
definition GATE_TRAP :: u8 where "GATE_TRAP = 0b1111"
definition DPL_USER :: u8 where "DPL_USER = 0b01100000"

text \<open>The entry stubs of \<^verbatim>\<open>irq.S\<close>.\<close>

record stubs =
  pagefault_stub :: u32
  timer_stub :: u32
  spurious_stub :: u32
  keyboard_stub :: u32
  ide_stub1 :: u32
  ide_stub2 :: u32
  syscall_stub :: u32

definition init_idt :: "stubs \<Rightarrow> u32 \<Rightarrow> idt_state \<Rightarrow> idt_state" where
  "init_idt st IDT_addr i =
     (let ptr = \<lparr>tp_limit = 8 * 256 - 1, tp_base = IDT_addr\<rparr>;
          t = IDT i;
          t = REGISTER_IRQ 14 (pagefault_stub st) 0x08 GATE_INTERRUPT t;
          t = REGISTER_IRQ 32 (timer_stub st) 0x08 GATE_INTERRUPT t;
          t = REGISTER_IRQ 39 (spurious_stub st) 0x08 GATE_INTERRUPT t;
          t = REGISTER_IRQ 40 (keyboard_stub st) 0x08 GATE_INTERRUPT t;
          t = REGISTER_IRQ 41 (ide_stub1 st) 0x08 GATE_INTERRUPT t;
          t = REGISTER_IRQ 42 (ide_stub2 st) 0x08 GATE_INTERRUPT t;
          t = REGISTER_IRQ 128 (syscall_stub st) 0x08 (GATE_TRAP OR DPL_USER) t
      in i\<lparr>IDT := t, IDTPTR := ptr, idtr := ptr\<rparr>)"

definition dummy_irq :: "'a apic_scheme \<Rightarrow> 'a apic_scheme" where
  "dummy_irq s = s"

definition spurious_irq :: "'a apic_scheme \<Rightarrow> 'a apic_scheme" where
  "spurious_irq s = apic_eoi s"

section \<open>What the processor reads\<close>

text \<open>Base, byte limit (the granularity bit scales it by 4 KiB), access byte.\<close>

definition seg_of :: "gdt_entry \<Rightarrow> u32 \<times> u32 \<times> u8" where
  "seg_of e =
     (let lim = ucast (limit_low e) OR push_bit 16 (ucast (limit_high e AND 0x0F))
      in (ucast (base_low e) OR push_bit 16 (ucast (base_middle e)) OR push_bit 24 (ucast (base_high e)),
          if limit_high e AND 0x80 \<noteq> 0 then push_bit 12 lim OR 0xFFF else lim,
          access e))"

text \<open>Target, selector, flags.\<close>

definition gate_of :: "idt_entry \<Rightarrow> u32 \<times> u16 \<times> u8" where
  "gate_of e = (ucast (base_lo e) OR push_bit 16 (ucast (base_hi e)), selector e, flags e)"

text \<open>A table of encoded descriptors: writing a descriptor is writing what it encodes.\<close>

locale codec =
  fixes enc :: "'f \<Rightarrow> 'd" and dec :: "'d \<Rightarrow> 'v" and view :: "'f \<Rightarrow> 'v"
  assumes dec_enc: "dec (enc f) = view f"
begin

lemma dec_update: "map dec (ds[i := enc f]) = (map dec ds)[i := view f]"
  by (simp add: map_update dec_enc)

lemma dec_nth_update: "i < length ds \<Longrightarrow> dec (ds[i := enc f] ! j) = (if j = i then view f else dec (ds ! j))"
  by (simp add: nth_list_update dec_enc)

end

lemma base_bits:
  "ucast (ucast (b AND 0xFFFF) :: u16) OR push_bit 16 (ucast (ucast (drop_bit 16 b AND 0xFF) :: u8))
     OR push_bit 24 (ucast (ucast (drop_bit 24 b AND 0xFF) :: u8)) = (b :: u32)"
proof (rule bit_word_eqI)
  have m: "(0xFFFF :: u32) = mask 16" "(0xFF :: u32) = mask 8" by (simp_all add: mask_eq_exp_minus_1)
  fix n assume n: "n < LENGTH(32)"
  show "bit (ucast (ucast (b AND 0xFFFF) :: u16) OR push_bit 16 (ucast (ucast (drop_bit 16 b AND 0xFF) :: u8))
     OR push_bit 24 (ucast (ucast (drop_bit 24 b AND 0xFF) :: u8)) :: u32) n = bit b n"
    unfolding m using n
    by (simp add: bit_simps) (cases "n < 16"; cases "n < 24"; auto)
qed

lemma target_bits:
  "ucast (ucast (b AND 0xFFFF) :: u16) OR push_bit 16 (ucast (ucast (drop_bit 16 b AND 0xFFFF) :: u16)) = (b :: u32)"
proof (rule bit_word_eqI)
  have m: "(0xFFFF :: u32) = mask 16" by (simp add: mask_eq_exp_minus_1)
  fix n assume n: "n < LENGTH(32)"
  show "bit (ucast (ucast (b AND 0xFFFF) :: u16) OR push_bit 16 (ucast (ucast (drop_bit 16 b AND 0xFFFF) :: u16)) :: u32) n
     = bit b n"
    unfolding m using n by (simp add: bit_simps) (cases "n < 16"; auto)
qed

lemma limit_bits:
  "ucast (ucast (l AND 0xFFFF) :: u16) OR push_bit 16 (ucast ((ucast (drop_bit 16 l AND 0x0F) OR 0b11000000 :: u8) AND 0x0F))
     = (l :: u32) AND 0xFFFFF"
proof (rule bit_word_eqI)
  have m: "(0xFFFF :: u32) = mask 16" "(0x0F :: u32) = mask 4" "(0x0F :: u8) = mask 4" "(0xFFFFF :: u32) = mask 20"
    by (simp_all add: mask_eq_exp_minus_1)
  have c: "bit (0b11000000 :: u8) k \<longleftrightarrow> k = 6 \<or> k = 7" for k
  proof -
    have "(0b11000000 :: u8) = 2 ^ 6 OR 2 ^ 7" by simp
    then show ?thesis by (simp only: bit_or_iff bit_exp_iff) auto
  qed
  fix n assume n: "n < LENGTH(32)"
  show "bit (ucast (ucast (l AND 0xFFFF) :: u16)
      OR push_bit 16 (ucast ((ucast (drop_bit 16 l AND 0x0F) OR 0b11000000 :: u8) AND 0x0F)) :: u32) n = bit (l AND 0xFFFFF) n"
    unfolding m using n c [of "n - 16"]
    by (simp add: bit_simps del: bit_numeral_word_iff) (cases "n < 16"; cases "n < 20"; auto simp: bit_simps)
qed

lemma granularity: "(ucast (drop_bit 16 (l :: u32) AND 0x0F) OR 0b11000000 :: u8) AND 0x80 \<noteq> 0"
proof -
  have "bit ((ucast (drop_bit 16 l AND 0x0F) OR 0b11000000 :: u8) AND 0x80) 7"
    by (simp add: bit_and_iff bit_or_iff)
  then show ?thesis by (metis bit_0_eq bot_apply bot_bool_def)
qed

lemma seg_of_gdt_descr: "seg_of (gdt_descr b l a) = (b, push_bit 12 (l AND 0xFFFFF) OR 0xFFF, a OR 0x80)"
  unfolding seg_of_def gdt_descr_def ACCESS_PRESENT_def
  by (simp only: gdt_entry.simps base_bits limit_bits granularity Let_def) simp

lemma gate_of_idt_gate: "gate_of (idt_gate b sel f) = (b, sel, f)"
  by (simp only: idt_gate_def gate_of_def idt_entry.simps target_bits)

interpretation gdt: codec "\<lambda>(b, l, a). gdt_descr b l a" seg_of
  "\<lambda>(b, l, a). (b, push_bit 12 (l AND 0xFFFFF) OR 0xFFF, a OR 0x80)"
  by unfold_locales (auto simp only: seg_of_gdt_descr split: prod.split)

interpretation idt: codec "\<lambda>(b, sel, f). idt_gate b sel f" gate_of "\<lambda>f. f"
  by unfold_locales (auto simp only: gate_of_idt_gate split: prod.split)

lemma idt_register_gate:
  "unat pos < length t \<Longrightarrow> gate_of (idt_register pos b sel f t ! v) = (if v = unat pos then (b, sel, f) else gate_of (t ! v))"
  using idt.dec_nth_update [of "unat pos" t "(b, sel, f)" v] by (simp add: idt_register_def)

lemma length_idt_register [simp]: "length (idt_register pos b sel f t) = length t"
  by (simp add: idt_register_def)

lemma gdt_register_segs:
  "map seg_of (gdt_register idx b l a t) = (map seg_of t)[idx := (b, push_bit 12 (l AND 0xFFFFF) OR 0xFFF, a OR 0x80)]"
  using gdt.dec_update [of t idx "(b, l, a)"] by (simp add: gdt_register_def)

section \<open>Properties\<close>

lemma init_gdt_result:
  assumes "length (GDT g) = 6"
  shows "\<exists>g'. init_gdt TSS_addr GDT_addr g = Inr g'
    \<and> map seg_of (tl (GDT g')) = [(0, 0xffffffff, 0x9a), (0, 0xffffffff, 0x92), (0, 0xffffffff, 0xfa), (0, 0xffffffff, 0xf2),
        (TSS_addr, 100 * 4096 - 1, 0x8b)]
    \<and> seg_cs g' = 0x08 \<and> seg_ds g' = 0x10 \<and> task_reg g' = 0x2b
    \<and> gdtr g' = \<lparr>tp_limit = 47, tp_base = GDT_addr\<rparr>
    \<and> reload_tss g' = Inr g'"
proof -
  obtain a b c d e f where g: "GDT g = [a, b, c, d, e, f]"
    using assms by (auto simp: numeral_eq_Suc length_Suc_conv)
  note access_defs = ACCESS_RING0_def ACCESS_RING3_def ACCESS_SEGMENT_def ACCESS_EXEC_def ACCESS_RW_def
  have acc: "access (gdt_descr x l y) = y OR 0x80" for x l y by (simp add: gdt_descr_def ACCESS_PRESENT_def)
  have upd: "seg_of (gdt_entry.access_update h e) = (case seg_of e of (b, l, a) \<Rightarrow> (b, l, h a))" for h e
    by (simp add: seg_of_def Let_def)
  show ?thesis
    by (simp add: init_gdt_def reload_tss_def ltr_def gdt_register_def g Let_def acc access_defs upd
        seg_of_gdt_descr SIZEOF_TSS_def)
qed

text \<open>Unlike \<open>reload_tss\<close>, \<open>load_gdt\<close> leaves the busy bit alone, so it cannot run after \<open>init_gdt\<close>.\<close>

lemma load_gdt_after_init:
  assumes "length (GDT g) = 6" "init_gdt TSS_addr GDT_addr g = Inr g'"
  shows "load_gdt ptr g' = Inl (Panic ''general protection'')"
proof -
  have "map seg_of (tl (GDT g')) ! 4 = (TSS_addr, 100 * 4096 - 1, 0x8b)" "length (map seg_of (tl (GDT g'))) = 5"
    using init_gdt_result [OF assms(1), of TSS_addr GDT_addr] assms(2) by auto
  then have "access (GDT g' ! 5) = 0x8b" by (simp add: nth_tl seg_of_def Let_def)
  then show ?thesis by (simp add: load_gdt_def ltr_def)
qed

text \<open>C25. After \<open>init_gdt\<close> the processor sees flat 4 GiB code and data segments for ring 0 at selectors
  \<open>0x08\<close> and \<open>0x10\<close> and for ring 3 at \<open>0x1b\<close> and \<open>0x23\<close>, the data and code selectors of ring 0 are
  loaded, and so is the task register, with the busy descriptor of the kernel's TSS; \<open>reload_tss\<close>
  then succeeds any number of times and changes nothing.\<close>

theorem init_gdt_segments:
  assumes "length (GDT g) = 6"
  shows "\<exists>g'. init_gdt TSS_addr GDT_addr g = Inr g'
    \<and> map seg_of (tl (GDT g')) = [(0, 0xffffffff, 0x9a), (0, 0xffffffff, 0x92), (0, 0xffffffff, 0xfa), (0, 0xffffffff, 0xf2),
        (TSS_addr, 100 * 4096 - 1, 0x8b)]
    \<and> seg_cs g' = 0x08 \<and> seg_ds g' = 0x10 \<and> task_reg g' = 0x2b
    \<and> gdtr g' = \<lparr>tp_limit = 47, tp_base = GDT_addr\<rparr>
    \<and> reload_tss g' = Inr g'"
  by (rule init_gdt_result [OF assms])

definition gdt0 :: gdt_state where
  "gdt0 = \<lparr>GDT = replicate 6 \<lparr>limit_low = 0, base_low = 0, base_middle = 0, access = 0, limit_high = 0, base_high = 0\<rparr>,
     GDTPTR = \<lparr>tp_limit = 0, tp_base = 0\<rparr>, gdtr = \<lparr>tp_limit = 0, tp_base = 0\<rparr>, seg_ds = 0, seg_cs = 0, task_reg = 0\<rparr>"

theorem init_gdt_segments_witness:
  "\<exists>g'. init_gdt 0xc0120000 0xc0121000 gdt0 = Inr g' \<and> task_reg g' = 0x2b \<and> reload_tss g' = Inr g'"
  using init_gdt_segments [of gdt0 "0xc0120000" "0xc0121000"] by (auto simp: gdt0_def)

text \<open>C26. After \<open>init_idt\<close> exactly the seven vectors of the kernel are present and each gate leads to its
  stub in the kernel's code segment; of all of them only the system call vector 128 may be called
  from user mode.\<close>

theorem init_idt_gates:
  assumes "length (IDT i) = 256" "\<forall>e \<in> set (IDT i). flags e = 0"
  shows "let gate = (\<lambda>v. gate_of (IDT (init_idt st IDT_addr i) ! v)); fl = (\<lambda>v. snd (snd (gate v)))
     in gate 14 = (pagefault_stub st, 0x08, 0x8e) \<and> gate 32 = (timer_stub st, 0x08, 0x8e)
      \<and> gate 39 = (spurious_stub st, 0x08, 0x8e) \<and> gate 40 = (keyboard_stub st, 0x08, 0x8e)
      \<and> gate 41 = (ide_stub1 st, 0x08, 0x8e) \<and> gate 42 = (ide_stub2 st, 0x08, 0x8e)
      \<and> gate 128 = (syscall_stub st, 0x08, 0xef)
      \<and> (\<forall>v<256. fl v AND 0x80 \<noteq> 0 \<longleftrightarrow> v \<in> {14, 32, 39, 40, 41, 42, 128})
      \<and> (\<forall>v<256. fl v AND 0x80 \<noteq> 0 \<and> fl v AND 0x60 = 0x60 \<longleftrightarrow> v = 128)"
proof -
  have old: "snd (snd (gate_of (IDT i ! v))) = 0" if "v < 256" for v
    using assms that by (simp add: gate_of_def)
  show ?thesis
    using assms(1) old
    by (auto simp: init_idt_def REGISTER_IRQ_def Let_def idt_register_gate
        GATE_INTERRUPT_def GATE_TRAP_def DPL_USER_def)
qed

definition idt0 :: idt_state where
  "idt0 = \<lparr>IDT = replicate 256 (idt_gate 0 0 0), IDTPTR = \<lparr>tp_limit = 0, tp_base = 0\<rparr>, idtr = \<lparr>tp_limit = 0, tp_base = 0\<rparr>\<rparr>"

definition stubs0 :: stubs where
  "stubs0 = \<lparr>pagefault_stub = 0xc0101000, timer_stub = 0xc0101100, spurious_stub = 0xc0101200, keyboard_stub = 0xc0101300,
     ide_stub1 = 0xc0101400, ide_stub2 = 0xc0101500, syscall_stub = 0xc0101600\<rparr>"

theorem init_idt_gates_witness:
  "gate_of (IDT (init_idt stubs0 0xc0110000 idt0) ! 128) = (0xc0101600, 0x08, 0xef)"
  using init_idt_gates [of idt0 stubs0 "0xc0110000"]
  by (simp add: idt0_def idt_gate_def Let_def stubs0_def)

end
