(* ===== verification/Sched.thy ===== *)
theory Sched
  imports Descriptors
begin

text \<open>
  Tasks, context switches and the scheduler: \<^verbatim>\<open>src/sched.c\<close>, \<^verbatim>\<open>src/sched.h\<close>, \<^verbatim>\<open>src/sched.S\<close>, with the timer
  interrupt of \<^verbatim>\<open>src/timer.c\<close> and the page fault handler of \<^verbatim>\<open>src/paging.c\<close>.

  A \<^verbatim>\<open>struct task*\<close> is an index of the array \<open>tasks\<close>, and \<^verbatim>\<open>current\<close> an index or nothing. The
  callee-saved registers are the field \<open>cpu\<close>; \<open>asm_switch_to\<close> saves them in one context, loads the
  other and pops the return address off the new stack. The kernel stacks are pages of the byte
  memory, where \<open>task_setup\<close> builds the interrupt frame of a new task.

  \<^verbatim>\<open>scheduler_start\<close> never returns and is suspended inside \<open>switch_to\<close> while a task runs, so it is a
  step relation over a program point; \<open>task_step\<close> adds what a running task or an interrupt can do.
\<close>

section \<open>State\<close>

definition ENOSYS :: u32 where "ENOSYS = 1"
definition ENOMEM :: u32 where "ENOMEM = 2"
definition EAGAIN :: u32 where "EAGAIN = 3"
definition EINVAL :: u32 where "EINVAL = 4"

datatype task_state = TASK_NOT_ALLOCATED | TASK_RUNNING | TASK_WAITING | TASK_DISK_READ

record cpu_context =
  c_esp :: u32
  c_ebp :: u32
  c_esi :: u32
  c_edi :: u32
  c_ebx :: u32

record task =
  pid :: u32
  state :: task_state
  ctx :: cpu_context
  regs_ptr :: u32
  kstack :: u32
  ticks_remaining :: u32
  exitcode :: u32

definition MAX_TASKS :: nat where "MAX_TASKS = 256"
definition KERNEL_STACK_SIZE :: u32 where "KERNEL_STACK_SIZE = 4096"
definition SIZEOF_REGS :: u32 where "SIZEOF_REGS = 60"

record sched = kbd +
  tasks :: "task list"
  current :: "nat option"
  scheduler_context :: cpu_context
  cpu :: cpu_context
  eip :: u32
  TSS :: tss
  gdts :: gdt_state
  timer_ticks :: u64

definition upd_task :: "nat \<Rightarrow> (task \<Rightarrow> task) \<Rightarrow> 'a sched_scheme \<Rightarrow> 'a sched_scheme" where
  "upd_task i f s = s\<lparr>tasks := (tasks s)[i := f (tasks s ! i)]\<rparr>"

section \<open>New tasks\<close>

text \<open>\<^verbatim>\<open>struct regs\<close> in memory: seven words, four segment selectors, six words.\<close>

definition load_regs :: "mem \<Rightarrow> u32 \<Rightarrow> regs" where
  "load_regs m p =
     \<lparr>r_ebp = load32 m p, r_edi = load32 m (p + 4), r_esi = load32 m (p + 8), r_edx = load32 m (p + 12),
      r_ecx = load32 m (p + 16), r_ebx = load32 m (p + 20), r_eax = load32 m (p + 24),
      r_gs = load16 m (p + 28), r_fs = load16 m (p + 30), r_es = load16 m (p + 32), r_ds = load16 m (p + 34),
      r_error_code = load32 m (p + 36), r_eip = load32 m (p + 40), r_cs = load32 m (p + 44),
      r_eflags = load32 m (p + 48), r_esp = load32 m (p + 52), r_ss = load32 m (p + 56)\<rparr>"

definition zero_ctx :: cpu_context where
  "zero_ctx = \<lparr>c_esp = 0, c_ebp = 0, c_esi = 0, c_edi = 0, c_ebx = 0\<rparr>"

definition setup_frame :: "u32 \<Rightarrow> u32 \<Rightarrow> u32 \<Rightarrow> mem \<Rightarrow> mem" where
  "setup_frame jump_userspace task_init esp m =
     (let m = memset m esp 0 SIZEOF_REGS;
          m = store32 m (esp + 44) 0x1b;
          m = store16 m (esp + 34) 0x23;
          m = store16 m (esp + 32) 0x23;
          m = store16 m (esp + 30) 0x23;
          m = store16 m (esp + 28) 0x23;
          m = store32 m (esp + 56) 0x23;
          m = store32 m (esp + 48) (push_bit 9 1);
          m = store32 m (esp - 4) jump_userspace
      in store32 m (esp - 4 - 4) task_init)"

text \<open>The addresses of \<^verbatim>\<open>__jump_userspace\<close> and \<^verbatim>\<open>task_init\<close> are arguments. The result is the C return
  value.\<close>

definition task_setup :: "u32 \<Rightarrow> u32 \<Rightarrow> nat \<Rightarrow> 'a sched_scheme \<Rightarrow> u32 \<times> 'a sched_scheme" where
  "task_setup jump_userspace task_init n s =
     (let i = n - 1;
          s = upd_task i (\<lambda>t. t\<lparr>pid := of_nat n, state := TASK_RUNNING\<rparr>) s;
          (p, s) = kalloc s;
          s = upd_task i (\<lambda>t. t\<lparr>kstack := p\<rparr>) s
      in if kstack (tasks s ! i) = NULL then (- ENOMEM, s)
         else
           let esp = kstack (tasks s ! i) + KERNEL_STACK_SIZE - SIZEOF_REGS;
               s = s\<lparr>ram := setup_frame jump_userspace task_init esp (ram s)\<rparr>;
               s = upd_task i (\<lambda>t. t\<lparr>regs_ptr := esp, ctx := zero_ctx\<lparr>c_esp := esp - 8, c_ebp := esp - 8\<rparr>\<rparr>) s
           in (0, s))"

definition task_allocate :: "u32 \<Rightarrow> u32 \<Rightarrow> 'a sched_scheme \<Rightarrow> u32 \<times> nat option \<times> 'a sched_scheme" where
  "task_allocate jump_userspace task_init s =
     (case find (\<lambda>i. state (tasks s ! i) = TASK_NOT_ALLOCATED) [0..<MAX_TASKS] of
        None \<Rightarrow> (- EAGAIN, None, s)
      | Some i \<Rightarrow>
          let (err, s) = task_setup jump_userspace task_init (i + 1) s
          in if err \<noteq> 0 then (err, None, s) else (0, Some i, s))"

section \<open>Switching\<close>

text \<open>\<^verbatim>\<open>__switch_to\<close>: the result is what is stored in the first context, and the registers and the
  instruction pointer after the \<^verbatim>\<open>ret\<close> on the second.\<close>

definition asm_switch_to :: "mem \<Rightarrow> cpu_context \<Rightarrow> cpu_context \<Rightarrow> cpu_context \<times> cpu_context \<times> u32" where
  "asm_switch_to m regs to = (regs, to\<lparr>c_esp := c_esp to + 4\<rparr>, load32 m (c_esp to))"

text \<open>\<open>switch_to\<close> up to the call of \<^verbatim>\<open>__switch_to\<close>, and the whole of it. An interrupt that arrives in between finds
  the state \<open>switch_prepare\<close> leaves.\<close>

definition switch_prepare :: "nat \<Rightarrow> 'a sched_scheme \<Rightarrow> 'a sched_scheme result" where
  "switch_prepare i s =
     (let s = s\<lparr>TSS := \<lparr>esp0 = kstack (tasks s ! i) + KERNEL_STACK_SIZE, ss0 = 0x10, iopb = 0xffff\<rparr>\<rparr>
      in case reload_tss (gdts s) of Inl e \<Rightarrow> Inl e
         | Inr g \<Rightarrow> Inr (s\<lparr>gdts := g, current := Some i\<rparr>))"

definition switch_to :: "nat \<Rightarrow> 'a sched_scheme \<Rightarrow> 'a sched_scheme result" where
  "switch_to i s =
     (case switch_prepare i s of Inl e \<Rightarrow> Inl e
      | Inr s \<Rightarrow>
          let (saved, regs, pc) = asm_switch_to (ram s) (cpu s) (ctx (tasks s ! i))
          in Inr (s\<lparr>scheduler_context := saved, cpu := regs, eip := pc\<rparr>))"

definition reschedule :: "'a sched_scheme \<Rightarrow> 'a sched_scheme result" where
  "reschedule s =
     (case current s of None \<Rightarrow> Inl (Panic ''bug: 'current == NULL' '')
      | Some old \<Rightarrow>
          let s = s\<lparr>current := None\<rparr>;
              (saved, regs, pc) = asm_switch_to (ram s) (cpu s) (scheduler_context s)
          in Inr ((upd_task old (\<lambda>t. t\<lparr>ctx := saved\<rparr>) s)\<lparr>cpu := regs, eip := pc\<rparr>))"

definition do_idle :: "'a sched_scheme \<Rightarrow> 'a sched_scheme" where
  "do_idle s = s"

section \<open>Ticks and interrupts\<close>

definition tick_task :: "task \<Rightarrow> task" where
  "tick_task t =
     (if state t = TASK_WAITING then
        let t = t\<lparr>ticks_remaining := ticks_remaining t - 1\<rparr>
        in if ticks_remaining t = 0 then t\<lparr>state := TASK_RUNNING\<rparr> else t
      else t)"

definition scheduler_tick :: "'a sched_scheme \<Rightarrow> 'a sched_scheme result" where
  "scheduler_tick s =
     (let s = s\<lparr>tasks := fold (\<lambda>i ts. ts[i := tick_task (ts ! i)]) [0..<MAX_TASKS] (tasks s)\<rparr>
      in if current s \<noteq> None then reschedule s else Inr s)"

definition ata_tick :: "'a sched_scheme \<Rightarrow> 'a sched_scheme" where
  "ata_tick s = s"

definition timer_irq :: "'a sched_scheme \<Rightarrow> 'a sched_scheme result" where
  "timer_irq s =
     (let s = s\<lparr>timer_ticks := timer_ticks s + 1\<rparr>;
          s = apic_eoi s;
          s = ata_tick s
      in scheduler_tick s)"

definition pagefault_irq :: "regs \<Rightarrow> 'a sched_scheme \<Rightarrow> 'a sched_scheme result" where
  "pagefault_irq rg s =
     (if \<not> is_userspace rg then Inl (Panic ''pagefault in kernel space'') else Inr s)"

section \<open>The scheduler as a transition system\<close>

text \<open>The program points of \<^verbatim>\<open>scheduler_start\<close>: about to look at \<^verbatim>\<open>tasks[i]\<close> with the value of \<^verbatim>\<open>found\<close>;
  suspended in \<open>switch_to\<close> while task \<open>i\<close> runs; halted in \<open>do_idle\<close>.\<close>

datatype sched_pc = Scan nat bool | In_Task nat bool | Idle

definition scheduler_boot :: "u32 \<Rightarrow> u32 \<Rightarrow> u32 \<Rightarrow> 'a sched_scheme \<Rightarrow> (sched_pc \<times> 'a sched_scheme) result" where
  "scheduler_boot jump_userspace task_init userspace_fn s =
     (let (err, init, s) = task_allocate jump_userspace task_init s
      in if err \<noteq> 0 then Inl (Panic ''cannot allocate init task'')
         else case init of None \<Rightarrow> Inl Null_Deref
           | Some i \<Rightarrow> Inr (Scan 0 False, s\<lparr>ram := store32 (ram s) (regs_ptr (tasks s ! i) + 40) userspace_fn\<rparr>))"

inductive sched_step :: "sched_pc \<times> 'a sched_scheme \<Rightarrow> sched_pc \<times> 'a sched_scheme \<Rightarrow> bool" where
  found_running: "i < MAX_TASKS \<Longrightarrow> state (tasks s ! i) = TASK_RUNNING \<Longrightarrow> switch_to i s = Inr s' \<Longrightarrow>
    sched_step (Scan i found, s) (In_Task i found, s')"
| not_running: "i < MAX_TASKS \<Longrightarrow> state (tasks s ! i) \<noteq> TASK_RUNNING \<Longrightarrow>
    sched_step (Scan i found, s) (Scan (Suc i) found, s)"
| next_pass: "sched_step (Scan MAX_TASKS True, s) (Scan 0 False, s)"
| go_idle: "sched_step (Scan MAX_TASKS False, s) (Idle, do_idle (enable_irq s))"

text \<open>What runs between the steps of the scheduler: the task that was switched to works, blocks on a
  timeout or on the disk, or is preempted by the timer; the timer also fires while the scheduler
  is idle, or is scanning with interrupts on; and the disk makes a blocked task runnable.\<close>

inductive kernel_step :: "sched_pc \<times> 'a sched_scheme \<Rightarrow> sched_pc \<times> 'a sched_scheme \<Rightarrow> bool" where
  scheduler: "sched_step a b \<Longrightarrow> kernel_step a b"
| work: "kernel_step (In_Task i found, s) (In_Task i found, s\<lparr>cpu := c, eip := e, ram := m, eflags := fl\<rparr>)"
| preempt: "timer_irq s = Inr s' \<Longrightarrow> kernel_step (In_Task i found, s) (Scan (Suc i) True, s')"
| wait_ticks: "n \<noteq> 0 \<Longrightarrow> reschedule (upd_task i (\<lambda>t. t\<lparr>ticks_remaining := n, state := TASK_WAITING\<rparr>) s) = Inr s' \<Longrightarrow>
    kernel_step (In_Task i found, s) (Scan (Suc i) True, s')"
| wait_disk: "reschedule (upd_task i (\<lambda>t. t\<lparr>state := TASK_DISK_READ\<rparr>) s) = Inr s' \<Longrightarrow>
    kernel_step (In_Task i found, s) (Scan (Suc i) True, s')"
| idle_tick: "timer_irq s = Inr s' \<Longrightarrow> kernel_step (Idle, s) (Scan 0 False, disable_irq s')"
| scan_tick: "irqs_on s \<Longrightarrow> timer_irq s = Inr s' \<Longrightarrow> kernel_step (Scan i found, s) (Scan i found, s')"
| disk_done: "j < MAX_TASKS \<Longrightarrow> state (tasks s ! j) = TASK_DISK_READ \<Longrightarrow>
    kernel_step (pc, s) (if pc = Idle then Scan 0 False else pc, upd_task j (\<lambda>t. t\<lparr>state := TASK_RUNNING\<rparr>) s)"

inductive_cases sched_step_ScanE: "sched_step (Scan i f, s) b"
inductive_simps sched_step_simps: "sched_step (Scan i f, s) b" "sched_step (In_Task i f, s) b" "sched_step (Idle, s) b"

section \<open>Effects of the operations\<close>

lemma tick_fold: "n \<le> length ts \<Longrightarrow> fold (\<lambda>i ts. ts[i := tick_task (ts ! i)]) [0..<n] ts = map tick_task (take n ts) @ drop n ts"
proof (induction n)
  case (Suc n)
  then have "n < length ts" by simp
  then have "drop n ts = ts ! n # drop (Suc n) ts" by (simp add: Cons_nth_drop_Suc)
  with Suc show ?case by (simp add: take_Suc_conv_app_nth nth_append list_update_append)
qed simp

lemma scheduler_tick_eq:
  assumes "length (tasks s) = MAX_TASKS"
  shows "scheduler_tick s =
    (let t = s\<lparr>tasks := map tick_task (tasks s)\<rparr> in if current s \<noteq> None then reschedule t else Inr t)"
  using tick_fold [of MAX_TASKS "tasks s"] assms by (simp add: scheduler_tick_def Let_def)

lemma upd_task_simps [simp]:
  "current (upd_task i f s) = current s" "gdts (upd_task i f s) = gdts s" "TSS (upd_task i f s) = TSS s"
  "length (tasks (upd_task i f s)) = length (tasks s)" "ram (upd_task i f s) = ram s" "cpu (upd_task i f s) = cpu s"
  "scheduler_context (upd_task i f s) = scheduler_context s"
  "i < length (tasks s) \<Longrightarrow> tasks (upd_task i f s) ! j = (if j = i then f (tasks s ! i) else tasks s ! j)"
  by (simp_all add: upd_task_def nth_list_update)

lemma reschedule_eq:
  "current s = Some old \<Longrightarrow> reschedule s =
    Inr (s\<lparr>current := None, tasks := (tasks s)[old := (tasks s ! old)\<lparr>ctx := cpu s\<rparr>],
           cpu := (scheduler_context s)\<lparr>c_esp := c_esp (scheduler_context s) + 4\<rparr>,
           eip := load32 (ram s) (c_esp (scheduler_context s))\<rparr>)"
  by (simp add: reschedule_def asm_switch_to_def upd_task_def Let_def)

lemma switch_prepare_eq:
  assumes "reload_tss (gdts s) = Inr g"
  shows "switch_prepare i s = Inr (s\<lparr>TSS := \<lparr>esp0 = kstack (tasks s ! i) + KERNEL_STACK_SIZE, ss0 = 0x10, iopb = 0xffff\<rparr>,
    gdts := g, current := Some i\<rparr>)"
  using assms by (simp add: switch_prepare_def)

lemma switch_to_eq:
  assumes "reload_tss (gdts s) = Inr g"
  shows "switch_to i s = Inr (s\<lparr>TSS := \<lparr>esp0 = kstack (tasks s ! i) + KERNEL_STACK_SIZE, ss0 = 0x10, iopb = 0xffff\<rparr>,
    gdts := g, current := Some i, scheduler_context := cpu s,
    cpu := (ctx (tasks s ! i))\<lparr>c_esp := c_esp (ctx (tasks s ! i)) + 4\<rparr>, eip := load32 (ram s) (c_esp (ctx (tasks s ! i)))\<rparr>)"
  by (simp add: switch_to_def switch_prepare_eq [OF assms] asm_switch_to_def)

lemma timer_irq_eq:
  "timer_irq s = scheduler_tick (s\<lparr>timer_ticks := timer_ticks s + 1,
     io_log := Mmio_Read (lapic_ptr s) # Mmio_Write (lapic_ptr s + 0xB0) 0 # io_log s\<rparr>)"
  by (simp add: timer_irq_def ata_tick_def apic_eoi_def lapic_write_eq APIC_EOI_def Let_def)

section \<open>The invariant of the scheduler\<close>

definition task_ok :: "task \<Rightarrow> bool" where
  "task_ok t \<longleftrightarrow> state t = TASK_WAITING \<longrightarrow> ticks_remaining t \<noteq> 0"

definition pc_inv :: "sched_pc \<Rightarrow> 'a sched_scheme \<Rightarrow> bool" where
  "pc_inv pc s =
     (case pc of
        Scan i found \<Rightarrow> i \<le> MAX_TASKS \<and> current s = None
      | Idle \<Rightarrow> current s = None
      | In_Task i found \<Rightarrow> i < MAX_TASKS \<and> current s = Some i \<and> state (tasks s ! i) = TASK_RUNNING
          \<and> esp0 (TSS s) = kstack (tasks s ! i) + KERNEL_STACK_SIZE \<and> ss0 (TSS s) = 0x10)"

definition sched_inv :: "sched_pc \<times> 'a sched_scheme \<Rightarrow> bool" where
  "sched_inv k \<longleftrightarrow> length (tasks (snd k)) = MAX_TASKS \<and> reload_tss (gdts (snd k)) = Inr (gdts (snd k))
     \<and> (\<forall>i<MAX_TASKS. task_ok (tasks (snd k) ! i)) \<and> pc_inv (fst k) (snd k)"

lemma task_ok_tick: "task_ok t \<Longrightarrow> task_ok (tick_task t)"
  by (simp add: task_ok_def tick_task_def Let_def)

lemma reschedule_inv:
  assumes "length (tasks s) = MAX_TASKS" "reload_tss (gdts s) = Inr (gdts s)" "\<forall>i<MAX_TASKS. task_ok (tasks s ! i)"
    and "current s = Some j" "j < MAX_TASKS" "reschedule s = Inr s'" "k \<le> MAX_TASKS"
  shows "sched_inv (Scan k f, s')"
  using assms by (auto simp: sched_inv_def pc_inv_def reschedule_eq nth_list_update task_ok_def split: if_splits)

lemma tick_inv_None:
  assumes "sched_inv (pc, s)" "current s = None" "timer_irq s = Inr s'"
  shows "length (tasks s') = MAX_TASKS \<and> reload_tss (gdts s') = Inr (gdts s') \<and> (\<forall>i<MAX_TASKS. task_ok (tasks s' ! i))
    \<and> current s' = None"
  using assms by (auto simp: sched_inv_def timer_irq_eq scheduler_tick_eq task_ok_tick)

lemma tick_inv_task:
  assumes "sched_inv (In_Task i f, s)" "timer_irq s = Inr s'"
  shows "sched_inv (Scan (Suc i) True, s')"
proof -
  let ?t = "s\<lparr>timer_ticks := timer_ticks s + 1, io_log := Mmio_Read (lapic_ptr s) # Mmio_Write (lapic_ptr s + 0xB0) 0 # io_log s,
    tasks := map tick_task (tasks s)\<rparr>"
  from assms have a: "length (tasks s) = MAX_TASKS" "current s = Some i" "i < MAX_TASKS"
    "reload_tss (gdts s) = Inr (gdts s)" "\<forall>i<MAX_TASKS. task_ok (tasks s ! i)"
    by (auto simp: sched_inv_def pc_inv_def)
  from assms(2) a have "reschedule ?t = Inr s'" by (simp add: timer_irq_eq scheduler_tick_eq Let_def)
  with a show ?thesis by (intro reschedule_inv [of ?t i]) (auto simp: task_ok_tick)
qed

lemma sched_step_inv: "sched_step a b \<Longrightarrow> sched_inv a \<Longrightarrow> sched_inv b"
  by (induction rule: sched_step.induct)
     (auto simp: sched_inv_def pc_inv_def switch_to_eq do_idle_def enable_irq_def)

lemma kernel_step_inv:
  assumes "kernel_step a b" "sched_inv a"
  shows "sched_inv b"
  using assms
proof (induction rule: kernel_step.induct)
  case (scheduler a b)
  then show ?case by (blast intro: sched_step_inv)
next
  case (work i found s c e m fl)
  then show ?case by (simp add: sched_inv_def pc_inv_def)
next
  case (preempt s s' i found)
  then show ?case by (blast intro: tick_inv_task)
next
  case (wait_ticks n i s s' found)
  then show ?case
    by (intro reschedule_inv [OF _ _ _ _ _ wait_ticks.hyps(2), of i]) (auto simp: sched_inv_def pc_inv_def task_ok_def)
next
  case (wait_disk i s s' found)
  then show ?case
    by (intro reschedule_inv [OF _ _ _ _ _ wait_disk.hyps(1), of i]) (auto simp: sched_inv_def pc_inv_def task_ok_def)
next
  case (idle_tick s s')
  then have "current s = None" by (simp add: sched_inv_def pc_inv_def)
  from tick_inv_None [OF idle_tick.prems this idle_tick.hyps]
  show ?case by (simp add: sched_inv_def pc_inv_def disable_irq_def)
next
  case (scan_tick s s' i found)
  then have "current s = None" by (simp add: sched_inv_def pc_inv_def)
  from tick_inv_None [OF scan_tick.prems this scan_tick.hyps(2)] scan_tick.prems
  show ?case by (simp add: sched_inv_def pc_inv_def)
next
  case (disk_done j s pc)
  then show ?case by (auto simp: sched_inv_def pc_inv_def task_ok_def split: sched_pc.splits)
qed

text \<open>The state \<open>scheduler_start\<close> is entered in: no task yet, the TSS descriptor of \<open>init_gdt\<close> loaded.\<close>

definition boot_state :: "'a sched_scheme \<Rightarrow> bool" where
  "boot_state s \<longleftrightarrow> length (tasks s) = MAX_TASKS \<and> (\<forall>i<MAX_TASKS. state (tasks s ! i) = TASK_NOT_ALLOCATED)
     \<and> current s = None \<and> reload_tss (gdts s) = Inr (gdts s)"

definition sched_init :: "u32 \<Rightarrow> u32 \<Rightarrow> u32 \<Rightarrow> sched_pc \<times> 'a sched_scheme \<Rightarrow> bool" where
  "sched_init jump_userspace task_init userspace_fn k \<longleftrightarrow>
     (\<exists>s. boot_state s \<and> scheduler_boot jump_userspace task_init userspace_fn s = Inr k)"

lemma kalloc_sched_frame [simp]:
  "tasks (snd (kalloc s)) = tasks s" "current (snd (kalloc s)) = current s" "gdts (snd (kalloc s)) = gdts s"
  by (simp_all add: kalloc_def)

lemma kalloc_fst_snd: "kalloc s = (p, t) \<Longrightarrow> tasks t = tasks s \<and> current t = current s \<and> gdts t = gdts s"
  by (metis kalloc_sched_frame snd_conv)

lemma task_setup_tasks:
  assumes "task_setup ju ti (Suc i) s = (err, t)" "i < length (tasks s)"
  shows "current t = current s \<and> gdts t = gdts s \<and> length (tasks t) = length (tasks s)
    \<and> (\<forall>j. j \<noteq> i \<longrightarrow> tasks t ! j = tasks s ! j) \<and> state (tasks t ! i) = TASK_RUNNING"
  using assms by (auto simp: task_setup_def Let_def split: prod.splits if_splits dest: kalloc_fst_snd)

lemma sched_init_inv: "sched_init ju ti uf k \<Longrightarrow> sched_inv k"
proof -
  assume "sched_init ju ti uf k"
  then obtain s where b: "boot_state s" and k: "scheduler_boot ju ti uf s = Inr k" by (auto simp: sched_init_def)
  obtain err r t where a: "task_allocate ju ti s = (err, r, t)" by (cases "task_allocate ju ti s")
  with k obtain i where e: "err = 0" "r = Some i"
    and kk: "k = (Scan 0 False, t\<lparr>ram := store32 (ram t) (regs_ptr (tasks t ! i) + 40) uf\<rparr>)"
    by (auto simp: scheduler_boot_def split: if_splits option.splits)
  from a e obtain j where j: "j < MAX_TASKS" and st: "task_setup ju ti (Suc j) s = (0, t)"
    by (auto simp: task_allocate_def find_upt_Some split: option.splits prod.splits if_splits)
  have "\<forall>i<MAX_TASKS. task_ok (tasks t ! i)"
    using task_setup_tasks [OF st] b j by (metis boot_state_def task_ok_def task_state.distinct(3,7))
  with task_setup_tasks [OF st] b j kk show ?thesis by (simp add: sched_inv_def pc_inv_def boot_state_def)
qed

interpretation sched: invariant_system "sched_init ju ti uf" kernel_step sched_inv
  by unfold_locales (auto intro: sched_init_inv kernel_step_inv)

text \<open>In every state the scheduler can reach from boot, whatever tasks and interrupts do: while a task
  runs it is the current one, its state is running and interrupts from user mode land on its own
  kernel stack; while the scheduler scans or idles there is no current task; no waiting task has
  zero ticks left, so the countdown never passes zero; and the TSS can always be reloaded.\<close>

lemma kernel_invariant:
  assumes "reach (sched_init ju ti uf) kernel_step (pc, s)"
  shows "length (tasks s) = MAX_TASKS
    \<and> (\<forall>i<MAX_TASKS. state (tasks s ! i) = TASK_WAITING \<longrightarrow> ticks_remaining (tasks s ! i) \<noteq> 0)
    \<and> reload_tss (gdts s) = Inr (gdts s)
    \<and> (case pc of
         In_Task i found \<Rightarrow> i < MAX_TASKS \<and> current s = Some i \<and> state (tasks s ! i) = TASK_RUNNING
           \<and> esp0 (TSS s) = kstack (tasks s ! i) + KERNEL_STACK_SIZE \<and> ss0 (TSS s) = 0x10
       | _ \<Rightarrow> current s = None)"
  using sched.reach_inv [OF assms]
  by (auto simp: sched_inv_def pc_inv_def task_ok_def split: sched_pc.splits)

section \<open>The frame of a new task\<close>

lemma word_offsets [simp]: "(a :: u32) + b - (a + c) = b - c" "a + b - a = b" "a - (a + c) = - c"
  "a - b - a = - b" "a - b - (a - c) = c - b" "a + b - (a - c) = b + c" "a - b - (a + c) = - b - c" "a - (a - c) = c"
  by simp_all

lemma setup_frame_regs:
  "load_regs (setup_frame ju ti esp m) esp =
     \<lparr>r_ebp = 0, r_edi = 0, r_esi = 0, r_edx = 0, r_ecx = 0, r_ebx = 0, r_eax = 0,
      r_gs = 0x23, r_fs = 0x23, r_es = 0x23, r_ds = 0x23,
      r_error_code = 0, r_eip = 0, r_cs = 0x1b, r_eflags = 0x200, r_esp = 0, r_ss = 0x23\<rparr>"
proof -
  have z32: "load32 (memset m esp 0 60) (esp + k) = 0" if "k \<le> 56" for k
  proof (rule load32_memset_0)
    fix j :: u32 assume "j < 4"
    with that have "unat (k + j) = unat k + unat j" "unat k \<le> 56" "unat j < 4"
      by (auto intro!: unat_add_lt simp: word_le_nat_alt word_less_nat_alt)
    then show "in_range esp 60 (esp + k + j)" by (simp add: in_range_def word_less_nat_alt add.assoc)
  qed
  show ?thesis using z32 [of 0]
    by (simp add: load_regs_def setup_frame_def SIZEOF_REGS_def Let_def mem_simps z32)
qed

lemma setup_frame_returns:
  "load32 (setup_frame ju ti esp m) (esp - 8) = ti" "load32 (setup_frame ju ti esp m) (esp - 4) = ju"
  by (simp_all add: setup_frame_def Let_def mem_simps)

lemma setup_frame_frame:
  assumes "\<not> in_range (esp - 8) 68 a"
  shows "setup_frame ju ti esp m a = m a"
proof -
  have out: "\<not> in_range (esp - 8 + k) n a" if "unat k + unat n \<le> 68" for k n
    using in_range_sub [of "esp - 8" k n a 68] assms that by auto
  have "\<not> in_range esp 60 a" "\<not> in_range (esp + 44) 4 a" "\<not> in_range (esp + 34) 2 a" "\<not> in_range (esp + 32) 2 a"
    "\<not> in_range (esp + 30) 2 a" "\<not> in_range (esp + 28) 2 a" "\<not> in_range (esp + 56) 4 a" "\<not> in_range (esp + 48) 4 a"
    "\<not> in_range (esp - 4) 4 a" "\<not> in_range (esp - 8) 4 a"
    using out [of 8 60] out [of 52 4] out [of 42 2] out [of 40 2] out [of 38 2] out [of 36 2] out [of 64 4]
      out [of 56 4] out [of 4 4] out [of 0 4] by (simp_all add: add.commute [of _ esp])
  then show ?thesis by (simp add: setup_frame_def SIZEOF_REGS_def Let_def store32_frame store16_frame memset_eq)
qed

text \<open>The registers a new task starts user mode with.\<close>

definition user_frame :: regs where
  "user_frame =
     \<lparr>r_ebp = 0, r_edi = 0, r_esi = 0, r_edx = 0, r_ecx = 0, r_ebx = 0, r_eax = 0,
      r_gs = 0x23, r_fs = 0x23, r_es = 0x23, r_ds = 0x23,
      r_error_code = 0, r_eip = 0, r_cs = 0x1b, r_eflags = 0x200, r_esp = 0, r_ss = 0x23\<rparr>"

lemma task_setup_ok:
  assumes "i < length (tasks s)" "kalloc s = (p, s1)" "p \<noteq> NULL"
  shows "task_setup ju ti (Suc i) s =
    (0, s1\<lparr>ram := setup_frame ju ti (p + 4036) (ram s1),
        tasks := (tasks s)[i := (tasks s ! i)\<lparr>pid := of_nat (Suc i), state := TASK_RUNNING, kstack := p,
          regs_ptr := p + 4036, ctx := zero_ctx\<lparr>c_esp := p + 4028, c_ebp := p + 4028\<rparr>\<rparr>]\<rparr>)"
proof -
  have e: "p + KERNEL_STACK_SIZE - SIZEOF_REGS = p + 4036" "p + 4036 - 8 = p + 4028"
    by (simp_all add: KERNEL_STACK_SIZE_def SIZEOF_REGS_def)
  have k: "kalloc (upd_task i f s) = (p, upd_task i f s1)" for f
    using assms(2) by (auto simp: kalloc_def upd_task_def split: if_splits)
  have t: "tasks s1 = tasks s" using kalloc_fst_snd [OF assms(2)] by simp
  show ?thesis using assms(1,3) t
    by (simp add: task_setup_def k e Let_def) (simp add: upd_task_def)
qed

lemma task_setup_fails:
  assumes "i < length (tasks s)" "kalloc s = (NULL, s1)"
  shows "task_setup ju ti (Suc i) s =
    (- ENOMEM, s1\<lparr>tasks := (tasks s)[i := (tasks s ! i)\<lparr>pid := of_nat (Suc i), state := TASK_RUNNING, kstack := NULL\<rparr>]\<rparr>)"
proof -
  have k: "kalloc (upd_task i f s) = (NULL, upd_task i f s1)" for f
    using assms(2) by (auto simp: kalloc_def upd_task_def split: if_splits)
  have t: "tasks s1 = tasks s" using kalloc_fst_snd [OF assms(2)] by simp
  show ?thesis using assms(1) t by (simp add: task_setup_def k Let_def) (simp add: upd_task_def)
qed

definition sched0 :: sched where
  "sched0 = kbd.extend (kbd0\<lparr>freelist_head := 0xc0300000\<rparr>)
     \<lparr>tasks = replicate 256 \<lparr>pid = 0, state = TASK_NOT_ALLOCATED, ctx = zero_ctx, regs_ptr = 0, kstack = 0,
        ticks_remaining = 0, exitcode = 0\<rparr>,
      current = None, scheduler_context = zero_ctx, cpu = zero_ctx, eip = 0,
      TSS = \<lparr>esp0 = 0, ss0 = 0, iopb = 0\<rparr>,
      gdts = gdt0\<lparr>GDT := [gdt_descr 0 0 0, gdt_descr 0 0 0, gdt_descr 0 0 0, gdt_descr 0 0 0, gdt_descr 0 0 0,
        gdt_descr 0xc0120000 99 0x0b], task_reg := 0x2b\<rparr>, timer_ticks = 0\<rparr>"

lemma sched0_simps [simp]:
  "freelist_head sched0 = 0xc0300000" "ram sched0 = (\<lambda>_. 0)" "current sched0 = None"
  "length (tasks sched0) = 256" "i < 256 \<Longrightarrow> state (tasks sched0 ! i) = TASK_NOT_ALLOCATED"
  by (simp_all add: sched0_def kbd0_def apic0_def kbd.defs apic.defs)

lemma sched0_gdt: "reload_tss (gdts sched0) = Inr (gdts sched0)"
  by (simp add: sched0_def kbd.defs reload_tss_def ltr_def gdt0_def gdt_descr_def ACCESS_PRESENT_def Let_def)

text \<open>A task that \<open>task_setup\<close> sets up has its own page as kernel stack; switching to its context
  returns into \<open>task_init\<close>, which returns to \<open>__jump_userspace\<close> with the stack pointer at an interrupt
  frame that ends at the top of the page and starts user mode (ring 3 selectors, interrupts on, all
  registers zero); no byte outside the page and no other task is changed.\<close>

lemma task_setup_starts_user_mode:
  assumes "length (tasks s) = MAX_TASKS" "i < MAX_TASKS" "kalloc s = (p, s1)" "p \<noteq> NULL"
  shows "\<exists>t. task_setup ju ti (Suc i) s = (0, t)
    \<and> (let k = tasks t ! i; sp = c_esp (ctx k) in
        pid k = of_nat (Suc i) \<and> state k = TASK_RUNNING \<and> kstack k = p \<and> regs_ptr k = sp + 8
      \<and> asm_switch_to (ram t) c (ctx k) = (c, zero_ctx\<lparr>c_esp := sp + 4, c_ebp := sp\<rparr>, ti)
      \<and> load32 (ram t) (sp + 4) = ju
      \<and> load_regs (ram t) (sp + 8) = user_frame \<and> sp + 8 + SIZEOF_REGS = p + PAGE_SIZE)
    \<and> (\<forall>a. \<not> in_range p PAGE_SIZE a \<longrightarrow> ram t a = ram s a)
    \<and> (\<forall>j. j \<noteq> i \<longrightarrow> tasks t ! j = tasks s ! j)"
proof -
  have ret: "load32 (setup_frame ju ti (p + 4036) m) (p + 4028) = ti"
    "load32 (setup_frame ju ti (p + 4036) m) (p + 4032) = ju" for m
    using setup_frame_returns [of ju ti "p + 4036" m] by (simp_all add: add.commute [of _ p])
  have out: "setup_frame ju ti (p + 4036) m a = m a" if "\<not> in_range p 4096 a" for m a
    using in_range_sub [of p 4028 68 a 4096] setup_frame_frame [of "p + 4036" a ju ti m] that
    by (auto simp: add.commute [of _ p])
  have r: "ram s1 = ram s" using assms(3) by (auto simp: kalloc_def split: if_splits)
  show ?thesis
    using assms(1,2) task_setup_ok [OF _ assms(3,4), of i ju ti] ret out r
    by (simp add: asm_switch_to_def setup_frame_regs user_frame_def SIZEOF_REGS_def PAGE_SIZE_def Let_def
        add.commute [of _ p])
qed

text \<open>C37. \<open>task_allocate\<close> uses the first free slot, returns \<open>- EAGAIN\<close> with nothing changed exactly when
  there is none, and \<open>- ENOMEM\<close> when no page is left; in that case the slot stays marked as a
  running task with no stack.\<close>

theorem task_allocate_branches:
  assumes "length (tasks s) = MAX_TASKS"
  shows "(if \<forall>i<MAX_TASKS. state (tasks s ! i) \<noteq> TASK_NOT_ALLOCATED then task_allocate ju ti s = (- EAGAIN, None, s)
     else \<exists>i<MAX_TASKS. state (tasks s ! i) = TASK_NOT_ALLOCATED \<and> (\<forall>j<i. state (tasks s ! j) \<noteq> TASK_NOT_ALLOCATED)
       \<and> (\<exists>t. (if fst (kalloc s) = NULL
               then task_allocate ju ti s = (- ENOMEM, None, t) \<and> state (tasks t ! i) = TASK_RUNNING \<and> kstack (tasks t ! i) = NULL
               else task_allocate ju ti s = (0, Some i, t) \<and> state (tasks t ! i) = TASK_RUNNING
                 \<and> kstack (tasks t ! i) = fst (kalloc s))))"
proof (cases "find (\<lambda>i. state (tasks s ! i) = TASK_NOT_ALLOCATED) [0..<MAX_TASKS]")
  case None
  then have "task_allocate ju ti s = (- EAGAIN, None, s)" by (simp add: task_allocate_def)
  with None show ?thesis by (simp add: find_upt_None)
next
  case (Some i)
  then have i: "i < MAX_TASKS" "state (tasks s ! i) = TASK_NOT_ALLOCATED" "\<forall>j<i. state (tasks s ! j) \<noteq> TASK_NOT_ALLOCATED"
    by (auto simp: find_upt_Some)
  obtain p s1 where k: "kalloc s = (p, s1)" by (cases "kalloc s")
  have "\<exists>t. (if fst (kalloc s) = NULL
               then task_allocate ju ti s = (- ENOMEM, None, t) \<and> state (tasks t ! i) = TASK_RUNNING \<and> kstack (tasks t ! i) = NULL
               else task_allocate ju ti s = (0, Some i, t) \<and> state (tasks t ! i) = TASK_RUNNING
                 \<and> kstack (tasks t ! i) = fst (kalloc s))"
    using i(1) assms k task_setup_ok [of i s p s1 ju ti] task_setup_fails [of i s s1 ju ti]
    by (cases "p = NULL") (simp_all add: task_allocate_def Some ENOMEM_def)
  moreover have "\<not> (\<forall>i<MAX_TASKS. state (tasks s ! i) \<noteq> TASK_NOT_ALLOCATED)" using i by blast
  ultimately show ?thesis using i by (simp only: if_False) blast
qed

theorem task_allocate_branches_witness:
  "\<exists>i<256. \<exists>t. task_allocate 0xc0101000 0xc0102000 sched0 = (0, Some i, t) \<and> kstack (tasks t ! i) = 0xc0300000"
proof -
  have "fst (kalloc sched0) = 0xc0300000" by (simp add: kalloc_def)
  then show ?thesis
    using task_allocate_branches [of sched0 "0xc0101000" "0xc0102000"]
    by (auto simp: MAX_TASKS_def split: if_splits dest: spec [of _ 0])
qed

section \<open>Waiting\<close>

text \<open>The tasks after \<open>k\<close> timer ticks, as far as the countdown is concerned.\<close>

lemma tick_task_waiting:
  "state t = TASK_WAITING \<Longrightarrow> unat (ticks_remaining t) = Suc n \<Longrightarrow>
    tick_task t = (if n = 0 then t\<lparr>ticks_remaining := 0, state := TASK_RUNNING\<rparr>
      else t\<lparr>ticks_remaining := ticks_remaining t - 1\<rparr>)"
proof -
  assume a: "state t = TASK_WAITING" "unat (ticks_remaining t) = Suc n"
  then have "ticks_remaining t \<noteq> 0" by auto
  then have u: "unat (ticks_remaining t - 1) = n" using a(2) by (simp add: unat_pred)
  then have "ticks_remaining t - 1 = 0 \<longleftrightarrow> n = 0" by (metis unat_eq_0)
  with a show ?thesis by (auto simp: tick_task_def Let_def)
qed

lemma ticks_countdown:
  "state t = TASK_WAITING \<Longrightarrow> k < unat (ticks_remaining t) \<Longrightarrow>
    state ((tick_task ^^ k) t) = TASK_WAITING \<and> unat (ticks_remaining ((tick_task ^^ k) t)) = unat (ticks_remaining t) - k"
proof (induction k)
  case (Suc k)
  let ?t = "(tick_task ^^ k) t"
  from Suc have s: "state ?t = TASK_WAITING" "unat (ticks_remaining ?t) = Suc (unat (ticks_remaining t) - k - 1)" by auto
  then have nz: "ticks_remaining ?t \<noteq> 0" by auto
  from s Suc.prems tick_task_waiting [OF s] show ?case by (simp add: unat_pred [OF nz])
qed simp

lemma ticks_state:
  assumes "state t = TASK_WAITING" "unat (ticks_remaining t) = n" "0 < n" "k \<le> n"
  shows "state ((tick_task ^^ k) t) = (if k < n then TASK_WAITING else TASK_RUNNING)"
proof (cases "k < n")
  case True
  then show ?thesis using ticks_countdown [of t k] assms by simp
next
  case False
  with assms obtain m where m: "k = Suc m" "n = Suc m" by (metis Suc_pred le_neq_implies_less)
  have l: "state ((tick_task ^^ m) t) = TASK_WAITING" "unat (ticks_remaining ((tick_task ^^ m) t)) = Suc 0"
    using ticks_countdown [of t m] assms m by auto
  then show ?thesis using tick_task_waiting [OF l] m by simp
qed

lemma ticks_ctx [simp]: "ctx ((tick_task ^^ k) t) = ctx t"
  by (induction k) (simp_all add: tick_task_def Let_def)

text \<open>A tick while no task is current counts every waiting task down and does nothing else to the tasks;
  \<open>idle_ticks\<close> is a run of such ticks.\<close>

fun idle_ticks :: "nat \<Rightarrow> 'a sched_scheme \<Rightarrow> 'a sched_scheme result" where
  "idle_ticks 0 s = Inr s"
| "idle_ticks (Suc n) s = (case timer_irq s of Inl e \<Rightarrow> Inl e | Inr s \<Rightarrow> idle_ticks n s)"

lemma idle_ticks_eq:
  assumes "length (tasks s) = MAX_TASKS" "current s = None"
  shows "\<exists>t. idle_ticks n s = Inr t \<and> tasks t = map (tick_task ^^ n) (tasks s) \<and> current t = None
    \<and> timer_ticks t = timer_ticks s + of_nat n \<and> gdts t = gdts s \<and> ram t = ram s"
  using assms
proof (induction n arbitrary: s)
  case (Suc n)
  let ?u = "s\<lparr>timer_ticks := timer_ticks s + 1,
     io_log := Mmio_Read (lapic_ptr s) # Mmio_Write (lapic_ptr s + 0xB0) 0 # io_log s, tasks := map tick_task (tasks s)\<rparr>"
  have "timer_irq s = Inr ?u" using Suc.prems by (simp add: timer_irq_eq scheduler_tick_eq Let_def)
  moreover from Suc.IH [of ?u] Suc.prems obtain t where
    "idle_ticks n ?u = Inr t \<and> tasks t = map (tick_task ^^ n) (map tick_task (tasks s)) \<and> current t = None
      \<and> timer_ticks t = timer_ticks s + 1 + of_nat n \<and> gdts t = gdts s \<and> ram t = ram s" by auto
  moreover have "(tick_task ^^ n) (tick_task x) = (tick_task ^^ Suc n) x" for x
    by (simp add: funpow_swap1)
  ultimately show ?case by (auto simp: comp_def add.assoc)
qed simp

text \<open>A task that waits for \<open>n\<close> ticks is woken by exactly the \<open>n\<close>-th timer tick: after fewer it
  still waits, after \<open>n\<close> it is runnable, and \<open>timer_ticks\<close> has counted each.\<close>

lemma wait_wakes_after_n_ticks:
  assumes "length (tasks s) = MAX_TASKS" "current s = None" "i < MAX_TASKS"
    and "state (tasks s ! i) = TASK_WAITING" "unat (ticks_remaining (tasks s ! i)) = n" "0 < n" "k \<le> n"
  shows "\<exists>t. idle_ticks k s = Inr t \<and> timer_ticks t = timer_ticks s + of_nat k
    \<and> state (tasks t ! i) = (if k < n then TASK_WAITING else TASK_RUNNING)"
  using ticks_state [of "tasks s ! i" n k] idle_ticks_eq [OF assms(1,2), of k] assms by auto

section \<open>Which task runs next\<close>

definition runnable :: "'a sched_scheme \<Rightarrow> nat \<Rightarrow> bool" where
  "runnable s j \<longleftrightarrow> state (tasks s ! j) = TASK_RUNNING"

lemma sched_step_det: "sched_step a b \<Longrightarrow> sched_step a c \<Longrightarrow> b = c"
  by (induction rule: sched_step.induct) (auto simp: sched_step_simps)

lemma scan_skip:
  assumes "i \<le> n" "n \<le> MAX_TASKS" "\<forall>j. i \<le> j \<and> j < n \<longrightarrow> \<not> runnable s j"
  shows "sched_step\<^sup>*\<^sup>* (Scan i f, s) (Scan n f, s)"
  using assms
proof (induction "n - i" arbitrary: i)
  case (Suc d)
  then have "sched_step (Scan i f, s) (Scan (Suc i) f, s)" by (auto intro!: not_running simp: runnable_def)
  moreover have "sched_step\<^sup>*\<^sup>* (Scan (Suc i) f, s) (Scan n f, s)" using Suc by auto
  ultimately show ?case by (rule converse_rtranclp_into_rtranclp)
qed simp

lemma scan_to_first:
  assumes "sched_inv (Scan i f, s)" "find (runnable s) [i..<MAX_TASKS] = Some j"
  shows "\<exists>s'. switch_to j s = Inr s' \<and> sched_step\<^sup>*\<^sup>* (Scan i f, s) (In_Task j f, s')"
proof -
  obtain k where k: "k < length [i..<MAX_TASKS]" "runnable s ([i..<MAX_TASKS] ! k)" "j = [i..<MAX_TASKS] ! k"
    "\<forall>l<k. \<not> runnable s ([i..<MAX_TASKS] ! l)" using assms(2) by (auto simp: find_Some_iff)
  then have j: "j = i + k" "j < MAX_TASKS" "runnable s j" by auto
  have "\<not> runnable s l" if "i \<le> l" "l < j" for l
    using k(4) [rule_format, of "l - i"] that j by auto
  then have "sched_step\<^sup>*\<^sup>* (Scan i f, s) (Scan j f, s)" using j by (intro scan_skip) auto
  moreover obtain s' where s': "switch_to j s = Inr s'"
    using assms(1) by (auto simp: sched_inv_def switch_to_eq)
  moreover have "sched_step (Scan j f, s) (In_Task j f, s')"
    using found_running [OF j(2) _ s'] j(3) by (simp add: runnable_def)
  ultimately show ?thesis by (meson rtranclp.rtrancl_into_rtrancl)
qed

lemma scan_to_end:
  assumes "i \<le> MAX_TASKS" "find (runnable s) [i..<MAX_TASKS] = None"
  shows "sched_step\<^sup>*\<^sup>* (Scan i f, s) (Scan MAX_TASKS f, s)"
  using assms by (intro scan_skip) (auto simp: find_None_iff)

lemma idle_state: "irqs_on (do_idle (enable_irq s))" "tasks (do_idle (enable_irq s)) = tasks s"
  by (simp_all add: do_idle_def) (simp add: enable_irq_def)

lemma full_pass:
  assumes "sched_inv (Scan 0 False, s)"
  shows "case find (runnable s) [0..<MAX_TASKS] of
      Some j \<Rightarrow> \<exists>s'. switch_to j s = Inr s' \<and> sched_step\<^sup>*\<^sup>* (Scan 0 False, s) (In_Task j False, s')
    | None \<Rightarrow> sched_step\<^sup>*\<^sup>* (Scan 0 False, s) (Idle, do_idle (enable_irq s))"
proof (cases "find (runnable s) [0..<MAX_TASKS]")
  case None
  from scan_to_end [OF _ this, of False] have "sched_step\<^sup>*\<^sup>* (Scan 0 False, s) (Scan MAX_TASKS False, s)" by simp
  with go_idle [of s] have "sched_step\<^sup>*\<^sup>* (Scan 0 False, s) (Idle, do_idle (enable_irq s))"
    by (rule rtranclp.rtrancl_into_rtrancl [rotated])
  with None show ?thesis by simp
next
  case (Some j)
  with scan_to_first [OF assms Some] show ?thesis by simp
qed


lemma sched0_inv: "sched_inv (Scan 0 False, sched0)"
  by (simp add: sched_inv_def pc_inv_def task_ok_def sched0_gdt MAX_TASKS_def)

text \<open>Two runnable tasks, in slots 3 and 7, each with its context.\<close>

definition running0 :: sched where
  "running0 = sched0\<lparr>tasks := (tasks sched0)
     [3 := (tasks sched0 ! 3)\<lparr>state := TASK_RUNNING, ctx := zero_ctx\<lparr>c_esp := 0xc0200ffc\<rparr>\<rparr>,
      7 := (tasks sched0 ! 7)\<lparr>state := TASK_RUNNING, ctx := zero_ctx\<lparr>c_esp := 0xc0300ffc\<rparr>\<rparr>],
     cpu := zero_ctx\<lparr>c_esp := 0xc0100f00\<rparr>\<rparr>"

lemma running0_tasks: "i < 256 \<Longrightarrow> runnable running0 i \<longleftrightarrow> i = 3 \<or> i = 7"
  by (simp add: runnable_def running0_def nth_list_update)

lemma running0_inv: "i \<le> MAX_TASKS \<Longrightarrow> sched_inv (Scan i found, running0)"
  using sched0_inv by (auto simp: running0_def sched_inv_def pc_inv_def task_ok_def MAX_TASKS_def nth_list_update)

lemma find_running0: "find (runnable running0) ([5..<MAX_TASKS] @ [0..<5]) = Some 7"
proof -
  have "[5..<MAX_TASKS] = [5, 6] @ 7 # [8..<MAX_TASKS]"
    using upt_conv_Cons [of 5 256] upt_conv_Cons [of 6 256] upt_conv_Cons [of 7 256] by (simp add: MAX_TASKS_def)
  then show ?thesis by (simp add: find_append running0_tasks)
qed


section \<open>One pass over the task table\<close>

text \<open>A run is a list of states, each a \<open>kernel_step\<close> after the one before. The tasks it switches to, in order.\<close>

fun run_of :: "(sched_pc \<times> 'a sched_scheme) list \<Rightarrow> bool" where
  "run_of (a # b # ks) \<longleftrightarrow> kernel_step a b \<and> run_of (b # ks)"
| "run_of ks \<longleftrightarrow> True"

fun switched :: "(sched_pc \<times> 'a sched_scheme) list \<Rightarrow> nat list" where
  "switched (a # b # ks) =
     (case (fst a, fst b) of (Scan i found, In_Task j found') \<Rightarrow> j # switched (b # ks) | _ \<Rightarrow> switched (b # ks))"
| "switched ks = []"

definition end_of_pass :: "sched_pc \<Rightarrow> bool" where
  "end_of_pass pc \<longleftrightarrow> (case pc of Scan i found \<Rightarrow> i = MAX_TASKS | _ \<Rightarrow> False)"

definition looks_fit :: "(nat \<Rightarrow> bool) \<Rightarrow> sched_pc \<times> 'a sched_scheme \<Rightarrow> bool" where
  "looks_fit R k \<longleftrightarrow> (case fst k of Scan i found \<Rightarrow> i < MAX_TASKS \<longrightarrow> runnable (snd k) i = R i | _ \<Rightarrow> True)"

lemma filter_upt_step: "i < n \<Longrightarrow> filter R [i..<n] = (if R i then i # filter R [Suc i..<n] else filter R [Suc i..<n])"
  by (subst upt_conv_Cons) simp_all

text \<open>The slots that are left to look at.\<close>

definition slots_left :: "sched_pc \<Rightarrow> nat list" where
  "slots_left pc = (case pc of Scan i found \<Rightarrow> [i..<MAX_TASKS] | In_Task i found \<Rightarrow> [Suc i..<MAX_TASKS] | Idle \<Rightarrow> [])"

lemma pass_step:
  assumes "kernel_step a b" "looks_fit R a" "fst a \<noteq> Idle" "\<not> end_of_pass (fst a)"
  shows "fst b \<noteq> Idle \<and> filter R (slots_left (fst a)) = switched [a, b] @ filter R (slots_left (fst b))"
  using assms
proof (induction rule: kernel_step.induct)
  case (scheduler a b)
  then show ?case
    by (induction rule: sched_step.induct)
       (auto simp: looks_fit_def slots_left_def end_of_pass_def runnable_def filter_upt_step)
qed (auto simp: slots_left_def split: sched_pc.splits)

lemma switched_Cons: "switched (a # b # ks) = switched [a, b] @ switched (b # ks)"
  by (auto split: sched_pc.splits)

lemma pass_switches:
  assumes "run_of (ks @ [k])" "\<forall>x\<in>set ks. looks_fit R x \<and> \<not> end_of_pass (fst x)" "end_of_pass (fst k)"
    and "fst (hd (ks @ [k])) \<noteq> Idle"
  shows "switched (ks @ [k]) = filter R (slots_left (fst (hd (ks @ [k]))))"
  using assms
proof (induction ks)
  case Nil
  then show ?case by (auto simp: end_of_pass_def slots_left_def split: sched_pc.splits)
next
  case (Cons a ks)
  obtain b r where b: "ks @ [k] = b # r" by (cases "ks @ [k]") auto
  have s: "fst b \<noteq> Idle" "filter R (slots_left (fst a)) = switched [a, b] @ filter R (slots_left (fst b))"
    using pass_step [of a b R] Cons.prems b by auto
  moreover have "switched (b # r) = filter R (slots_left (fst b))"
    using Cons.IH Cons.prems b s(1) by simp
  ultimately show ?case using switched_Cons [of a b r] b by (simp del: switched.simps)
qed

text \<open>C10. One pass over the task table runs exactly the runnable tasks, each once, in the order of the table: in
  every run of the scheduler, of the tasks it switches to and of interrupts, from the start of a pass to its end, if
  \<open>R\<close> says for each slot whether its task is runnable at the moment the slot is looked at, then the tasks
  switched to are those of the slots in \<open>R\<close>, in ascending order; whatever each task does while it runs, and
  whether it blocks or is preempted, it does not run again in this pass. A context switch and a handler are one step
  each, as everywhere in \<open>kernel_step\<close>.\<close>

theorem scheduler_pass:
  assumes "run_of (ks @ [k])" "fst (hd (ks @ [k])) = Scan 0 False"
    and "\<forall>x\<in>set ks. looks_fit R x \<and> \<not> end_of_pass (fst x)" "end_of_pass (fst k)"
  shows "switched (ks @ [k]) = filter R [0..<MAX_TASKS]"
  using pass_switches [OF assms(1,3,4)] assms(2) by (simp add: slots_left_def)

text \<open>There are such runs: when no task waits for the timer or the disk, each task that gets the processor can be
  preempted by the next tick.\<close>

definition calm :: "(nat \<Rightarrow> bool) \<Rightarrow> 'a sched_scheme \<Rightarrow> bool" where
  "calm R s \<longleftrightarrow> (\<forall>j<MAX_TASKS. state (tasks s ! j) = (if R j then TASK_RUNNING else TASK_NOT_ALLOCATED))"

lemma calm_tick:
  assumes "sched_inv (In_Task i f, s)" "calm R s"
  obtains t where "timer_irq s = Inr t" "calm R t"
proof -
  have s: "length (tasks s) = MAX_TASKS" "current s = Some i" "i < MAX_TASKS" using assms(1) by (auto simp: sched_inv_def pc_inv_def)
  have "tick_task (tasks s ! j) = tasks s ! j" if "j < MAX_TASKS" for j using assms(2) that by (simp add: calm_def tick_task_def)
  with s assms(2) that show ?thesis
    by (simp add: timer_irq_eq scheduler_tick_eq reschedule_eq Let_def calm_def nth_list_update)
qed

lemma pass_exists:
  fixes s :: "'a sched_scheme"
  assumes "sched_inv (Scan i f, s)" "calm R s"
  shows "\<exists>ks k. run_of (ks @ [k]) \<and> hd (ks @ [k]) = (Scan i f, s) \<and> (\<forall>x\<in>set ks. looks_fit R x \<and> \<not> end_of_pass (fst x))
    \<and> end_of_pass (fst k)"
  using assms
proof (induction "MAX_TASKS - i" arbitrary: i f s)
  case 0
  then have "end_of_pass (Scan i f)" by (simp add: sched_inv_def pc_inv_def end_of_pass_def)
  then show ?case by (intro exI [of _ "[]"] exI [of _ "(Scan i f, s)"]) simp
next
  case (Suc n)
  let ?a = "(Scan i f, s)"
  have i: "i < MAX_TASKS" "n = MAX_TASKS - Suc i" using Suc.hyps(2) by simp_all
  have a: "looks_fit R ?a" "\<not> end_of_pass (fst ?a)"
    using Suc.prems(2) i(1) by (auto simp: looks_fit_def calm_def runnable_def end_of_pass_def)
  have run: "run_of (a # x # ys)" if "kernel_step a x" "run_of (x # ys)" for a x ys using that by simp
  show ?case
  proof (cases "R i")
    case False
    then have st: "sched_step ?a (Scan (Suc i) f, s)" using Suc.prems(2) i(1) by (intro not_running) (auto simp: calm_def)
    obtain ks k where k: "run_of (ks @ [k])" "hd (ks @ [k]) = (Scan (Suc i) f, s)"
      "\<forall>x\<in>set ks. looks_fit R x \<and> \<not> end_of_pass (fst x)" "end_of_pass (fst k)"
      using Suc.hyps(1) [OF i(2) sched_step_inv [OF st Suc.prems(1)] Suc.prems(2)] by blast
    then obtain ys where "ks @ [k] = (Scan (Suc i) f, s) # ys" by (metis append_is_Nil_conv hd_Cons_tl not_Cons_self2)
    with k a run [OF kernel_step.scheduler [OF st]] show ?thesis
      by (intro exI [of _ "?a # ks"] exI [of _ k]) auto
  next
    case True
    obtain s1 where s1: "switch_to i s = Inr s1" "tasks s1 = tasks s"
      using Suc.prems(1) switch_to_eq [of s "gdts s" i] by (auto simp: sched_inv_def)
    have st: "sched_step ?a (In_Task i f, s1)" using Suc.prems(2) i(1) True s1(1) by (intro found_running) (auto simp: calm_def)
    note v1 = sched_step_inv [OF st Suc.prems(1)]
    have c1: "calm R s1" using Suc.prems(2) s1(2) by (simp add: calm_def)
    obtain s2 where s2: "timer_irq s1 = Inr s2" "calm R s2" by (rule calm_tick [OF v1 c1])
    obtain ks k where k: "run_of (ks @ [k])" "hd (ks @ [k]) = (Scan (Suc i) True, s2)"
      "\<forall>x\<in>set ks. looks_fit R x \<and> \<not> end_of_pass (fst x)" "end_of_pass (fst k)"
      using Suc.hyps(1) [OF i(2) tick_inv_task [OF v1 s2(1)] s2(2)] by blast
    then obtain ys where "ks @ [k] = (Scan (Suc i) True, s2) # ys" by (metis append_is_Nil_conv hd_Cons_tl not_Cons_self2)
    with k a run [OF kernel_step.scheduler [OF st] run [OF preempt [OF s2(1)]]] show ?thesis
      by (intro exI [of _ "?a # (In_Task i f, s1) # ks"] exI [of _ k]) (auto simp: looks_fit_def end_of_pass_def)
  qed
qed

theorem scheduler_pass_witness:
  "\<exists>ks k. run_of (ks @ [k]) \<and> hd (ks @ [k]) = (Scan 0 False, running0) \<and> end_of_pass (fst k) \<and> switched (ks @ [k]) = [3, 7]"
proof -
  let ?R = "\<lambda>i. i = 3 \<or> i = (7 :: nat)"
  have "calm ?R running0" by (simp add: calm_def running0_def nth_list_update MAX_TASKS_def)
  from pass_exists [OF running0_inv this] obtain ks k where
    k: "run_of (ks @ [k])" "hd (ks @ [k]) = (Scan 0 False, running0)"
    "\<forall>x\<in>set ks. looks_fit ?R x \<and> \<not> end_of_pass (fst x)" "end_of_pass (fst k)" by blast
  have "filter ?R [0..<256] = [3, 7]" by code_simp
  with scheduler_pass [OF k(1) _ k(3,4)] k(1,2,4) show ?thesis
    by (intro exI [of _ ks] exI [of _ k]) (simp add: MAX_TASKS_def)
qed

end
