(* ===== verification/Pci.thy ===== *)
theory Pci
  imports Port_IO
begin

text \<open>
  The PCI bus scan: \<^verbatim>\<open>src/pci.c\<close> and \<^verbatim>\<open>src/pci.h\<close>.

  Configuration space is reached through an address and a data port. The walk over the capability
  list follows pointers the device supplies, so it is a partial function; the scan over buses,
  devices and functions is recursion over the list of slots, in the order of the C loops, that
  stops at the first hit. The correctness theorem is about every machine whose data port answers
  with a configuration space (\<open>pci_bus\<close>).
\<close>

section \<open>Configuration space access\<close>

record pci_dev =
  pci_busno :: u8
  pci_devno :: u8
  pci_func :: u8
  pci_flags :: u32

definition PCI_FLAG_MSI_CAPABLE :: u32 where "PCI_FLAG_MSI_CAPABLE = 1"
definition PCI_CLASS_MASS_STORAGE_CONTROLLER :: u8 where "PCI_CLASS_MASS_STORAGE_CONTROLLER = 1"
definition PCI_SUBCLASS_IDE :: u8 where "PCI_SUBCLASS_IDE = 1"

definition PCI_ADDRESS_PORT :: u16 where "PCI_ADDRESS_PORT = 0xcf8"
definition PCI_DATA_PORT :: u16 where "PCI_DATA_PORT = 0xcfc"

definition PCI_ADDRESS :: "u8 \<Rightarrow> u8 \<Rightarrow> u8 \<Rightarrow> u8 \<Rightarrow> u32" where
  "PCI_ADDRESS bus dev func offset =
     push_bit 16 (ucast bus) OR push_bit 11 (ucast dev) OR push_bit 8 (ucast func)
       OR (ucast offset AND 0xfc) OR push_bit 31 1"

definition pci_read :: "device \<Rightarrow> pci_dev \<Rightarrow> u8 \<Rightarrow> 'a hw_scheme \<Rightarrow> u32 \<times> 'a hw_scheme" where
  "pci_read hw d offset s =
     (let s = outl PCI_ADDRESS_PORT (PCI_ADDRESS (pci_busno d) (pci_devno d) (pci_func d) offset) s
      in inl hw PCI_DATA_PORT s)"

definition pci_write :: "pci_dev \<Rightarrow> u8 \<Rightarrow> u32 \<Rightarrow> 'a hw_scheme \<Rightarrow> 'a hw_scheme" where
  "pci_write d offset value s =
     (let s = outl PCI_ADDRESS_PORT (PCI_ADDRESS (pci_busno d) (pci_devno d) (pci_func d) offset) s
      in outl PCI_DATA_PORT value s)"

section \<open>Probing one function\<close>

partial_function (option) cap_loop :: "device \<Rightarrow> u32 \<Rightarrow> pci_dev \<Rightarrow> 'a hw_scheme \<Rightarrow> (pci_dev \<times> 'a hw_scheme) option" where
  "cap_loop hw cap_ptr d s =
     (let r = pci_read hw d (ucast cap_ptr) s;
          cap_header = fst r;
          d = (if cap_header AND 0xff = 0x05 then d\<lparr>pci_flags := pci_flags d OR PCI_FLAG_MSI_CAPABLE\<rparr> else d);
          cap_ptr = drop_bit 8 cap_header AND 0xff
      in if cap_ptr = 0 then Some (d, snd r) else cap_loop hw cap_ptr d (snd r))"

definition pci_check_and_init_device ::
  "device \<Rightarrow> pci_dev \<Rightarrow> u8 \<Rightarrow> u8 \<Rightarrow> 'a hw_scheme \<Rightarrow> (bool \<times> pci_dev \<times> 'a hw_scheme) result option" where
  "pci_check_and_init_device hw d target_class target_subclass s =
     (let (id, s) = pci_read hw d 0x00 s
      in if id = 0xffffffff then Some (Inr (False, d, s))
         else
           let (class_and_subclass, s) = pci_read hw d 0x08 s;
               cl = ucast (drop_bit 24 class_and_subclass AND 0xff);
               sub = ucast (drop_bit 16 class_and_subclass AND 0xff)
           in if cl \<noteq> target_class \<or> sub \<noteq> target_subclass then Some (Inr (False, d, s))
              else case printk ''found PCI device, bus=0x%x, dev=0x%x, func=0x%d, id=0x%x\<newline>''
                          [VWord (ucast (pci_busno d)), VWord (ucast (pci_devno d)), VWord (ucast (pci_func d)), VWord id] s of
                Inl e \<Rightarrow> Some (Inl e)
              | Inr s \<Rightarrow>
                  let (status, s) = pci_read hw d 0x04 s;
                      status = drop_bit 16 status
                  in if status AND push_bit 4 1 \<noteq> 0 then
                       let (cap_ptr, s) = pci_read hw d 0x34 s;
                           cap_ptr = cap_ptr AND 0xff
                       in case cap_loop hw cap_ptr d s of None \<Rightarrow> None
                          | Some (d, s) \<Rightarrow> Some (Inr (True, d, s))
                     else Some (Inr (True, d, s)))"

section \<open>The scan\<close>

fun func_loop :: "device \<Rightarrow> u8 \<Rightarrow> u8 \<Rightarrow> u8 list \<Rightarrow> pci_dev \<Rightarrow> 'a hw_scheme \<Rightarrow> (bool \<times> pci_dev \<times> 'a hw_scheme) result option" where
  "func_loop hw cl sub [] d s = Some (Inr (False, d, s))"
| "func_loop hw cl sub (func # funcs) d s =
     bindk (pci_check_and_init_device hw (d\<lparr>pci_func := func\<rparr>) cl sub s) (\<lambda>(found, d, s).
       if found then Some (Inr (True, d, s)) else func_loop hw cl sub funcs d s)"

fun slot_loop :: "device \<Rightarrow> u8 \<Rightarrow> u8 \<Rightarrow> (u8 \<times> u8) list \<Rightarrow> pci_dev \<Rightarrow> 'a hw_scheme \<Rightarrow> (bool \<times> pci_dev \<times> 'a hw_scheme) result option" where
  "slot_loop hw cl sub [] d s = Some (Inr (False, d, s))"
| "slot_loop hw cl sub ((bus, dev) # slots) d s =
     (let d = d\<lparr>pci_busno := bus, pci_devno := dev, pci_func := 0\<rparr>;
          (reg, s) = pci_read hw d 0x0c s;
          header_type = ucast (drop_bit 16 reg AND 0xff) :: u8
      in bindk (pci_check_and_init_device hw d cl sub s) (\<lambda>(found, d, s).
           if found then Some (Inr (True, d, s))
           else if header_type AND 0x80 \<noteq> 0 then
             bindk (func_loop hw cl sub (map of_nat [1..<8]) d s) (\<lambda>(found, d, s).
               if found then Some (Inr (True, d, s)) else slot_loop hw cl sub slots d s)
           else slot_loop hw cl sub slots d s))"

definition all_slots :: "(u8 \<times> u8) list" where
  "all_slots = concat (map (\<lambda>bus. map (\<lambda>dev. (of_nat bus, of_nat dev)) [0..<32]) [0..<256])"

definition pci_find_device ::
  "device \<Rightarrow> pci_dev \<Rightarrow> u8 \<Rightarrow> u8 \<Rightarrow> 'a hw_scheme \<Rightarrow> (bool \<times> pci_dev \<times> 'a hw_scheme) result option" where
  "pci_find_device hw d cl sub s = slot_loop hw cl sub all_slots d s"

section \<open>The address register\<close>

definition addr_fields :: "u32 \<Rightarrow> u32 \<times> u32 \<times> u32 \<times> u32 \<times> bool" where
  "addr_fields a = (drop_bit 16 a AND 0xff, drop_bit 11 a AND 0x1f, drop_bit 8 a AND 7, a AND 0xff, bit a 31)"

lemma bit_top [simp]: "bit (push_bit 31 1 :: u32) n \<longleftrightarrow> n = 31"
  by (simp only: bit_push_bit_iff bit_1_iff) (auto simp: possible_bit_word)

lemma bit_fc: "bit (0xfc :: u32) n \<longleftrightarrow> 2 \<le> n \<and> n < 8"
proof -
  have "(0xfc :: u32) = push_bit 2 (mask 6)" by (simp add: mask_eq_exp_minus_1)
  then show ?thesis by (simp only: bit_push_bit_iff bit_mask_iff possible_bit_word) auto
qed

lemma bit_field: "k + 8 \<le> 32 \<Longrightarrow> bit (push_bit k (ucast (x :: u8)) :: u32) n \<longleftrightarrow> k \<le> n \<and> n < k + 8 \<and> bit x (n - k)"
proof -
  have "bit x (n - k) \<Longrightarrow> n - k < 8" using bit_imp_le_length [of x "n - k"] by simp
  then show "k + 8 \<le> 32 \<Longrightarrow> ?thesis"
    by (simp only: bit_push_bit_iff bit_unsigned_iff possible_bit_word) auto
qed

lemma bit_PCI_ADDRESS:
  "bit (PCI_ADDRESS b d f off) n \<longleftrightarrow>
     16 \<le> n \<and> n < 24 \<and> bit b (n - 16) \<or> 11 \<le> n \<and> n < 19 \<and> bit d (n - 11) \<or> 8 \<le> n \<and> n < 16 \<and> bit f (n - 8)
     \<or> 2 \<le> n \<and> n < 8 \<and> bit off n \<or> n = 31"
proof -
  have "bit (ucast off :: u32) n \<longleftrightarrow> n < 8 \<and> bit off n" using bit_field [of 0 off n] by simp
  moreover have "bit (push_bit 16 (ucast b) :: u32) n \<longleftrightarrow> 16 \<le> n \<and> n < 24 \<and> bit b (n - 16)"
    "bit (push_bit 11 (ucast d) :: u32) n \<longleftrightarrow> 11 \<le> n \<and> n < 19 \<and> bit d (n - 11)"
    "bit (push_bit 8 (ucast f) :: u32) n \<longleftrightarrow> 8 \<le> n \<and> n < 16 \<and> bit f (n - 8)"
    by (simp_all only: bit_field) simp_all
  ultimately show ?thesis
    unfolding PCI_ADDRESS_def by (simp only: bit_or_iff bit_and_iff bit_top bit_fc) blast
qed

lemma small_bits: "unat (x :: u8) < 2 ^ k \<Longrightarrow> bit x n \<Longrightarrow> n < k"
proof (rule ccontr)
  assume a: "unat x < 2 ^ k" "bit x n" "\<not> n < k"
  then have "bit (unat x) n" by (simp add: bit_unsigned_iff bit_imp_possible_bit)
  then have "unat x div 2 ^ n \<noteq> 0" by (simp add: bit_iff_odd odd_pos)
  then have "(2 :: nat) ^ n \<le> unat x" by (metis div_less not_le)
  moreover have "(2 :: nat) ^ k \<le> 2 ^ n" using a(3) by simp
  ultimately show False using a(1) by linarith
qed

lemma PCI_ADDRESS_fields:
  assumes "dev < 32" "func < 8"
  shows "addr_fields (PCI_ADDRESS bus dev func off) = (ucast bus, ucast dev, ucast func, ucast off AND 0xfc, True)"
proof -
  have d: "bit dev n \<Longrightarrow> n < 5" for n using small_bits [of dev 5 n] assms(1) by (simp add: word_less_nat_alt)
  have f: "bit func n \<Longrightarrow> n < 3" for n using small_bits [of func 3 n] assms(2) by (simp add: word_less_nat_alt)
  have u: "bit (ucast (x :: u8) :: u32) n \<longleftrightarrow> n < 8 \<and> bit x n" for x n using bit_field [of 0 x n] by simp
  have m: "(0xff :: u32) = mask 8" "(0x1f :: u32) = mask 5" "(7 :: u32) = mask 3" by (simp_all add: mask_eq_exp_minus_1)
  note bits = bit_and_iff bit_drop_bit_eq o_apply bit_mask_iff bit_PCI_ADDRESS possible_bit_word u bit_fc
  have "drop_bit 16 (PCI_ADDRESS bus dev func off) AND 0xff = ucast bus"
    unfolding m by (rule bit_word_eqI, simp only: bits) (use d f in \<open>auto dest: d\<close>)
  moreover have "drop_bit 11 (PCI_ADDRESS bus dev func off) AND 0x1f = ucast dev"
    unfolding m by (rule bit_word_eqI, simp only: bits) (use d f in \<open>auto dest: d f\<close>)
  moreover have "drop_bit 8 (PCI_ADDRESS bus dev func off) AND 7 = ucast func"
    unfolding m by (rule bit_word_eqI, simp only: bits) (use d f in \<open>auto dest: d f\<close>)
  moreover have "PCI_ADDRESS bus dev func off AND 0xff = ucast off AND 0xfc"
    unfolding m by (rule bit_word_eqI, simp only: bits) (use d f in \<open>auto dest: d f\<close>)
  moreover have "bit (PCI_ADDRESS bus dev func off) 31" by (simp add: bit_PCI_ADDRESS)
  ultimately show ?thesis by (simp add: addr_fields_def)
qed

text \<open>The address the code writes to select a configuration register carries the bus, device,
  function and word-aligned offset it was given in the fields of the PCI address register, with
  the enable bit set; in particular different registers have different addresses.\<close>

lemma PCI_ADDRESS_roundtrip:
  assumes "dev < 32" "func < 8"
  shows "addr_fields (PCI_ADDRESS bus dev func off) = (ucast bus, ucast dev, ucast func, ucast off AND 0xfc, True)"
  using assms by (rule PCI_ADDRESS_fields)

section \<open>What the scan finds\<close>

text \<open>A machine with configuration space \<open>cfg\<close>: a read of the data port right after a write of the address
  port gives the register at that address.\<close>

definition pci_bus :: "(u32 \<Rightarrow> u32) \<Rightarrow> device \<Rightarrow> bool" where
  "pci_bus cfg hw \<longleftrightarrow> (\<forall>a log. hw (In32 PCI_DATA_PORT # Out32 PCI_ADDRESS_PORT a # log) = cfg a)"

definition cfg_reg :: "(u32 \<Rightarrow> u32) \<Rightarrow> u8 \<times> u8 \<times> u8 \<Rightarrow> u8 \<Rightarrow> u32" where
  "cfg_reg cfg l off = (case l of (b, d, f) \<Rightarrow> cfg (PCI_ADDRESS b d f off))"

definition loc_of :: "pci_dev \<Rightarrow> u8 \<times> u8 \<times> u8" where
  "loc_of d = (pci_busno d, pci_devno d, pci_func d)"

definition matches :: "(u32 \<Rightarrow> u32) \<Rightarrow> u8 \<Rightarrow> u8 \<Rightarrow> u8 \<times> u8 \<times> u8 \<Rightarrow> bool" where
  "matches cfg cl sub l \<longleftrightarrow> cfg_reg cfg l 0 \<noteq> 0xffffffff
     \<and> ucast (drop_bit 24 (cfg_reg cfg l 8) AND 0xff) = cl \<and> ucast (drop_bit 16 (cfg_reg cfg l 8) AND 0xff) = sub"

text \<open>The capability list from \<open>p\<close> on, as offsets, ends.\<close>

fun cap_list :: "(u32 \<Rightarrow> u32) \<Rightarrow> u8 \<times> u8 \<times> u8 \<Rightarrow> u32 \<Rightarrow> u32 list \<Rightarrow> bool" where
  "cap_list cfg l p [] \<longleftrightarrow> False"
| "cap_list cfg l p (q # qs) \<longleftrightarrow> q = p \<and>
     (let n = drop_bit 8 (cfg_reg cfg l (ucast p)) AND 0xff in if n = 0 then qs = [] else cap_list cfg l n qs)"

definition caps_end :: "(u32 \<Rightarrow> u32) \<Rightarrow> u8 \<times> u8 \<times> u8 \<Rightarrow> bool" where
  "caps_end cfg l \<longleftrightarrow> drop_bit 16 (cfg_reg cfg l 4) AND 16 = 0 \<or> (\<exists>ps. cap_list cfg l (cfg_reg cfg l 0x34 AND 0xff) ps)"

lemma pci_read_cfg:
  assumes "pci_bus cfg hw"
  shows "fst (pci_read hw d off s) = cfg_reg cfg (loc_of d) off"
  using assms by (simp add: pci_read_def pci_bus_def cfg_reg_def loc_of_def outl_def inl_def io_def Let_def)

lemma cap_loop_ends:
  assumes "pci_bus cfg hw"
  shows "cap_list cfg (loc_of d) p ps \<Longrightarrow> \<exists>d' s'. cap_loop hw p d s = Some (d', s') \<and> loc_of d' = loc_of d"
proof (induction ps arbitrary: p d s)
  case (Cons q qs)
  let ?r = "pci_read hw d (ucast p) s" and ?h = "cfg_reg cfg (loc_of d) (ucast p)"
  let ?d = "if ?h AND 0xff = 0x05 then d\<lparr>pci_flags := pci_flags d OR PCI_FLAG_MSI_CAPABLE\<rparr> else d"
  have loc: "loc_of ?d = loc_of d" by (simp add: loc_of_def)
  have step: "cap_loop hw p d s = (if drop_bit 8 ?h AND 0xff = 0 then Some (?d, snd ?r)
      else cap_loop hw (drop_bit 8 ?h AND 0xff) ?d (snd ?r))"
    by (subst cap_loop.simps) (simp only: pci_read_cfg [OF assms] Let_def)
  show ?case
  proof (cases "drop_bit 8 ?h AND 0xff = 0")
    case True
    with step loc show ?thesis by simp
  next
    case False
    then have "cap_list cfg (loc_of ?d) (drop_bit 8 ?h AND 0xff) qs" using Cons.prems loc by (simp add: Let_def)
    from Cons.IH [OF this, of "snd ?r"] step False loc show ?thesis by simp
  qed
qed simp

lemma printk_found: "\<exists>t. printk ''found PCI device, bus=0x%x, dev=0x%x, func=0x%d, id=0x%x\<newline>''
    [VWord a, VWord b, VWord c, VWord d] (s :: 'a hw_scheme) = Inr t"
  by (simp add: printk_def vprintk_eq tty.emit_def bytes_def c_string_def spec_directive_def spec_word_def)

lemma check_device:
  assumes "pci_bus cfg hw" "matches cfg cl sub (loc_of d) \<longrightarrow> caps_end cfg (loc_of d)"
  shows "\<exists>d' s'. pci_check_and_init_device hw d cl sub s = Some (Inr (matches cfg cl sub (loc_of d), d', s'))
    \<and> loc_of d' = loc_of d"
proof (cases "matches cfg cl sub (loc_of d)")
  case False
  then show ?thesis
    by (auto simp: pci_check_and_init_device_def split_def Let_def pci_read_cfg [OF assms(1)] matches_def)
next
  case True
  let ?id = "cfg_reg cfg (loc_of d) 0" and ?s1 = "snd (pci_read hw d 8 (snd (pci_read hw d 0 s)))"
  obtain t where t: "printk ''found PCI device, bus=0x%x, dev=0x%x, func=0x%d, id=0x%x\<newline>''
      [VWord (ucast (pci_busno d)), VWord (ucast (pci_devno d)), VWord (ucast (pci_func d)), VWord ?id] ?s1 = Inr t"
    using printk_found by blast
  let ?s2 = "snd (pci_read hw d 4 t)" and ?cap = "cfg_reg cfg (loc_of d) 0x34 AND 0xff"
  have step: "pci_check_and_init_device hw d cl sub s =
      (if drop_bit 16 (cfg_reg cfg (loc_of d) 4) AND 16 \<noteq> 0 then
         case cap_loop hw ?cap d (snd (pci_read hw d 0x34 ?s2)) of None \<Rightarrow> None | Some (d, s) \<Rightarrow> Some (Inr (True, d, s))
       else Some (Inr (True, d, ?s2)))"
    using True t by (simp add: pci_check_and_init_device_def split_def Let_def pci_read_cfg [OF assms(1)] matches_def)
  show ?thesis
  proof (cases "drop_bit 16 (cfg_reg cfg (loc_of d) 4) AND 16 = 0")
    case True
    with step \<open>matches cfg cl sub (loc_of d)\<close> show ?thesis by simp
  next
    case False
    with assms(2) True obtain ps where "cap_list cfg (loc_of d) ?cap ps" by (auto simp: caps_end_def)
    from cap_loop_ends [OF assms(1) this, of "snd (pci_read hw d 0x34 ?s2)"] step False True
    show ?thesis by auto
  qed
qed

text \<open>The functions of a slot that are probed: the first, and seven more if the slot says it has them.\<close>

definition slot_funcs :: "(u32 \<Rightarrow> u32) \<Rightarrow> u8 \<times> u8 \<Rightarrow> (u8 \<times> u8 \<times> u8) list" where
  "slot_funcs cfg bd = (case bd of (b, d) \<Rightarrow>
     (b, d, 0) # (if (ucast (drop_bit 16 (cfg_reg cfg (b, d, 0) 0x0c) AND 0xff) :: u8) AND 0x80 \<noteq> 0
                  then map (\<lambda>f. (b, d, f)) (map of_nat [1..<8]) else []))"

definition scan_result ::
  "(u32 \<Rightarrow> u32) \<Rightarrow> u8 \<Rightarrow> u8 \<Rightarrow> (u8 \<times> u8 \<times> u8) list \<Rightarrow> (bool \<times> pci_dev \<times> 'a hw_scheme) result option \<Rightarrow> bool" where
  "scan_result cfg cl sub ls r \<longleftrightarrow>
     (case find (matches cfg cl sub) ls of
        Some l \<Rightarrow> \<exists>d s. r = Some (Inr (True, d, s)) \<and> loc_of d = l
      | None \<Rightarrow> \<exists>d s. r = Some (Inr (False, d, s)))"

lemma scan_result_seq:
  assumes "scan_result cfg cl sub xs r"
    and "\<And>d s. r = Some (Inr (False, d, s)) \<Longrightarrow> scan_result cfg cl sub ys (k d s)"
  shows "scan_result cfg cl sub (xs @ ys)
    (bindk r (\<lambda>(found, d, s). if found then Some (Inr (True, d, s)) else k d s))"
proof (cases "find (matches cfg cl sub) xs")
  case None
  with assms(1) obtain d s where "r = Some (Inr (False, d, s))" by (auto simp: scan_result_def)
  with assms(2) None show ?thesis by (simp add: scan_result_def find_append)
next
  case (Some l)
  with assms(1) show ?thesis by (auto simp: scan_result_def find_append)
qed

lemma check_result:
  assumes "pci_bus cfg hw" "\<forall>l. matches cfg cl sub l \<longrightarrow> caps_end cfg l"
  shows "scan_result cfg cl sub [loc_of d] (pci_check_and_init_device hw d cl sub s)"
    and "pci_check_and_init_device hw d cl sub s = Some (Inr (f, d', s')) \<Longrightarrow> loc_of d' = loc_of d"
  using check_device [OF assms(1), of cl sub d s] assms(2) by (auto simp: scan_result_def)

lemma func_loop_result:
  assumes "pci_bus cfg hw" "\<forall>l. matches cfg cl sub l \<longrightarrow> caps_end cfg l"
  shows "scan_result cfg cl sub (map (\<lambda>f. (pci_busno d, pci_devno d, f)) fs) (func_loop hw cl sub fs d s)"
proof (induction fs arbitrary: d s)
  case (Cons f fs)
  let ?d = "d\<lparr>pci_func := f\<rparr>" and ?fs = "map (\<lambda>f. (pci_busno d, pci_devno d, f)) fs"
  have "scan_result cfg cl sub ?fs (func_loop hw cl sub fs d1 s1)"
    if "pci_check_and_init_device hw ?d cl sub s = Some (Inr (False, d1, s1))" for d1 s1
    using Cons.IH [of d1 s1] check_result(2) [OF assms that] by (simp add: loc_of_def)
  from scan_result_seq [OF check_result(1) [OF assms, of ?d s], OF this]
  show ?case by (simp add: loc_of_def)
qed (simp add: scan_result_def)

lemma slot_loop_result:
  fixes s :: "'a hw_scheme"
  assumes "pci_bus cfg hw" "\<forall>l. matches cfg cl sub l \<longrightarrow> caps_end cfg l"
  shows "scan_result cfg cl sub (concat (map (slot_funcs cfg) slots)) (slot_loop hw cl sub slots d s)"
proof (induction slots arbitrary: d s)
  case (Cons bd slots)
  obtain b dv where bd: "bd = (b, dv)" by (cases bd)
  let ?d = "d\<lparr>pci_busno := b, pci_devno := dv, pci_func := 0\<rparr>"
  let ?s = "snd (pci_read hw ?d 0x0c s)"
  let ?multi = "(ucast (drop_bit 16 (cfg_reg cfg (b, dv, 0) 0x0c) AND 0xff) :: u8) AND 0x80 \<noteq> 0"
  let ?fs = "if ?multi then map (\<lambda>f. (b, dv, f)) (map of_nat [1..<8]) else []"
  define k where "k = (\<lambda>d (s :: 'a hw_scheme). if ?multi then
      bindk (func_loop hw cl sub (map of_nat [1..<8]) d s) (\<lambda>(found, d, s).
        if found then Some (Inr (True, d, s)) else slot_loop hw cl sub slots d s)
    else slot_loop hw cl sub slots d s)"
  have l0: "loc_of ?d = (b, dv, 0)" by (simp add: loc_of_def)
  have rd: "fst (pci_read hw ?d 0x0c s) = cfg_reg cfg (b, dv, 0) 0x0c" using pci_read_cfg [OF assms(1), of ?d] l0 by simp
  have step: "slot_loop hw cl sub (bd # slots) d s =
      bindk (pci_check_and_init_device hw ?d cl sub ?s) (\<lambda>(found, d, s). if found then Some (Inr (True, d, s)) else k d s)"
    unfolding bd slot_loop.simps Let_def split_def rd k_def by (rule refl)
  have rest: "scan_result cfg cl sub (?fs @ concat (map (slot_funcs cfg) slots)) (k d1 s1)"
    if "pci_check_and_init_device hw ?d cl sub ?s = Some (Inr (False, d1, s1))" for d1 s1
  proof (cases ?multi)
    case True
    have "pci_busno d1 = b" "pci_devno d1 = dv" using check_result(2) [OF assms that] by (simp_all add: loc_of_def)
    with func_loop_result [OF assms, of d1 "map of_nat [1..<8]" s1]
    have F: "scan_result cfg cl sub (map (\<lambda>f. (b, dv, f)) (map of_nat [1..<8])) (func_loop hw cl sub (map of_nat [1..<8]) d1 s1)"
      by simp
    from scan_result_seq [OF F Cons.IH] True show ?thesis by (simp add: k_def)
  qed (use Cons.IH in \<open>simp add: k_def\<close>)
  have sf: "concat (map (slot_funcs cfg) (bd # slots)) = [loc_of ?d] @ ?fs @ concat (map (slot_funcs cfg) slots)"
    unfolding l0 bd by (simp add: slot_funcs_def)
  show ?case unfolding step sf
    by (rule scan_result_seq [OF check_result(1) [OF assms, of ?d ?s] rest])
qed (simp add: scan_result_def)

text \<open>C28. On a machine with configuration space \<open>cfg\<close> on which every function of the class and subclass asked for
  either has no capability list or has one that ends (nothing is asked of the other functions, nor of the
  absent ones, whose registers all read \<^verbatim>\<open>0xffffffff\<close>), \<open>pci_find_device\<close> always returns, and reports the first
  function with that class and subclass, in the order bus, device, function (functions 1 to 7 only for
  devices that say they have several), and reports none exactly when there is none.\<close>

theorem pci_find_device_first:
  assumes "pci_bus cfg hw" "\<forall>l. matches cfg cl sub l \<longrightarrow> caps_end cfg l"
  shows "case find (matches cfg cl sub) (concat (map (slot_funcs cfg) all_slots)) of
      Some l \<Rightarrow> \<exists>d' s'. pci_find_device hw d cl sub s = Some (Inr (True, d', s')) \<and> loc_of d' = l
    | None \<Rightarrow> \<exists>d' s'. pci_find_device hw d cl sub s = Some (Inr (False, d', s'))"
  using slot_loop_result [OF assms, of all_slots d s] unfolding scan_result_def pci_find_device_def .

definition hw0 :: hw where
  "hw0 = console.extend (console0 0 0) \<lparr>io_log = [], eflags = 2\<rparr>"

text \<open>The bus of a small machine: a host bridge at \<open>0:0.0\<close>, and at \<open>0:1\<close> a device of several functions, with
  an ISA bridge as function 0 and an IDE controller as function 1, which has a capability list of one element. Every other register reads
  \<^verbatim>\<open>0xffffffff\<close>, so every other function is absent.\<close>

definition small_bus :: "u32 \<Rightarrow> u32" where
  "small_bus = (\<lambda>_. 0xffffffff)(0x80000000 := 0x12378086, 0x80000008 := 0x06000002, 0x8000000c := 0,
     0x80000800 := 0x70008086, 0x80000808 := 0x06010000, 0x8000080c := 0x00800000,
     0x80000900 := 0x70108086, 0x80000904 := 0x00100005, 0x80000908 := 0x01018000, 0x80000934 := 0x40, 0x80000940 := 5)"

definition small_hw :: device where
  "small_hw log = (case log of In32 _ # Out32 _ a # _ \<Rightarrow> small_bus a | _ \<Rightarrow> 0)"

lemma PCI_ADDRESS_offset:
  "PCI_ADDRESS b d f off = (PCI_ADDRESS b d f off' AND NOT 0xff) OR (ucast off AND 0xfc)"
proof (rule bit_word_eqI)
  fix n assume n: "n < LENGTH(32)"
  have "(0xff :: u32) = mask 8" by (simp add: mask_eq_exp_minus_1)
  then have m: "bit (NOT 0xff :: u32) n \<longleftrightarrow> 8 \<le> n" using n by (simp only: bit_not_iff bit_mask_iff possible_bit_word) auto
  have "bit (ucast off :: u32) n \<longleftrightarrow> n < 8 \<and> bit off n" using bit_field [of 0 off n] by simp
  then show "bit (PCI_ADDRESS b d f off) n = bit ((PCI_ADDRESS b d f off' AND NOT 0xff) OR (ucast off AND 0xfc)) n"
    by (simp only: bit_or_iff bit_and_iff m bit_fc bit_PCI_ADDRESS) auto
qed

lemma small_bus_caps: "matches small_bus 1 1 l \<longrightarrow> caps_end small_bus l"
proof
  obtain b d f where l: "l = (b, d, f)" by (cases l)
  assume "matches small_bus 1 1 l"
  then have c: "(ucast (drop_bit 24 (small_bus (PCI_ADDRESS b d f 8)) AND 0xff) :: u8) = 1" by (simp add: matches_def cfg_reg_def l)
  have "PCI_ADDRESS b d f 8 = 0x80000908"
  proof (rule ccontr)
    assume "PCI_ADDRESS b d f 8 \<noteq> 0x80000908"
    then have "small_bus (PCI_ADDRESS b d f 8) \<in> {0xffffffff, 0x12378086, 0x06000002, 0, 0x70008086, 0x06010000, 0x00800000,
        0x70108086, 0x00100005, 0x40, 5}" by (simp add: small_bus_def)
    with c show False by auto
  qed
  with PCI_ADDRESS_offset [of b d f _ 8] have "PCI_ADDRESS b d f off = 0x80000900 OR (ucast off AND 0xfc)" for off by simp
  then have "cap_list small_bus l (cfg_reg small_bus l 0x34 AND 0xff) [0x40]" by (simp add: cfg_reg_def l small_bus_def)
  then show "caps_end small_bus l" unfolding caps_end_def by blast
qed

lemma small_bus_slots: "\<exists>r. concat (map (slot_funcs small_bus) all_slots) = [(0, 0, 0), (0, 1, 0), (0, 1, 1)] @ r"
proof -
  have "all_slots = (0, 0) # (0, 1) # map (\<lambda>dev. (0, of_nat dev)) [2..<32]
      @ concat (map (\<lambda>bus. map (\<lambda>dev. (of_nat bus, of_nat dev)) [0..<32]) [1..<256])"
    using upt_conv_Cons [of 0 256] upt_conv_Cons [of 0 32] upt_conv_Cons [of 1 32] by (simp add: all_slots_def numeral_2_eq_2)
  then have "\<exists>r. all_slots = (0, 0) # (0, 1) # r" by blast
  moreover have "slot_funcs small_bus (0, 0) = [(0, 0, 0)]"
    by (simp add: slot_funcs_def cfg_reg_def PCI_ADDRESS_def small_bus_def)
  moreover have "\<exists>r. slot_funcs small_bus (0, 1) = (0, 1, 0) # (0, 1, 1) # r"
    using upt_conv_Cons [of 1 8] by (simp add: slot_funcs_def cfg_reg_def PCI_ADDRESS_def small_bus_def)
  ultimately obtain r r' where r: "all_slots = (0, 0) # (0, 1) # r" "slot_funcs small_bus (0, 0) = [(0, 0, 0)]"
    "slot_funcs small_bus (0, 1) = (0, 1, 0) # (0, 1, 1) # r'" by blast
  have "concat (map (slot_funcs small_bus) all_slots) = [(0, 0, 0), (0, 1, 0), (0, 1, 1)] @ r' @ concat (map (slot_funcs small_bus) r)"
    unfolding r list.map r concat.simps append.simps ..
  then show ?thesis by blast
qed

theorem pci_find_device_first_witness:
  "\<exists>d' s'. pci_find_device small_hw \<lparr>pci_busno = 0, pci_devno = 0, pci_func = 0, pci_flags = 0\<rparr> 1 1 hw0 = Some (Inr (True, d', s'))
     \<and> loc_of d' = (0, 1, 1)"
proof -
  obtain r where r: "concat (map (slot_funcs small_bus) all_slots) = [(0, 0, 0), (0, 1, 0), (0, 1, 1)] @ r"
    using small_bus_slots by blast
  have m: "\<not> matches small_bus 1 1 (0, 0, 0)" "\<not> matches small_bus 1 1 (0, 1, 0)" "matches small_bus 1 1 (0, 1, 1)"
    by (simp_all add: matches_def cfg_reg_def PCI_ADDRESS_def small_bus_def)
  have "find (matches small_bus 1 1) (concat (map (slot_funcs small_bus) all_slots)) = Some (0, 1, 1)"
    unfolding r using m by simp
  moreover have "pci_bus small_bus small_hw" by (simp add: pci_bus_def small_hw_def)
  moreover have "\<forall>l. matches small_bus 1 1 l \<longrightarrow> caps_end small_bus l" using small_bus_caps by blast
  ultimately show ?thesis
    using pci_find_device_first [of small_bus small_hw 1 1 "\<lparr>pci_busno = 0, pci_devno = 0, pci_func = 0, pci_flags = 0\<rparr>" hw0] by simp
qed

end
