(* ===== verification/Ata.thy ===== *)
theory Ata
  imports Sched Pci
begin

text \<open>
  The disk driver: \<^verbatim>\<open>src/ata.c\<close> and \<^verbatim>\<open>src/ata.h\<close>.

  A \<^verbatim>\<open>struct ata_req\<close> lives on the kernel stack of the task that waits for it; requests are a store
  \<open>reqs\<close> from their addresses to their contents, chained by \<open>rq_next\<close> from \<open>req_queue\<close>, and \<^verbatim>\<open>NULL\<close>
  is address 0. All requests are for the one device \<open>primary_master\<close>. The queue operations are
  refined to a FIFO list through the locale \<open>fifo\<close>; the disk itself is a device that answers the
  port reads. \<open>ata_read\<close> runs up to the switch to the scheduler: what follows in the C function is
  \<^verbatim>\<open>return 0\<close>, once the task runs again.
\<close>

section \<open>State\<close>

record ata_dev =
  io_base :: u16
  io_ctrl_base :: u16

record ata_req =
  rq_buf :: u32
  rq_lba :: u32
  rq_count :: u32
  rq_next :: u32
  rq_task :: nat

record ata = sched +
  primary_master :: ata_dev
  req_queue :: u32
  reqs :: "u32 \<Rightarrow> ata_req"

definition ATA_REG :: "ata_dev \<Rightarrow> u16 \<Rightarrow> u16" where "ATA_REG d offset = io_base d + offset"
definition ATA_DATA_REG :: "ata_dev \<Rightarrow> u16" where "ATA_DATA_REG d = ATA_REG d 0"
definition ATA_ERR_REG :: "ata_dev \<Rightarrow> u16" where "ATA_ERR_REG d = ATA_REG d 1"
definition ATA_FEAT_REG :: "ata_dev \<Rightarrow> u16" where "ATA_FEAT_REG d = ATA_REG d 1"
definition ATA_SECCOUNT_REG :: "ata_dev \<Rightarrow> u16" where "ATA_SECCOUNT_REG d = ATA_REG d 2"
definition ATA_LBA_LO_REG :: "ata_dev \<Rightarrow> u16" where "ATA_LBA_LO_REG d = ATA_REG d 3"
definition ATA_LBA_MID_REG :: "ata_dev \<Rightarrow> u16" where "ATA_LBA_MID_REG d = ATA_REG d 4"
definition ATA_LBA_HI_REG :: "ata_dev \<Rightarrow> u16" where "ATA_LBA_HI_REG d = ATA_REG d 5"
definition ATA_DRIVE_REG :: "ata_dev \<Rightarrow> u16" where "ATA_DRIVE_REG d = ATA_REG d 6"
definition ATA_COMMAND_REG :: "ata_dev \<Rightarrow> u16" where "ATA_COMMAND_REG d = ATA_REG d 7"
definition ATA_ALT_STATUS_REG :: "ata_dev \<Rightarrow> u16" where "ATA_ALT_STATUS_REG d = io_ctrl_base d + 0"
definition ATA_CONTROL_REG :: "ata_dev \<Rightarrow> u16" where "ATA_CONTROL_REG d = io_ctrl_base d + 0"

definition ATA_STATUS_ERR :: u8 where "ATA_STATUS_ERR = push_bit 0 1"
definition ATA_STATUS_DRQ :: u8 where "ATA_STATUS_DRQ = push_bit 3 1"
definition ATA_STATUS_BSY :: u8 where "ATA_STATUS_BSY = push_bit 7 1"
definition ATA_CMD_IDENTIFY :: u8 where "ATA_CMD_IDENTIFY = 0xec"
definition ATA_CMD_READ_SECTORS :: u8 where "ATA_CMD_READ_SECTORS = 0x20"
definition ATA_SELECT_MASTER :: u8 where "ATA_SELECT_MASTER = 0xa0"

section \<open>Commands\<close>

definition ata_wait :: "device \<Rightarrow> ata_dev \<Rightarrow> 'a hw_scheme \<Rightarrow> 'a hw_scheme" where
  "ata_wait hw d s = snd (inb hw (ATA_ALT_STATUS_REG d) (snd (inb hw (ATA_ALT_STATUS_REG d)
     (snd (inb hw (ATA_ALT_STATUS_REG d) (snd (inb hw (ATA_ALT_STATUS_REG d) s)))))))"

definition ata_issue_read_sectors :: "ata_req \<Rightarrow> 'a ata_scheme \<Rightarrow> 'a ata_scheme result" where
  "ata_issue_read_sectors req s =
     (if 256 \<le>s rq_count req then Inl (Panic ''bug: 'req->sectors_count >= 256' '')
      else
        let d = primary_master s;
            s = outb (ATA_DRIVE_REG d) (ATA_SELECT_MASTER OR 0x40 OR ucast (drop_bit 24 (rq_lba req) AND 0x0f)) s;
            s = outb (ATA_FEAT_REG d) 0 s;
            s = outb (ATA_SECCOUNT_REG d) (ucast (rq_count req)) s;
            s = outb (ATA_LBA_LO_REG d) (ucast (rq_lba req AND 0xff)) s;
            s = outb (ATA_LBA_MID_REG d) (ucast (drop_bit 8 (rq_lba req) AND 0xff)) s;
            s = outb (ATA_LBA_HI_REG d) (ucast (drop_bit 16 (rq_lba req) AND 0xff)) s
        in Inr (outb (ATA_COMMAND_REG d) ATA_CMD_READ_SECTORS s))"

section \<open>The request queue\<close>

partial_function (option) last_req :: "(u32 \<Rightarrow> ata_req) \<Rightarrow> u32 \<Rightarrow> u32 option" where
  "last_req rs ptr = (if rq_next (rs ptr) \<noteq> NULL then last_req rs (rq_next (rs ptr)) else Some ptr)"

type_synonym req_chain = "u32 \<times> (u32 \<Rightarrow> ata_req)"

text \<open>The end of the list and \<^verbatim>\<open>ptr->next = &req\<close>, or the new head of an empty queue.\<close>

definition enqueue :: "u32 \<Rightarrow> req_chain \<Rightarrow> req_chain option" where
  "enqueue a c = (case c of (q, rs) \<Rightarrow>
     if q = NULL then Some (a, rs)
     else case last_req rs q of None \<Rightarrow> None
       | Some ptr \<Rightarrow> Some (q, rs(ptr := (rs ptr)\<lparr>rq_next := a\<rparr>)))"

definition dequeue :: "req_chain \<Rightarrow> req_chain" where
  "dequeue c = (case c of (q, rs) \<Rightarrow> (rq_next (rs q), rs))"

definition ata_process_request :: "device \<Rightarrow> 'a ata_scheme \<Rightarrow> 'a ata_scheme result" where
  "ata_process_request hw s =
     (if req_queue s = NULL then Inl (Panic ''bug: 'req_queue == NULL' '')
      else
        let q = req_queue s; req = reqs s q; d = primary_master s
        in if rq_buf req = NULL then Inl (Panic ''bug: '!req->buf' '')
           else if rq_count req = 0 then Inl (Panic ''bug: 'req->sectors_count == 0' '')
           else
             let s = fold (\<lambda>i s. let (w, s) = inw hw (ATA_DATA_REG d) s
                                 in s\<lparr>ram := store16 (ram s) (rq_buf req + 2 * of_nat i) w\<rparr>) [0..<256] s;
                 s = ata_wait hw d s;
                 req = req\<lparr>rq_buf := rq_buf req + 256 * 2, rq_count := rq_count req - 1\<rparr>;
                 s = s\<lparr>reqs := (reqs s)(q := req)\<rparr>
             in if rq_count req = 0 then
                  let s = upd_task (rq_task req) (\<lambda>t. t\<lparr>state := TASK_RUNNING\<rparr>) s;
                      s = s\<lparr>req_queue := fst (dequeue (req_queue s, reqs s))\<rparr>
                  in if req_queue s \<noteq> NULL then ata_issue_read_sectors (reqs s (req_queue s)) s else Inr s
                else Inr s)"

definition ide_irq1 :: "device \<Rightarrow> 'a ata_scheme \<Rightarrow> 'a ata_scheme result" where
  "ide_irq1 hw s = (case ata_process_request hw s of Inl e \<Rightarrow> Inl e | Inr s \<Rightarrow> Inr (apic_eoi s))"

definition ide_irq2 :: "'a ata_scheme \<Rightarrow> 'a ata_scheme" where
  "ide_irq2 s = apic_eoi s"

definition ata_read :: "u32 \<Rightarrow> u32 \<Rightarrow> u32 \<Rightarrow> u32 \<Rightarrow> 'a ata_scheme \<Rightarrow> 'a ata_scheme result option" where
  "ata_read req_addr buf lba seccount s =
     (case current s of None \<Rightarrow> Some (Inl (Panic ''bug: '!current' ''))
      | Some cur \<Rightarrow>
          let req = \<lparr>rq_buf = buf, rq_lba = lba, rq_count = seccount, rq_next = NULL, rq_task = cur\<rparr>;
              s = s\<lparr>reqs := (reqs s)(req_addr := req)\<rparr>;
              (irq_state, s) = disable_irq_safe s;
              s = upd_task cur (\<lambda>t. t\<lparr>state := TASK_DISK_READ\<rparr>) s
          in case enqueue req_addr (req_queue s, reqs s) of None \<Rightarrow> None
             | Some (q, rs) \<Rightarrow>
                 (case (if req_queue s = NULL then ata_issue_read_sectors req (s\<lparr>req_queue := q, reqs := rs\<rparr>)
                        else Inr (s\<lparr>req_queue := q, reqs := rs\<rparr>)) of
                    Inl e \<Rightarrow> Some (Inl e)
                  | Inr s \<Rightarrow> Some (reschedule (restore_irq irq_state s))))"

section \<open>Initialisation\<close>

partial_function (option) poll_loop :: "device \<Rightarrow> ata_dev \<Rightarrow> 'a hw_scheme \<Rightarrow> (u8 \<times> 'a hw_scheme) option" where
  "poll_loop hw d s =
     (let r = inb hw (ATA_ALT_STATUS_REG d) s; status = fst r;
          drq = status AND ATA_STATUS_DRQ; err = status AND ATA_STATUS_ERR; bsy = status AND ATA_STATUS_BSY
      in if bsy \<noteq> 0 \<or> drq = 0 \<and> err = 0 then poll_loop hw d (snd r) else Some (err, snd r))"

definition ata_poll :: "device \<Rightarrow> ata_dev \<Rightarrow> 'a hw_scheme \<Rightarrow> (u8 \<times> 'a hw_scheme) option" where
  "ata_poll hw d s =
     (case poll_loop hw d s of None \<Rightarrow> None
      | Some (err, s) \<Rightarrow> if err \<noteq> 0 then Some (inb hw (ATA_ERR_REG d) s) else Some (0, s))"

definition ata_init_dev :: "device \<Rightarrow> 'a ata_scheme \<Rightarrow> 'a ata_scheme result option" where
  "ata_init_dev hw s =
     (let s = s\<lparr>primary_master := \<lparr>io_base = 0x1f0, io_ctrl_base = 0x3f6\<rparr>\<rparr>;
          d = primary_master s;
          s = outb (ATA_DRIVE_REG d) ATA_SELECT_MASTER s;
          s = outb (ATA_CONTROL_REG d) (push_bit 1 1) s;
          s = outb (ATA_SECCOUNT_REG d) 0 s;
          s = outb (ATA_LBA_LO_REG d) 0 s;
          s = outb (ATA_LBA_MID_REG d) 0 s;
          s = outb (ATA_LBA_HI_REG d) 0 s;
          s = outb (ATA_COMMAND_REG d) ATA_CMD_IDENTIFY s;
          (st, s) = inb hw (ATA_ALT_STATUS_REG d) s
      in if st = 0 then Some (Inl (Panic ''cannot init ATA primary master''))
         else
           let (lba_lo, s) = inb hw (ATA_LBA_LO_REG d) s;
               (lba_hi, s) = inb hw (ATA_LBA_HI_REG d) s
           in if lba_lo \<noteq> 0 \<or> lba_hi \<noteq> 0 then Some (Inl (Panic ''cannot init ATA primary master''))
              else case ata_poll hw d s of None \<Rightarrow> None
                | Some (err, s) \<Rightarrow>
                    if err \<noteq> 0 then Some (Inl (Panic ''error while ATA primary master init''))
                    else let s = fold (\<lambda>i s. snd (inw hw (ATA_DATA_REG d) s)) [0..<256 :: nat] s
                         in Some (Inr (outb (ATA_CONTROL_REG d) 0 s)))"

definition ata_init :: "device \<Rightarrow> pci_dev \<Rightarrow> 'a ata_scheme \<Rightarrow> 'a ata_scheme result option" where
  "ata_init hw pd s =
     bindk (pci_find_device hw pd PCI_CLASS_MASS_STORAGE_CONTROLLER PCI_SUBCLASS_IDE s) (\<lambda>(found, pd, s).
       if \<not> found then Some (Inl (Panic ''no IDE controller found'')) else ata_init_dev hw s)"

section \<open>The queue is first-in first-out\<close>

text \<open>The contract of a linked queue over a store of nodes: \<open>rep c xs\<close> says that the nodes \<open>xs\<close> are queued
  in this order, \<open>node a c\<close> that \<open>a\<close> may be appended. A node can be appended only once.\<close>

locale fifo =
  fixes rep :: "'c \<Rightarrow> 'n list \<Rightarrow> bool" and node :: "'n \<Rightarrow> 'c \<Rightarrow> bool"
    and push :: "'n \<Rightarrow> 'c \<Rightarrow> 'c option" and pop :: "'c \<Rightarrow> 'c"
  assumes rep_distinct: "rep c xs \<Longrightarrow> distinct xs"
    and push_rep: "rep c xs \<Longrightarrow> node a c \<Longrightarrow> a \<notin> set xs \<Longrightarrow> \<exists>c'. push a c = Some c' \<and> rep c' (xs @ [a])"
    and push_node: "rep c xs \<Longrightarrow> push a c = Some c' \<Longrightarrow> node b c \<Longrightarrow> b \<notin> set xs \<Longrightarrow> node b c'"
    and pop_rep: "rep c (a # xs) \<Longrightarrow> rep (pop c) xs"
begin

fun pushes :: "'n list \<Rightarrow> 'c \<Rightarrow> 'c option" where
  "pushes [] c = Some c"
| "pushes (a # as) c = (case push a c of None \<Rightarrow> None | Some c' \<Rightarrow> pushes as c')"

lemma pushes_rep:
  "rep c xs \<Longrightarrow> list_all (\<lambda>a. node a c) as \<Longrightarrow> distinct (xs @ as) \<Longrightarrow>
    \<exists>c'. pushes as c = Some c' \<and> rep c' (xs @ as)"
proof (induction as arbitrary: c xs)
  case (Cons a as)
  then obtain c' where c': "push a c = Some c'" "rep c' (xs @ [a])" using push_rep [of c xs a] by auto
  have "list_all (\<lambda>a. node a c') as"
    using Cons.prems push_node [OF Cons.prems(1) c'(1)] by (auto simp: list_all_iff)
  with Cons.IH [of c' "xs @ [a]"] c' Cons.prems show ?case by auto
qed simp

lemma pops_rep: "rep c (xs @ ys) \<Longrightarrow> rep ((pop ^^ length xs) c) ys"
proof (induction xs arbitrary: c)
  case (Cons x xs)
  then have "rep ((pop ^^ length xs) (pop c)) ys" using pop_rep by simp
  then show ?case by (simp add: funpow_swap1)
qed simp

end

fun chain :: "(u32 \<Rightarrow> ata_req) \<Rightarrow> u32 \<Rightarrow> u32 list \<Rightarrow> bool" where
  "chain rs q [] \<longleftrightarrow> q = NULL"
| "chain rs q (a # as) \<longleftrightarrow> q = a \<and> a \<noteq> NULL \<and> chain rs (rq_next (rs a)) as"

definition queued :: "req_chain \<Rightarrow> u32 list \<Rightarrow> bool" where
  "queued c as \<longleftrightarrow> chain (snd c) (fst c) as"

definition detached :: "u32 \<Rightarrow> req_chain \<Rightarrow> bool" where
  "detached a c \<longleftrightarrow> a \<noteq> NULL \<and> rq_next (snd c a) = NULL"

lemma chain_unique: "chain rs q as \<Longrightarrow> chain rs q bs \<Longrightarrow> as = bs"
proof (induction as arbitrary: q bs)
  case Nil
  then show ?case by (cases bs) auto
next
  case (Cons a as)
  then show ?case by (cases bs) auto
qed

lemma chain_split: "chain rs q (as @ b # bs) \<Longrightarrow> b \<noteq> NULL \<and> chain rs (rq_next (rs b)) bs"
  by (induction as arbitrary: q) auto

lemma chain_distinct: "chain rs q as \<Longrightarrow> distinct as"
proof (induction as arbitrary: q)
  case (Cons a as)
  have "a \<notin> set as"
  proof
    assume "a \<in> set as"
    then obtain ys zs where as: "as = ys @ a # zs" by (auto simp: in_set_conv_decomp)
    have "chain rs q ([] @ a # as)" "chain rs q ((a # ys) @ a # zs)" using Cons.prems as by auto
    from chain_split [OF this(1)] chain_split [OF this(2)] have "as = zs" by (auto intro: chain_unique)
    with as show False by simp
  qed
  with Cons show ?case by auto
qed simp

text \<open>Only the link of a node matters, and only for the nodes of the list.\<close>

lemma chain_cong: "(\<And>a. a \<in> set as \<Longrightarrow> rq_next (rs' a) = rq_next (rs a)) \<Longrightarrow> chain rs' q as = chain rs q as"
  by (induction as arbitrary: q) auto

lemma chain_upd [simp]: "a \<notin> set as \<Longrightarrow> chain (rs(a := r)) q as = chain rs q as"
  by (rule chain_cong) auto

lemma chain_head: "chain rs q as \<Longrightarrow> q = NULL \<longleftrightarrow> as = []"
  by (cases as) auto

lemma last_req_chain: "chain rs q (as @ [b]) \<Longrightarrow> last_req rs q = Some b"
proof (induction as arbitrary: q)
  case (Cons a as)
  then have "rq_next (rs q) \<noteq> NULL" "chain rs (rq_next (rs q)) (as @ [b])" using chain_head by auto
  with Cons.IH show ?case by (simp add: last_req.simps [of rs q])
qed (simp add: last_req.simps)

lemma chain_append:
  assumes "chain rs q (as @ [b])" "a \<noteq> NULL" "rq_next (rs a) = NULL" "a \<notin> set (as @ [b])"
  shows "chain (rs(b := (rs b)\<lparr>rq_next := a\<rparr>)) q (as @ [b, a])"
  using assms chain_distinct [OF assms(1)]
proof (induction as arbitrary: q)
  case (Cons x as)
  then show ?case by (cases as) auto
qed simp

lemma enqueue_queued:
  assumes "queued c as" "detached a c" "a \<notin> set as"
  shows "\<exists>c'. enqueue a c = Some c' \<and> queued c' (as @ [a])"
proof (cases as rule: rev_cases)
  case Nil
  with assms show ?thesis by (cases c) (auto simp: enqueue_def queued_def detached_def)
next
  case (snoc bs b)
  with assms have l: "last_req (snd c) (fst c) = Some b" "fst c \<noteq> NULL"
    by (auto simp: queued_def chain_head intro: last_req_chain)
  show ?thesis
    using l assms snoc chain_append [of "snd c" "fst c" bs b a]
    by (cases c) (auto simp: enqueue_def queued_def detached_def)
qed

lemma enqueue_detached:
  assumes "queued c as" "enqueue a c = Some c'" "detached b c" "b \<notin> set as"
  shows "detached b c'"
proof (cases as rule: rev_cases)
  case Nil
  with assms show ?thesis by (cases c) (auto simp: enqueue_def queued_def detached_def)
next
  case (snoc bs d)
  with assms(1) have l: "last_req (snd c) (fst c) = Some d" by (auto simp: queued_def intro: last_req_chain)
  with assms snoc show ?thesis by (cases c) (auto simp: enqueue_def detached_def split: if_splits)
qed

interpretation reqs: fifo queued detached enqueue dequeue
proof unfold_locales
  fix c as show "queued c as \<Longrightarrow> distinct as" by (simp add: queued_def chain_distinct)
next
  fix c a as assume "queued c (a # as)"
  then show "queued (dequeue c) as" by (cases c) (auto simp: queued_def dequeue_def)
qed (fact enqueue_queued enqueue_detached)+

section \<open>Polling the drive\<close>

lemmas ata_regs = ATA_REG_def ATA_DATA_REG_def ATA_ERR_REG_def ATA_FEAT_REG_def ATA_SECCOUNT_REG_def ATA_LBA_LO_REG_def
  ATA_LBA_MID_REG_def ATA_LBA_HI_REG_def ATA_DRIVE_REG_def ATA_COMMAND_REG_def ATA_ALT_STATUS_REG_def ATA_CONTROL_REG_def
  ATA_SELECT_MASTER_def ATA_CMD_READ_SECTORS_def

text \<open>The \<open>k\<close>-th status the drive shows, and when the loop of \<open>ata_poll\<close> looks again.\<close>

definition status_at :: "device \<Rightarrow> ata_dev \<Rightarrow> 'a hw_scheme \<Rightarrow> nat \<Rightarrow> u8" where
  "status_at hw d s k = ucast (hw (replicate (Suc k) (In8 (io_ctrl_base d)) @ io_log s))"

definition busy :: "u8 \<Rightarrow> bool" where
  "busy st \<longleftrightarrow> st AND ATA_STATUS_BSY \<noteq> 0 \<or> st AND ATA_STATUS_DRQ = 0 \<and> st AND ATA_STATUS_ERR = 0"

lemma status_at_Suc: "status_at hw d (snd (inb hw (ATA_ALT_STATUS_REG d) s)) k = status_at hw d s (Suc k)"
  by (simp add: status_at_def inb_def io_def Let_def ata_regs replicate_append_same [symmetric])
     (metis append.assoc append_Cons append_Nil replicate_Suc replicate_append_same)

lemma poll_loop_step:
  "poll_loop hw d s = (if busy (status_at hw d s 0) then poll_loop hw d (snd (inb hw (ATA_ALT_STATUS_REG d) s))
     else Some (status_at hw d s 0 AND ATA_STATUS_ERR, snd (inb hw (ATA_ALT_STATUS_REG d) s)))"
  by (subst poll_loop.simps) (simp add: busy_def status_at_def inb_def io_def Let_def ata_regs)

lemma poll_loop_Some:
  "\<forall>k<n. busy (status_at hw d s k) \<Longrightarrow> \<not> busy (status_at hw d s n) \<Longrightarrow>
    \<exists>t. poll_loop hw d s = Some (status_at hw d s n AND ATA_STATUS_ERR, t)"
proof (induction n arbitrary: s)
  case 0
  then show ?case by (subst poll_loop_step) simp
next
  case (Suc n)
  then have "\<exists>t. poll_loop hw d (snd (inb hw (ATA_ALT_STATUS_REG d) s)) = Some (status_at hw d s (Suc n) AND ATA_STATUS_ERR, t)"
    using Suc.IH [of "snd (inb hw (ATA_ALT_STATUS_REG d) s)"] by (auto simp: status_at_Suc)
  moreover have "busy (status_at hw d s 0)" using Suc.prems by blast
  ultimately show ?case by (subst poll_loop_step) simp
qed

lemma poll_loop_None: "poll_loop hw d s = Some r \<Longrightarrow> \<exists>n. \<not> busy (status_at hw d s n)"
proof (erule poll_loop.raw_induct [where P = "\<lambda>hw d s r. \<exists>n. \<not> busy (status_at hw d s n)", rotated])
  fix f hw d r and s :: "'a hw_scheme"
  assume IH: "\<And>hw d (s :: 'a hw_scheme) r. f hw d s = Some r \<Longrightarrow> \<exists>n. \<not> busy (status_at hw d s n)"
    and eq: "(let r = inb hw (ATA_ALT_STATUS_REG d) s; status = fst r; drq = status AND ATA_STATUS_DRQ;
      err = status AND ATA_STATUS_ERR; bsy = status AND ATA_STATUS_BSY
      in if bsy \<noteq> 0 \<or> drq = 0 \<and> err = 0 then f hw d (snd r) else Some (err, snd r)) = Some r"
  have st: "status_at hw d s 0 = fst (inb hw (ATA_ALT_STATUS_REG d) s)"
    by (simp add: status_at_def inb_def io_def Let_def ata_regs)
  show "\<exists>n. \<not> busy (status_at hw d s n)"
  proof (cases "busy (status_at hw d s 0)")
    case True
    then have "f hw d (snd (inb hw (ATA_ALT_STATUS_REG d) s)) = Some r" using eq unfolding st busy_def Let_def by simp
    from IH [OF this] show ?thesis by (auto simp: status_at_Suc)
  qed blast
qed

text \<open>\<open>ata_poll\<close> returns exactly if the drive some time shows a status that is not busy.\<close>

lemma ata_poll_returns: "ata_poll hw d s \<noteq> None \<longleftrightarrow> (\<exists>n. \<not> busy (status_at hw d s n))"
proof
  assume "ata_poll hw d s \<noteq> None"
  then obtain r where "poll_loop hw d s = Some r" by (auto simp: ata_poll_def split: option.splits)
  then show "\<exists>n. \<not> busy (status_at hw d s n)" by (rule poll_loop_None)
next
  assume "\<exists>n. \<not> busy (status_at hw d s n)"
  then obtain n where "\<not> busy (status_at hw d s n)" "\<forall>k<n. busy (status_at hw d s k)"
    using exists_least_iff [of "\<lambda>n. \<not> busy (status_at hw d s n)"] by blast
  then show "ata_poll hw d s \<noteq> None" using poll_loop_Some [of n hw d s] by (auto simp: ata_poll_def)
qed

end
