(* ===== verification/Disk.thy ===== *)
theory Disk
  imports Ata
begin

text \<open>
  The disk driver of \<open>Ata\<close> together with a drive and the scheduler. A drive is a device that follows the
  ATA standard (\<open>ata_disk\<close>): it answers reads of the data register from the sectors that the last
  command selected. The theorems: interrupts transfer the sectors of a request and wake its task,
  \<open>ata_read\<close> queues and blocks, and in every interleaving the tasks in the disk wait are those with
  a queued request.
\<close>

section \<open>The disk at the other end\<close>

text \<open>What the ATA standard says of a drive whose bytes are \<open>D\<close>: the last command in the history of
  accesses and the task file registers written before it select a range of sectors, and
  the reads of the data register return the words of these sectors in order. \<open>base\<close> is the
  first port of the task file.\<close>

definition is_cmd :: "u16 \<Rightarrow> io_event \<Rightarrow> bool" where
  "is_cmd base e \<longleftrightarrow> (case e of Out8 p v \<Rightarrow> p = base + 7 | _ \<Rightarrow> False)"

fun last_out :: "u16 \<Rightarrow> io_event list \<Rightarrow> u8" where
  "last_out p [] = 0"
| "last_out p (e # es) = (case e of Out8 q v \<Rightarrow> if q = p then v else last_out p es | _ \<Rightarrow> last_out p es)"

definition data_reads :: "u16 \<Rightarrow> io_event list \<Rightarrow> nat" where
  "data_reads base log = length (filter (\<lambda>e. e = In16 base) (takeWhile (\<lambda>e. \<not> is_cmd base e) log))"

text \<open>The first sector and the number of sectors of the \<^verbatim>\<open>READ SECTORS\<close> command in progress.\<close>

definition read_cmd :: "u16 \<Rightarrow> io_event list \<Rightarrow> (nat \<times> nat) option" where
  "read_cmd base log =
     (case dropWhile (\<lambda>e. \<not> is_cmd base e) log of [] \<Rightarrow> None
      | e # l \<Rightarrow>
          if e = Out8 (base + 7) 0x20 \<and> last_out (base + 6) l AND 0xf0 = 0xe0 then
            Some (unat (last_out (base + 3) l) + 256 * unat (last_out (base + 4) l)
                  + 65536 * unat (last_out (base + 5) l) + 16777216 * (unat (last_out (base + 6) l) mod 16),
                  if last_out (base + 2) l = 0 then 256 else unat (last_out (base + 2) l))
          else None)"

definition disk_word :: "(nat \<Rightarrow> u8) \<Rightarrow> nat \<Rightarrow> u16" where
  "disk_word D w = ucast (D (2 * w)) OR push_bit 8 (ucast (D (2 * w + 1)))"

definition ata_disk :: "(nat \<Rightarrow> u8) \<Rightarrow> u16 \<Rightarrow> device \<Rightarrow> bool" where
  "ata_disk D base hw \<longleftrightarrow> (\<forall>log lba n. read_cmd base log = Some (lba, n) \<and> data_reads base log < 256 * n \<longrightarrow>
     ucast (hw (In16 base # log)) = disk_word D (256 * lba + data_reads base log))"

definition transferring :: "u16 \<Rightarrow> nat \<Rightarrow> nat \<Rightarrow> nat \<Rightarrow> io_event list \<Rightarrow> bool" where
  "transferring base lba n k log \<longleftrightarrow> read_cmd base log = Some (lba, n) \<and> data_reads base log = 256 * k"

lemma read_cmd_append: "list_all (\<lambda>e. \<not> is_cmd base e) es \<Longrightarrow> read_cmd base (es @ log) = read_cmd base log"
  by (simp add: read_cmd_def dropWhile_append1 dropWhile_append list_all_iff)

lemma data_reads_append:
  "list_all (\<lambda>e. \<not> is_cmd base e) es \<Longrightarrow>
    data_reads base (es @ log) = length (filter (\<lambda>e. e = In16 base) es) + data_reads base log"
  by (simp add: data_reads_def takeWhile_append2 list_all_iff)

lemma is_cmd_simps [simp]:
  "\<not> is_cmd base (In8 p)" "\<not> is_cmd base (In16 p)" "\<not> is_cmd base (Mmio_Read a)" "\<not> is_cmd base (Mmio_Write a v)"
  "is_cmd base (Out8 p w) \<longleftrightarrow> p = base + 7"
  by (simp_all add: is_cmd_def)

lemma disk_word_bytes: "ucast (disk_word D w) = D (2 * w)" "ucast (drop_bit 8 (disk_word D w)) = D (2 * w + 1)"
  unfolding disk_word_def by (rule bit_word_eqI, auto simp: bit_simps dest: bit_imp_le_length)+

text \<open>The words a drive returns, one after the other.\<close>

lemma disk_reads:
  assumes "ata_disk D base hw" "transferring base lba n k log" "k < n" "i < 256"
  shows "ucast (hw (replicate (Suc i) (In16 base) @ log)) = disk_word D (256 * (lba + k) + i)"
proof -
  have a: "list_all (\<lambda>e. \<not> is_cmd base e) (replicate i (In16 base))" by (simp add: list_all_iff)
  have "read_cmd base (replicate i (In16 base) @ log) = Some (lba, n)"
    "data_reads base (replicate i (In16 base) @ log) = 256 * k + i"
    using assms(2) a by (simp_all add: transferring_def read_cmd_append data_reads_append)
  moreover have "256 * k + i < 256 * n" using assms(3,4) by linarith
  ultimately have "ucast (hw (In16 base # replicate i (In16 base) @ log)) = disk_word D (256 * lba + (256 * k + i))"
    using assms(1) by (auto simp: ata_disk_def)
  then show ?thesis by (simp add: algebra_simps)
qed

section \<open>Issuing a command\<close>

definition issue_log :: "ata_dev \<Rightarrow> ata_req \<Rightarrow> io_event list" where
  "issue_log d r =
     [Out8 (io_base d + 7) 0x20,
      Out8 (io_base d + 5) (ucast (drop_bit 16 (rq_lba r) AND 0xff)),
      Out8 (io_base d + 4) (ucast (drop_bit 8 (rq_lba r) AND 0xff)),
      Out8 (io_base d + 3) (ucast (rq_lba r AND 0xff)),
      Out8 (io_base d + 2) (ucast (rq_count r)),
      Out8 (io_base d + 1) 0,
      Out8 (io_base d + 6) (0xe0 OR ucast (drop_bit 24 (rq_lba r) AND 0x0f))]"

lemma issue_eq:
  "ata_issue_read_sectors r s =
     (if 256 \<le>s rq_count r then Inl (Panic ''bug: 'req->sectors_count >= 256' '')
      else Inr (s\<lparr>io_log := issue_log (primary_master s) r @ io_log s\<rparr>))"
  by (simp add: ata_issue_read_sectors_def issue_log_def Let_def io_defs ata_regs flip: or.assoc)

lemma lba_byte: "unat (ucast (drop_bit k (x::u32) AND 0xff) :: u8) = unat x div 2 ^ k mod 256"
proof -
  have "unat (drop_bit k x AND mask 8) = unat x div 2 ^ k mod 256"
    unfolding and_mask_unat unat_drop_bit_eq by (simp add: drop_bit_eq_div)
  then show ?thesis by (simp add: mask_eq_exp_minus_1 unsigned_ucast_eq take_bit_eq_mod)
qed

lemma drive_nibble:
  "\<forall>n\<in>set [0..<16]. (0xe0 OR of_nat n :: u8) AND 0xf0 = 0xe0 \<and> unat (0xe0 OR of_nat n :: u8) mod 16 = n"
  by code_simp

lemma drive_byte:
  "(0xe0 OR ucast (drop_bit 24 (x::u32) AND 0x0f) :: u8) AND 0xf0 = 0xe0"
  "unat (0xe0 OR ucast (drop_bit 24 x AND 0x0f) :: u8) mod 16 = unat x div 16777216 mod 16"
proof -
  define n where "n = unat x div 16777216 mod 16"
  have "unat (drop_bit 24 x AND mask 4) = n"
    unfolding and_mask_unat unat_drop_bit_eq by (simp add: drop_bit_eq_div n_def)
  moreover have n16: "n < 16" by (simp add: n_def)
  ultimately have "drop_bit 24 x AND mask 4 = of_nat n" 
    by (simp add: word_unat_eq_iff of_nat_less_u32)
  then have "drop_bit 24 x AND 0x0f = of_nat n" by (simp add: mask_eq_exp_minus_1)
  moreover have "ucast (of_nat n :: u32) = (of_nat n :: u8)"
    using n16 by (simp add: word_unat_eq_iff unsigned_ucast_eq unsigned_of_nat take_bit_nat_eq_self)
  moreover have "n \<in> set [0..<16]" using n16 by simp
  ultimately show "(0xe0 OR ucast (drop_bit 24 x AND 0x0f) :: u8) AND 0xf0 = 0xe0"
    "unat (0xe0 OR ucast (drop_bit 24 x AND 0x0f) :: u8) mod 16 = unat x div 16777216 mod 16"
    using drive_nibble n_def by metis+
qed

lemma lba_digits: "n mod 256 + 256 * (n div 256 mod 256) + 65536 * (n div 65536 mod 256) + 16777216 * (n div 16777216 mod 16)
    = n mod (2 ^ 28 :: nat)"
  using mod_mult2_eq [of n 256 256] mod_mult2_eq [of n 65536 256] mod_mult2_eq [of n 16777216 16] by simp

lemma issue_transferring:
  assumes "rq_count r < 256" "rq_count r \<noteq> 0"
  shows "transferring (io_base d) (unat (rq_lba r) mod 2 ^ 28) (unat (rq_count r)) 0 (issue_log d r @ log)"
proof -
  have c: "unat (ucast (rq_count r) :: u8) = unat (rq_count r)"
    using assms(1) by (simp add: unsigned_ucast_eq take_bit_nat_eq_self word_less_nat_alt)
  then have "ucast (rq_count r) \<noteq> (0 :: u8)" using assms(2) by (metis unat_eq_zero)
  with c show ?thesis
    using lba_byte [of 0 "rq_lba r"] lba_byte [of 8 "rq_lba r"] lba_byte [of 16 "rq_lba r"] lba_digits [of "unat (rq_lba r)"]
    by (simp add: transferring_def read_cmd_def data_reads_def issue_log_def drive_byte)
qed

section \<open>Transferring a sector\<close>

lemma unat_diff_lt:
  fixes x :: u32
  assumes "m + c \<le> 4294967296"
  shows "unat (x - of_nat m) < c \<longleftrightarrow> m \<le> unat x \<and> unat x < m + c"
    and "m \<le> unat x \<Longrightarrow> unat (x - of_nat m) = unat x - m"
proof -
  have small: "unat (x - of_nat m) = unat x - m" if "m \<le> unat x"
  proof -
    have "m < 4294967296" using that u32_lt [of x] by linarith
    then have "unat (of_nat m :: u32) = m" by (rule of_nat_less_u32)
    then show ?thesis using that by (simp add: unat_sub word_le_nat_alt)
  qed
  then show "m \<le> unat x \<Longrightarrow> unat (x - of_nat m) = unat x - m" .
  have "c \<le> unat (x - of_nat m)" if "unat x < m"
  proof (cases "m = 4294967296")
    case True
    with assms show ?thesis by simp
  next
    case False
    with assms have m: "unat (of_nat m :: u32) = m" by (intro of_nat_less_u32) simp
    with that have "of_nat m - x \<noteq> 0" "unat (of_nat m - x) = m - unat x"
      by (auto simp: unat_sub word_le_nat_alt)
    then have "unat (x - of_nat m) = 4294967296 - (m - unat x)"
      using unat_uminus [of "of_nat m - x"] by simp
    with assms that show ?thesis by linarith
  qed
  with small show "unat (x - of_nat m) < c \<longleftrightarrow> m \<le> unat x \<and> unat x < m + c" by force
qed

definition disk_bytes :: "(nat \<Rightarrow> u8) \<Rightarrow> nat \<Rightarrow> u32 \<Rightarrow> nat \<Rightarrow> mem \<Rightarrow> mem" where
  "disk_bytes D o0 b n m = (\<lambda>a. if unat (a - b) < n then D (o0 + unat (a - b)) else m a)"

lemma disk_bytes_append:
  assumes "k + n \<le> 4294967296"
  shows "disk_bytes D (o0 + k) (b + of_nat k) n (disk_bytes D o0 b k m) = disk_bytes D o0 b (k + n) m"
proof
  fix a
  have e: "a - (b + of_nat k) = (a - b) - of_nat k" by simp
  show "disk_bytes D (o0 + k) (b + of_nat k) n (disk_bytes D o0 b k m) a = disk_bytes D o0 b (k + n) m a"
    unfolding disk_bytes_def e using unat_diff_lt [OF assms, of "a - b"] by auto
qed

lemma store_word: "store16 m b (disk_word D w) = disk_bytes D (2 * w) b 2 m"
proof
  fix a
  have "unat (a - b) < 2 \<longleftrightarrow> unat (a - b) = 0 \<or> unat (a - b) = 1" by auto
  also have "\<dots> \<longleftrightarrow> a - b = 0 \<or> a - b = 1" by (simp add: word_unat_eq_iff)
  finally have "unat (a - b) < 2 \<longleftrightarrow> a = b \<or> a = b + 1" by (auto simp: algebra_simps)
  then show "store16 m b (disk_word D w) a = disk_bytes D (2 * w) b 2 m a"
    by (auto simp: store16_def disk_bytes_def disk_word_bytes)
qed

lemma store_words:
  assumes "2 * n \<le> 4294967296"
  shows "fold (\<lambda>i m. store16 m (b + 2 * of_nat i) (disk_word D (w + i))) [0..<n] m = disk_bytes D (2 * w) b (2 * n) m"
  using assms
proof (induction n)
  case (Suc n)
  have "disk_bytes D (2 * (w + n)) (b + 2 * of_nat n) 2 (disk_bytes D (2 * w) b (2 * n) m) = disk_bytes D (2 * w) b (2 * Suc n) m"
    using disk_bytes_append [of "2 * n" 2 D "2 * w" b m] Suc.prems by (simp add: algebra_simps)
  with Suc show ?case by (simp add: store_word)
qed (simp add: disk_bytes_def)

lemma read_loop:
  "fold (\<lambda>i s. let (w, s) = inw hw p s in s\<lparr>ram := store16 (ram s) (b + 2 * of_nat i) w\<rparr>) [0..<n] s =
    s\<lparr>ram := fold (\<lambda>i m. store16 m (b + 2 * of_nat i) (ucast (hw (replicate (Suc i) (In16 p) @ io_log s)))) [0..<n] (ram s),
      io_log := replicate n (In16 p) @ io_log s\<rparr>"
  by (induction n) (simp_all add: inw_def io_def Let_def)

lemma sector_loop:
  assumes "ata_disk D p hw" "transferring p lba c k (io_log s)" "k < c"
  shows "fold (\<lambda>i s. let (w, s) = inw hw p s in s\<lparr>ram := store16 (ram s) (b + 2 * of_nat i) w\<rparr>) [0..<256] s =
    s\<lparr>ram := disk_bytes D (512 * (lba + k)) b 512 (ram s), io_log := replicate 256 (In16 p) @ io_log s\<rparr>"
proof -
  have "fold (\<lambda>i m. store16 m (b + 2 * of_nat i) (ucast (hw (replicate (Suc i) (In16 p) @ io_log s)))) [0..<256] (ram s) =
    fold (\<lambda>i m. store16 m (b + 2 * of_nat i) (disk_word D (256 * (lba + k) + i))) [0..<256] (ram s)"
    using disk_reads [OF assms] by (intro fold_cong) auto
  then show ?thesis unfolding read_loop using store_words [of 256 b D "256 * (lba + k)" "ram s"] by (simp add: algebra_simps)
qed

section \<open>Serving a request\<close>

definition wait_log :: "ata_dev \<Rightarrow> io_event list" where
  "wait_log d = replicate 4 (In8 (io_ctrl_base d))"

lemma ata_wait_eq: "ata_wait hw d s = s\<lparr>io_log := wait_log d @ io_log s\<rparr>"
  by (simp add: ata_wait_def wait_log_def ata_regs inb_def io_def Let_def eval_nat_numeral)

definition next_sector :: "ata_req \<Rightarrow> ata_req" where
  "next_sector r = r\<lparr>rq_buf := rq_buf r + 512, rq_count := rq_count r - 1\<rparr>"

lemma next_sector_iter:
  "rq_buf ((next_sector ^^ j) r) = rq_buf r + 512 * of_nat j" "rq_count ((next_sector ^^ j) r) = rq_count r - of_nat j"
  "rq_next ((next_sector ^^ j) r) = rq_next r" "rq_task ((next_sector ^^ j) r) = rq_task r"
  by (induction j) (simp_all add: next_sector_def algebra_simps)

text \<open>The state after the words of one sector are stored and the request is advanced.\<close>

definition sector_done :: "(nat \<Rightarrow> u8) \<Rightarrow> nat \<Rightarrow> 'a ata_scheme \<Rightarrow> 'a ata_scheme" where
  "sector_done D sec s =
     (let q = req_queue s; r = reqs s q; d = primary_master s
      in s\<lparr>ram := disk_bytes D (512 * sec) (rq_buf r) 512 (ram s),
           io_log := wait_log d @ replicate 256 (In16 (io_base d)) @ io_log s,
           reqs := (reqs s)(q := next_sector r)\<rparr>)"

lemma process_eq:
  assumes disk: "ata_disk D (io_base (primary_master s)) hw" "transferring (io_base (primary_master s)) lba c k (io_log s)" "k < c"
    and q: "req_queue s = q" "q \<noteq> NULL" "reqs s q = r" "rq_buf r \<noteq> NULL" "rq_count r \<noteq> 0"
  shows "ata_process_request hw s =
    (if rq_count r = 1 then
       let s = (upd_task (rq_task r) (\<lambda>t. t\<lparr>state := TASK_RUNNING\<rparr>) (sector_done D (lba + k) s))\<lparr>req_queue := rq_next r\<rparr>
       in if rq_next r \<noteq> NULL then ata_issue_read_sectors (reqs s (rq_next r)) s else Inr s
     else Inr (sector_done D (lba + k) s))"
proof -
  have c1: "rq_count r - 1 = 0 \<longleftrightarrow> rq_count r = 1" by (simp add: eq_diff_eq [symmetric])
  have q': "reqs s (req_queue s) = r" "req_queue s \<noteq> NULL" using q by simp_all
  show ?thesis
    using q(4,5) q' unfolding ata_process_request_def Let_def ATA_DATA_REG_def ATA_REG_def
    by (simp add: sector_loop [OF disk, unfolded Let_def] ata_wait_eq sector_done_def next_sector_def dequeue_def c1 q(1)
         upd_task_def Let_def)
qed

text \<open>The state after the last sector: the task is runnable, the request is off the queue and the command
  of the next request is issued.\<close>

definition request_done :: "(nat \<Rightarrow> u8) \<Rightarrow> nat \<Rightarrow> 'a ata_scheme \<Rightarrow> 'a ata_scheme" where
  "request_done D sec s =
     (let r = reqs s (req_queue s);
          t = (upd_task (rq_task r) (\<lambda>t. t\<lparr>state := TASK_RUNNING\<rparr>) (sector_done D sec s))\<lparr>req_queue := rq_next r\<rparr>
      in t\<lparr>io_log := (if rq_next r \<noteq> NULL then issue_log (primary_master s) (reqs s (rq_next r)) else []) @ io_log t\<rparr>)"

lemma process_last:
  assumes disk: "ata_disk D (io_base (primary_master s)) hw" "transferring (io_base (primary_master s)) lba c k (io_log s)" "k < c"
    and q: "req_queue s = q" "q \<noteq> NULL" "reqs s q = r" "rq_buf r \<noteq> NULL" "rq_count r = 1"
    and nxt: "rq_next r \<noteq> q" "rq_next r \<noteq> NULL \<longrightarrow> \<not> 256 \<le>s rq_count (reqs s (rq_next r))"
  shows "ata_process_request hw s = Inr (request_done D (lba + k) s)"
proof -
  have "rq_count r \<noteq> 0" using q(5) by simp
  from process_eq [OF disk q(1-4) this] q nxt show ?thesis
    by (simp add: request_done_def sector_done_def issue_eq upd_task_def Let_def)
qed

fun serve :: "device \<Rightarrow> nat \<Rightarrow> 'a ata_scheme \<Rightarrow> 'a ata_scheme result" where
  "serve hw 0 s = Inr s"
| "serve hw (Suc n) s = (case serve hw n s of Inl e \<Rightarrow> Inl e | Inr s \<Rightarrow> ide_irq1 hw s)"

definition eoi_log :: "'a apic_scheme \<Rightarrow> io_event list" where
  "eoi_log s = [Mmio_Read (lapic_ptr s), Mmio_Write (lapic_ptr s + 0xB0) 0]"

lemma eoi_eq: "apic_eoi s = s\<lparr>io_log := eoi_log s @ io_log s\<rparr>"
  by (simp add: apic_eoi_def lapic_write_eq APIC_EOI_def eoi_log_def)

text \<open>None of the accesses after the words of a sector is a command or reads the data register.\<close>

definition quiet :: "u16 \<Rightarrow> io_event list \<Rightarrow> bool" where
  "quiet base es \<longleftrightarrow> list_all (\<lambda>e. \<not> is_cmd base e \<and> e \<noteq> In16 base) es"

lemma quiet_logs [simp]: "quiet base (wait_log d)" "quiet base (eoi_log s)"
  by (simp_all add: quiet_def wait_log_def eoi_log_def list_all_iff)

lemma transferring_quiet:
  assumes "quiet base es"
  shows "transferring base lba c k (es @ log) = transferring base lba c k log"
proof -
  have "list_all (\<lambda>e. \<not> is_cmd base e) es" "filter (\<lambda>e. e = In16 base) es = []"
    using assms by (auto simp: quiet_def list_all_iff filter_empty_conv)
  then show ?thesis by (simp add: transferring_def read_cmd_append data_reads_append)
qed

lemma transferring_sector:
  "transferring base lba c k log \<Longrightarrow> transferring base lba c (Suc k) (replicate 256 (In16 base) @ log)"
  by (simp add: transferring_def read_cmd_append data_reads_append list_all_iff)

text \<open>\<open>j\<close> interrupts for a request that is not finished by them.\<close>

lemma serve_sectors:
  fixes s :: "'a ata_scheme"
  assumes disk: "ata_disk D (io_base (primary_master s)) hw" "transferring (io_base (primary_master s)) lba c 0 (io_log s)"
    and q: "req_queue s = q" "q \<noteq> NULL" "reqs s q = r" "rq_count r = of_nat c" "c < 256"
    and buf: "\<forall>i<c. rq_buf r + 512 * of_nat i \<noteq> NULL" and j: "j < c"
  shows "\<exists>log. serve hw j s = Inr (s\<lparr>ram := disk_bytes D (512 * lba) (rq_buf r) (512 * j) (ram s), io_log := log,
      reqs := (reqs s)(q := (next_sector ^^ j) r)\<rparr>) \<and> transferring (io_base (primary_master s)) lba c j log"
  using j
proof (induction j)
  case 0
  show ?case by (rule exI [of _ "io_log s"]) (use disk q(3) in \<open>simp add: disk_bytes_def fun_upd_idem\<close>)
next
  case (Suc j)
  then obtain log where log: "serve hw j s = Inr (s\<lparr>ram := disk_bytes D (512 * lba) (rq_buf r) (512 * j) (ram s), io_log := log,
      reqs := (reqs s)(q := (next_sector ^^ j) r)\<rparr>)" (is "_ = Inr ?s") "transferring (io_base (primary_master s)) lba c j log"
    by (meson Suc_lessD)
  let ?r = "(next_sector ^^ j) r"
  have r: "rq_buf ?r = rq_buf r + 512 * of_nat j" "rq_count ?r = of_nat (c - j)"
    using q(4,5) Suc.prems by (auto simp: next_sector_iter of_nat_diff)
  have "unat (rq_count ?r) = c - j" using q(5) r(2) by (simp add: of_nat_less_u32)
  then have cnt: "rq_count ?r \<noteq> 0" "rq_count ?r \<noteq> 1" using Suc.prems by auto
  have b: "rq_buf ?r \<noteq> NULL" using buf Suc.prems r(1) by simp
  have mem: "disk_bytes D (512 * (lba + j)) (rq_buf ?r) 512 (ram ?s) = disk_bytes D (512 * lba) (rq_buf r) (512 * Suc j) (ram s)"
    using disk_bytes_append [of "512 * j" 512 D "512 * lba" "rq_buf r" "ram s"] Suc.prems q(5) r(1) by (simp add: algebra_simps)
  let ?log = "eoi_log ?s @ wait_log (primary_master s) @ replicate 256 (In16 (io_base (primary_master s))) @ log"
  have "serve hw (Suc j) s = Inr (apic_eoi (sector_done D (lba + j) ?s))"
    using process_eq [of D ?s hw lba c j q ?r] disk(1) log q(1,2) Suc.prems cnt b by (simp add: ide_irq1_def)
  also have "apic_eoi (sector_done D (lba + j) ?s) =
      s\<lparr>ram := disk_bytes D (512 * lba) (rq_buf r) (512 * Suc j) (ram s), io_log := ?log,
        reqs := (reqs s)(q := (next_sector ^^ Suc j) r)\<rparr>"
    using mem q(1) by (simp add: sector_done_def eoi_eq Let_def eoi_log_def)
  finally have "serve hw (Suc j) s = Inr (s\<lparr>ram := disk_bytes D (512 * lba) (rq_buf r) (512 * Suc j) (ram s), io_log := ?log,
        reqs := (reqs s)(q := (next_sector ^^ Suc j) r)\<rparr>)" .
  moreover have "transferring (io_base (primary_master s)) lba c (Suc j) ?log"
    using log(2) by (simp add: transferring_quiet transferring_sector)
  ultimately show ?case by (intro exI [of _ ?log] conjI)
qed

text \<open>The last interrupt of a request.\<close>

lemma serve_request:
  fixes s :: "'a ata_scheme"
  assumes disk: "ata_disk D (io_base (primary_master s)) hw" "transferring (io_base (primary_master s)) lba c 0 (io_log s)"
    and q: "req_queue s = q" "q \<noteq> NULL" "reqs s q = r" "rq_count r = of_nat c" "0 < c" "c < 256"
    and buf: "\<forall>i<c. rq_buf r + 512 * of_nat i \<noteq> NULL"
    and nxt: "rq_next r \<noteq> q" "rq_next r \<noteq> NULL \<longrightarrow> \<not> 256 \<le>s rq_count (reqs s (rq_next r))"
  shows "\<exists>log. serve hw c s = Inr (upd_task (rq_task r) (\<lambda>t. t\<lparr>state := TASK_RUNNING\<rparr>)
        (s\<lparr>ram := disk_bytes D (512 * lba) (rq_buf r) (512 * c) (ram s), io_log := log,
           req_queue := rq_next r, reqs := (reqs s)(q := (next_sector ^^ c) r)\<rparr>))
      \<and> (rq_next r \<noteq> NULL \<longrightarrow> (\<exists>es log'. log = es @ issue_log (primary_master s) (reqs s (rq_next r)) @ log'
          \<and> quiet (io_base (primary_master s)) es))"
proof -
  define j where "j = c - 1"
  then have c: "c = Suc j" "j < c" using q(5) by simp_all
  obtain log where log: "serve hw j s = Inr (s\<lparr>ram := disk_bytes D (512 * lba) (rq_buf r) (512 * j) (ram s), io_log := log,
      reqs := (reqs s)(q := (next_sector ^^ j) r)\<rparr>)" (is "_ = Inr ?s") "transferring (io_base (primary_master s)) lba c j log"
    using serve_sectors [OF disk q(1-4,6) buf c(2)] by blast
  let ?r = "(next_sector ^^ j) r"
  have cnt: "rq_count ?r = 1" using q(4) c by (simp add: next_sector_iter)
  have b: "rq_buf ?r \<noteq> NULL" using buf c by (simp add: next_sector_iter)
  have mem: "disk_bytes D (512 * (lba + j)) (rq_buf ?r) 512 (ram ?s) = disk_bytes D (512 * lba) (rq_buf r) (512 * c) (ram s)"
    using disk_bytes_append [of "512 * j" 512 D "512 * lba" "rq_buf r" "ram s"] q(6) c(1)
    by (simp add: next_sector_iter algebra_simps)
  let ?log = "wait_log (primary_master s) @ replicate 256 (In16 (io_base (primary_master s))) @ log"
  let ?is = "if rq_next r \<noteq> NULL then issue_log (primary_master s) (reqs s (rq_next r)) else []"
  let ?t = "upd_task (rq_task r) (\<lambda>t. t\<lparr>state := TASK_RUNNING\<rparr>) (s\<lparr>ram := disk_bytes D (512 * lba) (rq_buf r) (512 * c) (ram s),
    io_log := eoi_log s @ ?is @ ?log, req_queue := rq_next r, reqs := (reqs s)(q := (next_sector ^^ c) r)\<rparr>)"
  have "ata_process_request hw ?s = Inr (request_done D (lba + j) ?s)"
    by (rule process_last [of D ?s hw lba c j q ?r]) (use disk(1) log(2) q(1,2) c(2) cnt b nxt in \<open>simp_all add: next_sector_iter\<close>)
  moreover have "apic_eoi (request_done D (lba + j) ?s) = ?t"
    by (rule ata.equality) (use mem q(1) c(1) nxt in
      \<open>simp_all add: request_done_def sector_done_def eoi_eq eoi_log_def upd_task_def next_sector_iter Let_def\<close>)
  ultimately have "serve hw c s = Inr ?t" using log(1) by (simp add: c(1) ide_irq1_def)
  then show ?thesis by (intro exI [of _ "eoi_log s @ ?is @ ?log"]) auto
qed

lemma disk_bytes_in: "i < n \<Longrightarrow> n \<le> 4294967296 \<Longrightarrow> disk_bytes D o0 b n m (b + of_nat i) = D (o0 + i)"
  by (simp add: disk_bytes_def of_nat_less_u32)

lemma buffer_not_null:
  assumes "b \<noteq> 0" "unat (b::u32) + 512 * c \<le> 4294967296" "i < c"
  shows "b + 512 * of_nat i \<noteq> 0"
proof -
  have i: "512 * i < 4294967296" "unat b + 512 * i < 4294967296" using assms by linarith+
  have "b + 512 * of_nat i = b + of_nat (512 * i)" by simp
  moreover have "unat (b + of_nat (512 * i)) = unat b + 512 * i"
    using i by (subst unat_add_lt) (simp_all add: of_nat_less_u32 del: of_nat_mult)
  ultimately have "unat (b + 512 * of_nat i) = unat b + 512 * i" by simp
  moreover have "0 < unat b" using assms(1) by (simp add: unat_gt_0)
  ultimately show ?thesis by auto
qed

lemma small_not_sle: "c < 256 \<Longrightarrow> \<not> 256 \<le>s (c :: u32)"
proof -
  assume "c < 256"
  then have c: "unat c < 256" by (simp add: word_less_nat_alt)
  then have "unat c < 2147483648" by simp
  then have "sint c = int (unat c)" unfolding sint_u32 by (rule if_P)
  moreover have "sint (256 :: u32) = 256" by simp
  ultimately show ?thesis using c unfolding word_sle_eq by linarith
qed

text \<open>What a command in progress looks like to the drive that got it last.\<close>

definition commanded :: "ata_req \<Rightarrow> 'a ata_scheme \<Rightarrow> bool" where
  "commanded r s \<longleftrightarrow>
     transferring (io_base (primary_master s)) (unat (rq_lba r) mod 2 ^ 28) (unat (rq_count r)) 0 (io_log s)"

text \<open>C4. The request at the head of the queue, whose command the drive is executing, is finished by as many
  disk interrupts as it has sectors: its buffer then holds exactly these sectors of the disk (the sector
  number taken modulo \<open>2 ^ 28\<close>) and no other byte of memory has changed; exactly the task that waits for
  it has become runnable; the other requests are queued as before, and the drive executes the command of
  the next one, so that it is served in the same way.\<close>

theorem ata_request_served:
  assumes disk: "ata_disk D (io_base (primary_master s)) hw"
    and q: "queued (req_queue s, reqs s) (a # as)" "reqs s a = r" "commanded r s"
    and count: "0 < rq_count r" "rq_count r < 256"
    and buf: "rq_buf r \<noteq> NULL" "unat (rq_buf r) + 512 * unat (rq_count r) \<le> 2 ^ 32"
    and nxt: "\<forall>b\<in>set as. 0 < rq_count (reqs s b) \<and> rq_count (reqs s b) < 256"
  shows "\<exists>s'. serve hw (unat (rq_count r)) s = Inr s'
    \<and> (\<forall>i < 512 * unat (rq_count r). ram s' (rq_buf r + of_nat i) = D (512 * (unat (rq_lba r) mod 2 ^ 28) + i))
    \<and> (\<forall>p. 512 * unat (rq_count r) \<le> unat (p - rq_buf r) \<longrightarrow> ram s' p = ram s p)
    \<and> tasks s' = (tasks s)[rq_task r := (tasks s ! rq_task r)\<lparr>state := TASK_RUNNING\<rparr>]
    \<and> queued (req_queue s', reqs s') as \<and> (\<forall>b. b \<noteq> a \<longrightarrow> reqs s' b = reqs s b)
    \<and> (\<forall>b bs. as = b # bs \<longrightarrow> commanded (reqs s' b) s') \<and> primary_master s' = primary_master s"
proof -
  let ?c = "unat (rq_count r)"
  have d: "distinct (a # as)" by (rule reqs.rep_distinct [OF q(1)])
  have hd: "req_queue s = a" "a \<noteq> NULL" "chain (reqs s) (rq_next r) as" using q by (auto simp: queued_def)
  have nx: "rq_next r \<noteq> a" "rq_next r \<noteq> NULL \<longrightarrow> \<not> 256 \<le>s rq_count (reqs s (rq_next r))"
    using hd d nxt by (cases as; auto simp: small_not_sle)+
  have c: "rq_count r = of_nat ?c" "0 < ?c" "?c < 256" using count by (simp_all add: word_less_nat_alt)
  have nn: "\<forall>i<?c. rq_buf r + 512 * of_nat i \<noteq> NULL" using buf buffer_not_null [of "rq_buf r" ?c] by simp
  let ?t = "\<lambda>log. upd_task (rq_task r) (\<lambda>t. t\<lparr>state := TASK_RUNNING\<rparr>)
        (s\<lparr>ram := disk_bytes D (512 * (unat (rq_lba r) mod 2 ^ 28)) (rq_buf r) (512 * ?c) (ram s), io_log := log,
           req_queue := rq_next r, reqs := (reqs s)(a := (next_sector ^^ ?c) r)\<rparr>)"
  obtain log where log: "serve hw ?c s = Inr (?t log)"
    "rq_next r \<noteq> NULL \<Longrightarrow> \<exists>es log'. log = es @ issue_log (primary_master s) (reqs s (rq_next r)) @ log'
          \<and> quiet (io_base (primary_master s)) es"
    using serve_request [OF disk q(3) [unfolded commanded_def] hd(1,2) q(2) c nn nx] by blast
  have rest: "queued (req_queue (?t log), reqs (?t log)) as"
    using hd(3) d by (simp add: queued_def upd_task_def)
  have issued: "commanded (reqs (?t log) b) (?t log)" if as: "as = b # bs" for b bs
  proof -
    have b: "rq_next r = b" "b \<noteq> NULL" "b \<noteq> a" using as hd(3) d by auto
    from log(2) b obtain es log' where l: "log = es @ issue_log (primary_master s) (reqs s b) @ log'"
      "quiet (io_base (primary_master s)) es" by auto
    have "0 < rq_count (reqs s b)" "rq_count (reqs s b) < 256" using nxt as by auto
    with l b issue_transferring [of "reqs s b" "primary_master s" log'] show ?thesis
      by (simp add: commanded_def transferring_quiet upd_task_def word_gt_0)
  qed
  show ?thesis
  proof (intro exI [of _ "?t log"] conjI)
    show "\<forall>i < 512 * ?c. ram (?t log) (rq_buf r + of_nat i) = D (512 * (unat (rq_lba r) mod 2 ^ 28) + i)"
      using c(3) by (simp add: disk_bytes_in upd_task_def)
  qed (use log(1) rest issued in \<open>simp_all add: upd_task_def disk_bytes_def\<close>)
qed

section \<open>Submitting a request\<close>

definition new_req :: "u32 \<Rightarrow> u32 \<Rightarrow> u32 \<Rightarrow> nat \<Rightarrow> ata_req" where
  "new_req buf lba n cur = \<lparr>rq_buf = buf, rq_lba = lba, rq_count = n, rq_next = NULL, rq_task = cur\<rparr>"

lemma new_req_simps [simp]: "rq_buf (new_req b l n c) = b" "rq_lba (new_req b l n c) = l" "rq_count (new_req b l n c) = n"
  "rq_next (new_req b l n c) = NULL" "rq_task (new_req b l n c) = c"
  by (simp_all add: new_req_def)

lemma irq_restored:
  assumes "disable_irq_safe s = (st, s')" "eflags t = eflags s'"
  shows "restore_irq st t = t\<lparr>eflags := eflags s\<rparr>"
proof -
  have "eflags (restore_irq st s') = eflags s"
    using irq_section_restores [of "\<lambda>u. u" s] assms(1) by (simp add: irq_section_def)
  with assms(2) show ?thesis by (auto simp: restore_irq_def enable_irq_def split: if_splits)
qed

lemma disable_irq_safe_frame:
  "disable_irq_safe s = (st, s') \<Longrightarrow> s' = s\<lparr>eflags := eflags s'\<rparr>"
  by (auto simp: disable_irq_safe_eq disable_irq_def)

lemma ata_read_eq:
  assumes "current s = Some cur" "enqueue a (req_queue s, (reqs s)(a := new_req buf lba n cur)) = Some (q, rs)"
    and "\<not> (req_queue s = NULL \<and> 256 \<le>s n)"
  shows "ata_read a buf lba n s = Some (reschedule (s\<lparr>
      io_log := (if req_queue s = NULL then issue_log (primary_master s) (new_req buf lba n cur) else []) @ io_log s,
      tasks := (tasks s)[cur := (tasks s ! cur)\<lparr>state := TASK_DISK_READ\<rparr>], req_queue := q, reqs := rs\<rparr>))"
proof -
  let ?s = "s\<lparr>reqs := (reqs s)(a := new_req buf lba n cur)\<rparr>"
  let ?log = "(if req_queue s = NULL then issue_log (primary_master s) (new_req buf lba n cur) else []) @ io_log s"
  obtain st s1 where d: "disable_irq_safe ?s = (st, s1)" by (cases "disable_irq_safe ?s")
  define t where "t = (upd_task cur (\<lambda>t. t\<lparr>state := TASK_DISK_READ\<rparr>) s1)\<lparr>req_queue := q, reqs := rs, io_log := ?log\<rparr>"
  from disable_irq_safe_frame [OF d] obtain fl where s1: "s1 = ?s\<lparr>eflags := fl\<rparr>" by blast
  have r: "restore_irq st t = t\<lparr>eflags := eflags s\<rparr>"
    using irq_restored [OF d, of t] by (simp add: t_def upd_task_def)
  have "ata_read a buf lba n s = Some (reschedule (restore_irq st t))"
    using assms d by (simp add: ata_read_def Let_def new_req_def [symmetric])
      (simp add: s1 t_def upd_task_def issue_eq)
  moreover have "t\<lparr>eflags := eflags s\<rparr> = s\<lparr>io_log := ?log, tasks := (tasks s)[cur := (tasks s ! cur)\<lparr>state := TASK_DISK_READ\<rparr>],
      req_queue := q, reqs := rs\<rparr>"
    by (rule ata.equality) (simp_all add: t_def s1 upd_task_def)
  ultimately show ?thesis using r by simp
qed

lemma enqueue_new:
  assumes "queued (q, rs) as" "a \<noteq> NULL" "a \<notin> set as" "rq_next r = NULL"
  obtains q' rs' where "enqueue a (q, rs(a := r)) = Some (q', rs')" "queued (q', rs') (as @ [a])"
    "rs' a = r" "\<And>b. b \<noteq> a \<Longrightarrow> \<exists>x. rs' b = (rs b)\<lparr>rq_next := x\<rparr>"
proof -
  have c: "queued (q, rs(a := r)) as" "detached a (q, rs(a := r))" using assms by (auto simp: queued_def detached_def)
  from reqs.push_rep [OF c assms(3)] obtain q' rs' where e: "enqueue a (q, rs(a := r)) = Some (q', rs')" "queued (q', rs') (as @ [a])"
    by auto
  have self: "\<exists>x. rs b = (rs b)\<lparr>rq_next := x\<rparr>" for b by (rule exI [of _ "rq_next (rs b)"]) simp
  have "rs' a = r \<and> (\<forall>b. b \<noteq> a \<longrightarrow> (\<exists>x. rs' b = (rs b)\<lparr>rq_next := x\<rparr>))"
  proof (cases as rule: rev_cases)
    case Nil
    with e(1) c(1) self show ?thesis by (auto simp: enqueue_def queued_def)
  next
    case (snoc bs d)
    with c(1) have "last_req (rs(a := r)) q = Some d" "q \<noteq> NULL"
      by (auto simp: queued_def chain_head simp del: chain_upd intro: last_req_chain)
    with e(1) snoc assms(3) self show ?thesis by (auto simp: enqueue_def)
  qed
  with e that show ?thesis by blast
qed

text \<open>C23. A read of 1 to 255 sectors by the current task puts its request behind those already queued and
  blocks the task: it is in state \<^const>\<open>TASK_DISK_READ\<close> with its registers saved, there is no current task, the
  interrupt flag is what it was, and no other task and no memory has changed. The drive gets a command
  at once if the queue was empty, and none otherwise.\<close>

theorem ata_read_submits:
  assumes "current s = Some cur" "cur < length (tasks s)" "queued (req_queue s, reqs s) as" "a \<noteq> NULL" "a \<notin> set as"
    and n: "0 < n" "n < 256"
  shows "\<exists>s'. ata_read a buf lba n s = Some (Inr s') \<and> queued (req_queue s', reqs s') (as @ [a])
    \<and> reqs s' a = \<lparr>rq_buf = buf, rq_lba = lba, rq_count = n, rq_next = NULL, rq_task = cur\<rparr>
    \<and> (\<forall>b. b \<noteq> a \<longrightarrow> (\<exists>x. reqs s' b = (reqs s b)\<lparr>rq_next := x\<rparr>))
    \<and> current s' = None \<and> tasks s' = (tasks s)[cur := (tasks s ! cur)\<lparr>state := TASK_DISK_READ, ctx := cpu s\<rparr>]
    \<and> eflags s' = eflags s \<and> ram s' = ram s
    \<and> (if as = [] then commanded (reqs s' a) s' else io_log s' = io_log s)"
proof -
  obtain q rs where e: "enqueue a (req_queue s, (reqs s)(a := new_req buf lba n cur)) = Some (q, rs)" "queued (q, rs) (as @ [a])"
    "rs a = new_req buf lba n cur" "\<And>b. b \<noteq> a \<Longrightarrow> \<exists>x. rs b = (reqs s b)\<lparr>rq_next := x\<rparr>"
    using enqueue_new [OF assms(3-5), of "new_req buf lba n cur"] by auto
  have emp: "req_queue s = NULL \<longleftrightarrow> as = []" using assms(3) chain_head by (auto simp: queued_def)
  have c: "commanded (new_req buf lba n cur) (t\<lparr>io_log := issue_log (primary_master t) (new_req buf lba n cur) @ l\<rparr>)" for t :: "'a ata_scheme" and l
    using issue_transferring [of "new_req buf lba n cur" "primary_master t" l] n by (simp add: commanded_def word_gt_0)
  show ?thesis
    using ata_read_eq [OF assms(1) e(1)] small_not_sle [OF n(2)] e assms(1,2) emp c [of s "io_log s"]
    by (simp add: reschedule_eq commanded_def new_req_def)
qed

text \<open>The error branches: there must be a current task, and a read of more than 255 sectors stops the kernel as
  soon as its command would be issued.\<close>

lemma ata_read_errors:
  "current s = None \<Longrightarrow> ata_read a buf lba n s = Some (Inl (Panic ''bug: '!current' ''))"
  "current s = Some cur \<Longrightarrow> req_queue s = NULL \<Longrightarrow> 256 \<le>s n \<Longrightarrow>
    ata_read a buf lba n s = Some (Inl (Panic ''bug: 'req->sectors_count >= 256' ''))"
proof -
  show "current s = None \<Longrightarrow> ata_read a buf lba n s = Some (Inl (Panic ''bug: '!current' ''))" by (simp add: ata_read_def)
  assume c: "current s = Some cur" "req_queue s = NULL" "256 \<le>s n"
  let ?s = "s\<lparr>reqs := (reqs s)(a := new_req buf lba n cur)\<rparr>"
  obtain st s1 where d: "disable_irq_safe ?s = (st, s1)" by (cases "disable_irq_safe ?s")
  from disable_irq_safe_frame [OF d] obtain fl where s1: "s1 = ?s\<lparr>eflags := fl\<rparr>" by blast
  show "ata_read a buf lba n s = Some (Inl (Panic ''bug: 'req->sectors_count >= 256' ''))"
    using c d by (simp add: ata_read_def Let_def new_req_def [symmetric])
      (simp add: s1 upd_task_def issue_eq enqueue_def)
qed

section \<open>No wake-up is lost\<close>

text \<open>What can happen while the driver is in use: the current task reads from the disk (from a request on its own
  stack) or waits for a timeout, the disk or the timer interrupts, and the scheduler runs a task.\<close>

inductive disk_step :: "device \<Rightarrow> 'a ata_scheme \<Rightarrow> 'a ata_scheme \<Rightarrow> bool" for hw :: device where
  submit: "a \<noteq> NULL \<Longrightarrow> (\<And>as. queued (req_queue s, reqs s) as \<Longrightarrow> a \<notin> set as) \<Longrightarrow> 0 < n \<Longrightarrow> n < 256 \<Longrightarrow>
    ata_read a buf lba n s = Some (Inr s') \<Longrightarrow> disk_step hw s s'"
| disk_irq: "ide_irq1 hw s = Inr s' \<Longrightarrow> disk_step hw s s'"
| other_disk_irq: "disk_step hw s (ide_irq2 s)"
| tick: "timer_irq s = Inr s' \<Longrightarrow> disk_step hw s s'"
| run: "current s = None \<Longrightarrow> i < MAX_TASKS \<Longrightarrow> state (tasks s ! i) = TASK_RUNNING \<Longrightarrow> switch_to i s = Inr s' \<Longrightarrow> disk_step hw s s'"
| wait: "current s = Some i \<Longrightarrow> reschedule (upd_task i (\<lambda>t. t\<lparr>ticks_remaining := n, state := TASK_WAITING\<rparr>) s) = Inr s' \<Longrightarrow>
    disk_step hw s s'"

definition waiters :: "'a ata_scheme \<Rightarrow> u32 list \<Rightarrow> nat list" where
  "waiters s as = map (\<lambda>a. rq_task (reqs s a)) as"

definition disk_inv :: "'a ata_scheme \<Rightarrow> bool" where
  "disk_inv s \<longleftrightarrow> length (tasks s) = MAX_TASKS
     \<and> (\<forall>i. current s = Some i \<longrightarrow> i < MAX_TASKS \<and> state (tasks s ! i) = TASK_RUNNING)
     \<and> (\<exists>as. queued (req_queue s, reqs s) as \<and> distinct (waiters s as)
         \<and> set (waiters s as) = {i. i < MAX_TASKS \<and> state (tasks s ! i) = TASK_DISK_READ}
         \<and> (\<forall>a\<in>set as. rq_count (reqs s a) \<noteq> 0))"

definition disk_init :: "'a ata_scheme \<Rightarrow> bool" where
  "disk_init s \<longleftrightarrow> length (tasks s) = MAX_TASKS \<and> (\<forall>i<MAX_TASKS. state (tasks s ! i) \<noteq> TASK_DISK_READ)
     \<and> current s = None \<and> req_queue s = NULL"

lemma process_shape:
  assumes "ata_process_request hw s = Inr s'" "req_queue s = q" "reqs s q = r"
  shows "q \<noteq> NULL \<and> rq_count r \<noteq> 0 \<and> current s' = current s \<and> reqs s' = (reqs s)(q := next_sector r)
    \<and> (if rq_count r = 1 then req_queue s' = rq_next r
         \<and> tasks s' = (tasks s)[rq_task r := (tasks s ! rq_task r)\<lparr>state := TASK_RUNNING\<rparr>]
       else req_queue s' = q \<and> tasks s' = tasks s)"
proof -
  have c1: "rq_count r - 1 = 0 \<longleftrightarrow> rq_count r = 1" by (simp add: eq_diff_eq [symmetric])
  show ?thesis
    using assms unfolding ata_process_request_def Let_def read_loop [unfolded Let_def]
    by (auto simp: ata_wait_eq issue_eq upd_task_def dequeue_def next_sector_def c1 split: if_splits)
qed

text \<open>A step that leaves the queue alone and takes no task in or out of the disk wait.\<close>

lemma disk_inv_frame:
  assumes "disk_inv s" "reqs s' = reqs s" "req_queue s' = req_queue s" "length (tasks s') = length (tasks s)"
    and "\<And>i. i < MAX_TASKS \<Longrightarrow> state (tasks s' ! i) = TASK_DISK_READ \<longleftrightarrow> state (tasks s ! i) = TASK_DISK_READ"
    and "\<And>i. current s' = Some i \<Longrightarrow> i < MAX_TASKS \<and> state (tasks s' ! i) = TASK_RUNNING"
  shows "disk_inv s'"
proof -
  have "{i. i < MAX_TASKS \<and> state (tasks s' ! i) = TASK_DISK_READ} = {i. i < MAX_TASKS \<and> state (tasks s ! i) = TASK_DISK_READ}"
    using assms(5) by blast
  with assms show ?thesis by (simp add: disk_inv_def waiters_def)
qed

lemma disk_inv_submit:
  assumes inv: "disk_inv s" and a: "a \<noteq> NULL" "\<And>as. queued (req_queue s, reqs s) as \<Longrightarrow> a \<notin> set as"
    and n: "0 < n" "n < 256" and r: "ata_read a buf lba n s = Some (Inr s')"
  shows "disk_inv s'"
proof -
  obtain cur where cur: "current s = Some cur" using r ata_read_errors(1) [of s] by (cases "current s") auto
  with inv have c: "cur < MAX_TASKS" "state (tasks s ! cur) = TASK_RUNNING" "length (tasks s) = MAX_TASKS"
    by (auto simp: disk_inv_def)
  from inv obtain as where as: "queued (req_queue s, reqs s) as" "distinct (waiters s as)"
    "set (waiters s as) = {i. i < MAX_TASKS \<and> state (tasks s ! i) = TASK_DISK_READ}" "\<forall>b\<in>set as. rq_count (reqs s b) \<noteq> 0"
    by (auto simp: disk_inv_def)
  obtain q rs where e: "enqueue a (req_queue s, (reqs s)(a := new_req buf lba n cur)) = Some (q, rs)" "queued (q, rs) (as @ [a])"
    "rs a = new_req buf lba n cur" "\<And>b. b \<noteq> a \<Longrightarrow> \<exists>x. rs b = (reqs s b)\<lparr>rq_next := x\<rparr>"
    using enqueue_new [OF as(1) a(1) a(2) [OF as(1)], of "new_req buf lba n cur"] by auto
  have s': "reqs s' = rs" "req_queue s' = q" "current s' = None"
    "tasks s' = (tasks s)[cur := (tasks s ! cur)\<lparr>state := TASK_DISK_READ, ctx := cpu s\<rparr>]"
    using r ata_read_eq [OF cur e(1)] small_not_sle [OF n(2)] cur c by (auto simp: reschedule_eq)
  have old: "rq_task (rs b) = rq_task (reqs s b) \<and> rq_count (rs b) = rq_count (reqs s b)" if "b \<in> set as" for b
    using e(4) [of b] a(2) [OF as(1)] that by force
  then have w: "waiters s' (as @ [a]) = waiters s as @ [cur]" using e(3) s'(1) by (simp add: waiters_def)
  have "cur \<notin> set (waiters s as)" using as(3) c(2) by simp
  moreover have "{i. i < MAX_TASKS \<and> state (tasks s' ! i) = TASK_DISK_READ} = insert cur (set (waiters s as))"
    unfolding as(3) s'(4) using c by (auto simp: nth_list_update)
  moreover have "\<forall>b\<in>set (as @ [a]). rq_count (rs b) \<noteq> 0" using old as(4) e(3) n(1) by auto
  ultimately show ?thesis
    unfolding disk_inv_def s'(1-3) using as(2) w c(3) s'(4) e(2) by (auto intro!: exI [of _ "as @ [a]"])
qed

lemma woken_tasks:
  assumes "distinct (waiters s (q # bs))" "length (tasks s) = MAX_TASKS"
    and w: "set (waiters s (q # bs)) = {i. i < MAX_TASKS \<and> state (tasks s ! i) = TASK_DISK_READ}"
    and ts: "ts = (tasks s)[j := (tasks s ! j)\<lparr>state := TASK_RUNNING\<rparr>]" and j: "j = rq_task (reqs s q)"
  shows "{i. i < MAX_TASKS \<and> state (ts ! i) = TASK_DISK_READ} = set (waiters s bs)"
    and "state (tasks s ! i) = TASK_RUNNING \<Longrightarrow> state (ts ! i) = TASK_RUNNING"
proof -
  have ins: "set (waiters s (q # bs)) = insert j (set (waiters s bs))" "j \<notin> set (waiters s bs)"
    using assms(1) j by (auto simp: waiters_def)
  then have "j < length (tasks s)" using w assms(2) by auto
  then have nth: "ts ! i = (if i = j then (tasks s ! i)\<lparr>state := TASK_RUNNING\<rparr> else tasks s ! i)" for i
    by (simp add: ts nth_list_update)
  have "{i. i < MAX_TASKS \<and> state (ts ! i) = TASK_DISK_READ} = {i. i < MAX_TASKS \<and> state (tasks s ! i) = TASK_DISK_READ} - {j}"
    using nth by auto
  also have "\<dots> = set (waiters s bs)" using ins unfolding w [symmetric] by simp
  finally show "{i. i < MAX_TASKS \<and> state (ts ! i) = TASK_DISK_READ} = set (waiters s bs)" .
  show "state (ts ! i) = TASK_RUNNING" if "state (tasks s ! i) = TASK_RUNNING" using that nth by simp
qed

lemma disk_inv_irq:
  assumes inv: "disk_inv s" and r: "ide_irq1 hw s = Inr s'"
  shows "disk_inv s'"
proof -
  obtain t where t: "ata_process_request hw s = Inr t" "s' = apic_eoi t" using r by (auto simp: ide_irq1_def split: sum.splits)
  define q where "q = req_queue s"
  note sh = process_shape [OF t(1) q_def [symmetric] refl]
  have t': "reqs s' = reqs t" "req_queue s' = req_queue t" "tasks s' = tasks t" "current s' = current t"
    by (simp_all add: t(2) eoi_eq)
  from inv obtain as where as: "queued (q, reqs s) as" "distinct (waiters s as)"
    "set (waiters s as) = {i. i < MAX_TASKS \<and> state (tasks s ! i) = TASK_DISK_READ}" "\<forall>b\<in>set as. rq_count (reqs s b) \<noteq> 0"
    and len: "length (tasks s) = MAX_TASKS"
    and cur: "\<And>i. current s = Some i \<Longrightarrow> i < MAX_TASKS \<and> state (tasks s ! i) = TASK_RUNNING"
    by (auto simp: disk_inv_def q_def)
  from as(1) sh obtain bs where bs: "as = q # bs" by (cases as) (auto simp: queued_def)
  let ?r = "reqs s q"
  have nq: "q \<notin> set bs" using reqs.rep_distinct [OF as(1)] bs by simp
  have w: "waiters s' cs = waiters s cs" for cs
    using sh by (simp add: waiters_def t' next_sector_def)
  show ?thesis
  proof (cases "rq_count ?r = 1")
    case True
    have qq: "queued (req_queue s', reqs s') bs" using as(1) sh True bs nq t' by (simp add: queued_def)
    have ts: "tasks s' = (tasks s)[rq_task ?r := (tasks s ! rq_task ?r)\<lparr>state := TASK_RUNNING\<rparr>]" using sh True t' by simp
    note wk = woken_tasks [OF as(2) [unfolded bs] len as(3) [unfolded bs] ts refl]
    have "current s' = Some i \<Longrightarrow> i < MAX_TASKS \<and> state (tasks s' ! i) = TASK_RUNNING" for i
      using cur [of i] sh t'(4) wk(2) [of i] by simp
    moreover have "\<forall>b\<in>set bs. rq_count (reqs s' b) \<noteq> 0" using as(4) bs nq sh t' by auto
    moreover have "distinct (waiters s bs)" using as(2) bs by (simp add: waiters_def)
    ultimately show ?thesis
      unfolding disk_inv_def using qq w len ts wk(1) by (auto intro!: exI [of _ bs])
  next
    case False
    have "queued (req_queue s', reqs s') as" using as(1) sh False bs nq t' by (simp add: queued_def next_sector_def)
    moreover have "\<forall>b\<in>set as. rq_count (reqs s' b) \<noteq> 0"
      using as(4) False sh t' by (auto simp: next_sector_def eq_diff_eq [symmetric])
    ultimately show ?thesis
      unfolding disk_inv_def using as(2,3) w len cur sh False t' by (auto intro!: exI [of _ as])
  qed
qed

lemma tick_disk_read: "state (tick_task t) = TASK_DISK_READ \<longleftrightarrow> state t = TASK_DISK_READ"
  by (simp add: tick_task_def Let_def)

lemma reschedule_frame:
  "reschedule s = Inr s' \<Longrightarrow> \<exists>old. current s = Some old \<and> current s' = None \<and> reqs s' = reqs s \<and> req_queue s' = req_queue s
     \<and> tasks s' = (tasks s)[old := (tasks s ! old)\<lparr>ctx := cpu s\<rparr>]"
proof (cases "current s")
  case (Some old)
  then show "reschedule s = Inr s' \<Longrightarrow> ?thesis" by (auto simp: reschedule_eq)
qed (simp add: reschedule_def)

lemma disk_inv_tick:
  assumes inv: "disk_inv s" and t: "timer_irq s = Inr s'"
  shows "disk_inv s'"
proof -
  let ?t = "s\<lparr>timer_ticks := timer_ticks s + 1, io_log := Mmio_Read (lapic_ptr s) # Mmio_Write (lapic_ptr s + 0xB0) 0 # io_log s,
    tasks := map tick_task (tasks s)\<rparr>"
  have len: "length (tasks s) = MAX_TASKS" using inv by (simp add: disk_inv_def)
  from t len have st: "(if current s \<noteq> None then reschedule ?t else Inr ?t) = Inr s'" by (simp add: timer_irq_eq scheduler_tick_eq Let_def)
  show ?thesis
  proof (cases "current s")
    case None
    with st len show ?thesis by (intro disk_inv_frame [OF inv]) (auto simp: tick_disk_read)
  next
    case (Some i)
    then have "i < MAX_TASKS" using inv by (simp add: disk_inv_def)
    with st Some reschedule_frame [of ?t s'] len show ?thesis
      by (intro disk_inv_frame [OF inv]) (auto simp: tick_disk_read nth_list_update)
  qed
qed

lemma disk_step_inv: "disk_step hw s s' \<Longrightarrow> disk_inv s \<Longrightarrow> disk_inv s'"
proof (induction rule: disk_step.induct)
  case (submit a s n buf lba s')
  then show ?case by (blast intro: disk_inv_submit)
next
  case (other_disk_irq s)
  then show ?case by (intro disk_inv_frame [OF other_disk_irq]) (auto simp: ide_irq2_def eoi_eq disk_inv_def)
next
  case (run s i s')
  from run.hyps(4) have "reqs s' = reqs s" "req_queue s' = req_queue s" "tasks s' = tasks s" "current s' = Some i"
    by (auto simp: switch_to_def switch_prepare_def asm_switch_to_def Let_def split: sum.splits)
  with run show ?case by (intro disk_inv_frame [OF run.prems]) auto
next
  case (wait s i n s')
  let ?s = "upd_task i (\<lambda>t. t\<lparr>ticks_remaining := n, state := TASK_WAITING\<rparr>) s"
  have i: "i < MAX_TASKS" "state (tasks s ! i) = TASK_RUNNING" "length (tasks s) = MAX_TASKS"
    using wait.prems wait.hyps(1) by (auto simp: disk_inv_def)
  from reschedule_frame [OF wait.hyps(2)] wait.hyps(1) have "current s' = None" "reqs s' = reqs s" "req_queue s' = req_queue s"
    "tasks s' = (tasks ?s)[i := (tasks ?s ! i)\<lparr>ctx := cpu s\<rparr>]" by (auto simp: upd_task_def)
  with i show ?case by (intro disk_inv_frame [OF wait.prems]) (auto simp: nth_list_update)
qed (auto intro: disk_inv_irq disk_inv_tick)

interpretation disk: invariant_system disk_init "disk_step hw" disk_inv
proof
  fix s :: "'a ata_scheme"
  show "disk_init s \<Longrightarrow> disk_inv s" by (auto simp: disk_init_def disk_inv_def queued_def waiters_def intro!: exI [of _ "[]"])
qed (rule disk_step_inv)

lemma disk_inv_waits:
  assumes "disk_inv s"
  shows "\<exists>as. queued (req_queue s, reqs s) as \<and> distinct as
    \<and> (\<forall>i<MAX_TASKS. state (tasks s ! i) = TASK_DISK_READ \<longleftrightarrow> (\<exists>!a. a \<in> set as \<and> rq_task (reqs s a) = i))
    \<and> (\<forall>a\<in>set as. rq_task (reqs s a) < MAX_TASKS \<and> rq_count (reqs s a) \<noteq> 0)"
proof -
  from assms obtain as where as: "queued (req_queue s, reqs s) as" "distinct (waiters s as)"
    "set (waiters s as) = {i. i < MAX_TASKS \<and> state (tasks s ! i) = TASK_DISK_READ}" "\<forall>a\<in>set as. rq_count (reqs s a) \<noteq> 0"
    by (auto simp: disk_inv_def)
  have inj: "inj_on (\<lambda>a. rq_task (reqs s a)) (set as)" using as(2) by (simp add: waiters_def distinct_map)
  have "state (tasks s ! i) = TASK_DISK_READ \<longleftrightarrow> i \<in> set (waiters s as)" if "i < MAX_TASKS" for i using as(3) that by simp
  then have "state (tasks s ! i) = TASK_DISK_READ \<longleftrightarrow> (\<exists>!a. a \<in> set as \<and> rq_task (reqs s a) = i)" if "i < MAX_TASKS" for i
    using inj that by (auto simp: waiters_def inj_on_def)
  moreover have "rq_task (reqs s a) < MAX_TASKS" if "a \<in> set as" for a
  proof -
    have "rq_task (reqs s a) \<in> set (waiters s as)" using that by (auto simp: waiters_def)
    then show ?thesis unfolding as(3) by simp
  qed
  ultimately show ?thesis using as(1,4) reqs.rep_distinct [OF as(1)] by blast
qed

text \<open>However reads, timeouts and interrupts interleave: the queue is a proper list, a task is in the disk wait
  exactly if one request of it, and only one, is queued, and every queued request has sectors to read. So no
  task waits for a request that the driver does not have, and none is woken by another's request.\<close>

lemma disk_waits_have_requests:
  assumes "reach disk_init (disk_step hw) s"
  shows "\<exists>as. queued (req_queue s, reqs s) as \<and> distinct as
    \<and> (\<forall>i<MAX_TASKS. state (tasks s ! i) = TASK_DISK_READ \<longleftrightarrow> (\<exists>!a. a \<in> set as \<and> rq_task (reqs s a) = i))
    \<and> (\<forall>a\<in>set as. rq_task (reqs s a) < MAX_TASKS \<and> rq_count (reqs s a) \<noteq> 0)"
  by (rule disk_inv_waits [OF disk.reach_inv [OF assms]])

section \<open>A read as its caller sees it\<close>

text \<open>\<open>ata_read\<close> from the call to the return, when nothing else is runnable meanwhile: the task blocks, the drive
  interrupts the idle scheduler once for each sector the command asks for (a count of 0 asks for
  256), and the scheduler switches back to the task if it is runnable; otherwise the call does not
  return. The C function then returns 0.\<close>

definition command_sectors :: "u32 \<Rightarrow> nat" where
  "command_sectors n = (if (ucast n :: u8) = 0 then 256 else unat (ucast n :: u8))"

definition ata_read_wait :: "device \<Rightarrow> u32 \<Rightarrow> u32 \<Rightarrow> u32 \<Rightarrow> u32 \<Rightarrow> 'a ata_scheme \<Rightarrow> (u32 \<times> 'a ata_scheme) result option" where
  "ata_read_wait hw req_addr buf lba n s =
     bindk (ata_read req_addr buf lba n s) (\<lambda>t.
       case serve hw (command_sectors n) (enable_irq t) of Inl e \<Rightarrow> Some (Inl e)
       | Inr u \<Rightarrow>
           let cur = the (current s)
           in if state (tasks u ! cur) = TASK_RUNNING then
                (case switch_to cur (disable_irq u) of Inl e \<Rightarrow> Some (Inl e) | Inr v \<Rightarrow> Some (Inr (0, v)))
              else None)"

definition disk_ready :: "nat \<Rightarrow> 'a ata_scheme \<Rightarrow> bool" where
  "disk_ready cur s \<longleftrightarrow> current s = Some cur \<and> cur < length (tasks s) \<and> req_queue s = NULL
     \<and> reload_tss (gdts s) = Inr (gdts s)"

text \<open>Everything but the memory, the devices and the scheduler's own state is as before.\<close>

definition same_kernel :: "'a ata_scheme \<Rightarrow> 'a ata_scheme \<Rightarrow> bool" where
  "same_kernel s s' \<longleftrightarrow> freelist_head s' = freelist_head s \<and> primary_master s' = primary_master s
     \<and> terminal_row s' = terminal_row s \<and> terminal_column s' = terminal_column s
     \<and> terminal_buffer s' = terminal_buffer s \<and> ata.more s' = ata.more s"

lemma command_sectors_small: "0 < n \<Longrightarrow> n < 256 \<Longrightarrow> command_sectors n = unat n"
proof -
  assume n: "0 < n" "n < 256"
  have u: "unat (ucast n :: u8) = unat n"
    using n(2) by (simp add: unsigned_ucast_eq take_bit_nat_eq_self word_less_nat_alt)
  with n(1) have "(ucast n :: u8) \<noteq> 0" by (metis unat_0 unat_gt_0 word_gt_0 less_irrefl)
  with u show ?thesis by (simp add: command_sectors_def)
qed

lemma ata_read_wait_reads:
  assumes disk: "ata_disk D (io_base (primary_master s)) hw" and r: "disk_ready cur s" "a \<noteq> NULL"
    and n: "0 < n" "n < 256" and buf: "buf \<noteq> NULL" "unat buf + 512 * unat n \<le> 2 ^ 32"
  shows "\<exists>s'. ata_read_wait hw a buf lba n s = Some (Inr (0, s')) \<and> disk_ready cur s' \<and> same_kernel s s'
    \<and> ram s' = disk_bytes D (512 * (unat lba mod 2 ^ 28)) buf (512 * unat n) (ram s)"
proof -
  have rd: "current s = Some cur" "cur < length (tasks s)" "req_queue s = NULL" "reload_tss (gdts s) = Inr (gdts s)"
    using r(1) by (simp_all add: disk_ready_def)
  define rq where "rq = new_req buf lba n cur"
  have e: "enqueue a (req_queue s, (reqs s)(a := new_req buf lba n cur)) = Some (a, (reqs s)(a := rq))"
    using rd(3) by (simp add: enqueue_def rq_def)
  obtain t where t: "ata_read a buf lba n s = Some (Inr t)" "io_log t = issue_log (primary_master s) rq @ io_log s"
    "req_queue t = a" "reqs t = (reqs s)(a := rq)" "ram t = ram s" "gdts t = gdts s" "same_kernel s t" "length (tasks t) = length (tasks s)"
    using ata_read_eq [OF rd(1) e] small_not_sle [OF n(2)] rd(1,3) by (simp add: reschedule_eq same_kernel_def rq_def)
  let ?u = "enable_irq t"
  have pm: "primary_master ?u = primary_master s" using t(7) by (simp add: same_kernel_def enable_irq_def)
  have tr: "transferring (io_base (primary_master ?u)) (unat lba mod 2 ^ 28) (unat n) 0 (io_log ?u)"
    using issue_transferring [of rq "primary_master s" "io_log s"] n t(2) pm by (simp add: rq_def enable_irq_def word_gt_0)
  have q: "req_queue ?u = a" "reqs ?u a = rq" "rq_count rq = of_nat (unat n)" "0 < unat n" "unat n < 256"
    using t(3,4) n by (simp_all add: enable_irq_def rq_def word_less_nat_alt)
  have nn: "\<forall>i<unat n. rq_buf rq + 512 * of_nat i \<noteq> NULL" using buf buffer_not_null [of buf "unat n"] by (simp add: rq_def)
  have nx: "rq_next rq \<noteq> a" "rq_next rq \<noteq> NULL \<longrightarrow> \<not> 256 \<le>s rq_count (reqs ?u (rq_next rq))" using r(2) by (simp_all add: rq_def)
  obtain log where v: "serve hw (unat n) ?u = Inr (upd_task cur (\<lambda>t. t\<lparr>state := TASK_RUNNING\<rparr>)
        (?u\<lparr>ram := disk_bytes D (512 * (unat lba mod 2 ^ 28)) buf (512 * unat n) (ram s), io_log := log,
           req_queue := NULL, reqs := (reqs ?u)(a := (next_sector ^^ unat n) rq)\<rparr>))" (is "_ = Inr ?v")
    using serve_request [OF _ tr q(1) r(2) q(2-5) nn nx] disk pm t(5) by (auto simp: rq_def enable_irq_def)
  have run: "state (tasks ?v ! cur) = TASK_RUNNING" using t(8) rd(2) by (simp add: upd_task_def enable_irq_def)
  have g: "reload_tss (gdts (disable_irq ?v)) = Inr (gdts s)"
    using t(6) rd(4) by (simp add: disable_irq_def enable_irq_def upd_task_def)
  show ?thesis
    using t(1,6-8) v run rd switch_to_eq [OF g, of cur] command_sectors_small [OF n]
    by (simp add: ata_read_wait_def disk_ready_def same_kernel_def) (simp add: disable_irq_def enable_irq_def upd_task_def)
qed

section \<open>A concrete disk\<close>

definition disk_hw :: "(nat \<Rightarrow> u8) \<Rightarrow> u16 \<Rightarrow> device" where
  "disk_hw D base log =
     (case log of
        In16 p # l \<Rightarrow> (if p = base then case read_cmd base l of None \<Rightarrow> 0
          | Some (lba, n) \<Rightarrow> ucast (disk_word D (256 * lba + data_reads base l)) else 0)
      | _ \<Rightarrow> 0)"

lemma disk_hw_disk: "ata_disk D base (disk_hw D base)"
proof -
  have "ucast (ucast w :: u32) = w" for w :: u16 by (rule bit_word_eqI) (auto simp: bit_simps)
  then show ?thesis by (simp add: ata_disk_def disk_hw_def)
qed

definition ata0 :: ata where
  "ata0 = sched.extend (sched0\<lparr>tasks := (tasks sched0)[0 := (tasks sched0 ! 0)\<lparr>state := TASK_RUNNING\<rparr>]\<rparr>)
     \<lparr>primary_master = \<lparr>io_base = 0x1f0, io_ctrl_base = 0x3f6\<rparr>, req_queue = NULL, reqs = (\<lambda>_. new_req 0 0 0 0)\<rparr>"

lemma ata0_simps [simp]:
  "req_queue ata0 = NULL" "reqs ata0 = (\<lambda>_. new_req 0 0 0 0)" "primary_master ata0 = \<lparr>io_base = 0x1f0, io_ctrl_base = 0x3f6\<rparr>"
  "current ata0 = None" "length (tasks ata0) = 256" "state (tasks ata0 ! 0) = TASK_RUNNING"
  "0 < i \<Longrightarrow> i < 256 \<Longrightarrow> state (tasks ata0 ! i) = TASK_NOT_ALLOCATED" "ram ata0 = (\<lambda>_. 0)"
  by (simp_all add: ata0_def sched.defs nth_list_update)

lemma ata0_gdt: "reload_tss (gdts ata0) = Inr (gdts ata0)"
  using sched0_gdt by (simp add: ata0_def sched.defs)

definition reading0 :: ata where
  "reading0 = ata0\<lparr>req_queue := 0x1000, reqs := (\<lambda>_. new_req 0x2000 5 2 0),
     io_log := issue_log (primary_master ata0) (new_req 0x2000 5 2 0)\<rparr>"

theorem ata_request_served_witness:
  "\<exists>s'. serve (disk_hw of_nat 0x1f0) 2 reading0 = Inr s' \<and> ram s' 0x2003 = of_nat (512 * 5 + 3)
     \<and> ram s' 0x23ff = of_nat (512 * 6 + 511) \<and> ram s' 0x2400 = 0 \<and> queued (req_queue s', reqs s') []"
proof -
  have c: "commanded (new_req 0x2000 5 2 0) reading0"
    using issue_transferring [of "new_req 0x2000 5 2 0" "primary_master ata0" "[]"] by (simp add: commanded_def reading0_def)
  obtain s' where s': "serve (disk_hw of_nat 0x1f0) 2 reading0 = Inr s'" "\<forall>i<1024. ram s' (0x2000 + of_nat i) = of_nat (2560 + i)"
    "\<forall>p. 1024 \<le> unat (p - 0x2000) \<longrightarrow> ram s' p = 0" "queued (req_queue s', reqs s') []"
    using ata_request_served [where D = of_nat and s = reading0 and hw = "disk_hw of_nat 0x1f0" and a = "0x1000" and as = "[]"
        and r = "new_req 0x2000 5 2 0"] c
    by (auto simp: reading0_def queued_def disk_hw_disk)
  moreover have "ram s' (0x2000 + of_nat 3) = of_nat (2560 + 3)" "ram s' (0x2000 + of_nat 1023) = of_nat (2560 + 1023)"
    by (rule s'(2) [rule_format], simp)+
  moreover from s'(3) have "ram s' 0x2400 = 0" by simp
  ultimately show ?thesis by simp
qed

theorem ata_read_submits_witness:
  "\<exists>s'. ata_read 0x1000 0x2000 5 2 (ata0\<lparr>current := Some 0\<rparr>) = Some (Inr s') \<and> queued (req_queue s', reqs s') [0x1000]
     \<and> state (tasks s' ! 0) = TASK_DISK_READ \<and> commanded (reqs s' 0x1000) s'"
  using ata_read_submits [where s = "ata0\<lparr>current := Some 0\<rparr>" and cur = 0 and as = "[]" and a = "0x1000" and n = 2
      and buf = "0x2000" and lba = 5] by (auto simp: queued_def)

end
