(* ===== verification/Syscall.thy ===== *)
theory Syscall
  imports Disk
begin

text \<open>
  System calls: \<^verbatim>\<open>src/syscall.c\<close>.

  The saved registers of the caller are a record that the handler returns changed. A call may block: its
  result is the value that the C function returns, at once or when the task runs again, with the
  state in which control leaves the function. The function table is the list \<open>syscall_table\<close>, so its
  size is the bound of the call number. The request and the buffer of \<open>syscall_read\<close> lie on the kernel
  stack of the task; their addresses are arguments.
\<close>

type_synonym 'a syscall_fn = "regs \<Rightarrow> 'a ata_scheme \<Rightarrow> (u32 \<times> 'a ata_scheme) result option"

definition syscall_wait :: "'a syscall_fn" where
  "syscall_wait rg s =
     (let ticks = r_ebx rg
      in if ticks \<le>s 0 then Some (Inr (- EINVAL, s))
         else case current s of None \<Rightarrow> Some (Inl Null_Deref)
           | Some cur \<Rightarrow>
               (case reschedule (upd_task cur (\<lambda>t. t\<lparr>ticks_remaining := ticks, state := TASK_WAITING\<rparr>) s) of
                  Inl e \<Rightarrow> Some (Inl e) | Inr s \<Rightarrow> Some (Inr (0, s))))"

definition syscall_print :: "'a syscall_fn" where
  "syscall_print rg s =
     Some (Inr (0, terminal_writestring (bytes
       (if r_ebx rg = 1 then ''1'' else if r_ebx rg = 2 then ''2'' else if r_ebx rg = 3 then ''3''
        else if r_ebx rg = 4 then ''4'' else ''x'')) s))"

definition syscall_read :: "u32 \<Rightarrow> u32 \<Rightarrow> 'a syscall_fn" where
  "syscall_read req_addr sector rg s =
     (case ata_read req_addr sector 12 4 s of None \<Rightarrow> None
      | Some (Inl e) \<Rightarrow> Some (Inl e) | Some (Inr s) \<Rightarrow> Some (Inr (0, s)))"

definition syscall_table :: "u32 \<Rightarrow> u32 \<Rightarrow> 'a syscall_fn list" where
  "syscall_table req_addr sector = [syscall_wait, syscall_print, syscall_read req_addr sector]"

definition syscall_irq :: "u32 \<Rightarrow> u32 \<Rightarrow> regs \<Rightarrow> 'a ata_scheme \<Rightarrow> (regs \<times> 'a ata_scheme) result option" where
  "syscall_irq req_addr sector rg s =
     (if \<not> is_userspace rg then Some (Inl (Panic ''bug: '!is_userspace(regs)' ''))
      else if current s = None then Some (Inl (Panic ''bug: 'current == NULL' ''))
      else
        let table = syscall_table req_addr sector :: 'a syscall_fn list
        in if of_nat (length table) \<le> r_eax rg then Some (Inr (rg\<lparr>r_eax := - ENOSYS\<rparr>, s))
           else bindk ((table ! unat (r_eax rg)) rg s) (\<lambda>(v, s). Some (Inr (rg\<lparr>r_eax := v\<rparr>, s))))"

section \<open>Dispatch\<close>

lemma nr_cases: "(nr :: u32) < 3 \<longleftrightarrow> nr = 0 \<or> nr = 1 \<or> nr = 2"
proof
  assume "nr < 3"
  then have "unat nr = 0 \<or> unat nr = 1 \<or> unat nr = 2" by (simp add: word_less_nat_alt) linarith
  then show "nr = 0 \<or> nr = 1 \<or> nr = 2" by (simp add: word_unat_eq_iff)
qed auto

lemma sle_0: "(x :: u32) \<le>s 0 \<longleftrightarrow> sint x \<le> 0"
  by (simp add: word_sle_eq)

lemma print_char:
  "c_string (bytes (if x = 1 then ''1'' else if x = 2 then ''2'' else if x = 3 then ''3'' else if x = (4 :: u32) then ''4'' else ''x''))
    = [if unat x \<in> {1..4} then 0x30 + ucast x else 0x78]"
proof -
  have "unat x \<in> {1..4} \<longleftrightarrow> unat x = 1 \<or> unat x = 2 \<or> unat x = 3 \<or> unat x = 4" by auto
  also have "\<dots> \<longleftrightarrow> x = 1 \<or> x = 2 \<or> x = 3 \<or> x = 4" by (simp add: word_unat_eq_iff)
  finally show ?thesis by (auto simp: bytes_def c_string_def)
qed

lemma syscall_irq_eqs:
  assumes "is_userspace rg" "current s = Some cur"
  shows "r_eax rg = 0 \<Longrightarrow> syscall_irq a b rg s = bindk (syscall_wait rg s) (\<lambda>(v, s). Some (Inr (rg\<lparr>r_eax := v\<rparr>, s)))"
    and "r_eax rg = 1 \<Longrightarrow> syscall_irq a b rg s = bindk (syscall_print rg s) (\<lambda>(v, s). Some (Inr (rg\<lparr>r_eax := v\<rparr>, s)))"
    and "r_eax rg = 2 \<Longrightarrow> syscall_irq a b rg s = bindk (syscall_read a b rg s) (\<lambda>(v, s). Some (Inr (rg\<lparr>r_eax := v\<rparr>, s)))"
    and "3 \<le> r_eax rg \<Longrightarrow> syscall_irq a b rg s = Some (Inr (rg\<lparr>r_eax := - ENOSYS\<rparr>, s))"
  using assms by (simp_all add: syscall_irq_def syscall_table_def Let_def word_le_nat_alt)

lemma syscall_wait_blocks:
  assumes "current s = Some cur" "0 < sint (r_ebx rg)" "cur < length (tasks s)"
  shows "\<exists>t. syscall_wait rg s = Some (Inr (0, t)) \<and> current t = None \<and> gdts t = gdts s \<and> ram t = ram s
    \<and> tasks t = (tasks s)[cur := (tasks s ! cur)\<lparr>ticks_remaining := r_ebx rg, state := TASK_WAITING, ctx := cpu s\<rparr>]"
  using assms by (simp add: syscall_wait_def sle_0 upd_task_def reschedule_eq)

text \<open>C39. What a system call returns to its caller, in the calls that do not block: an unknown number gives
  \<open>-ENOSYS\<close> and a timeout that is not positive as a signed integer \<open>-EINVAL\<close>, and neither changes any state;
  printing gives 0 after writing the digit asked for, or an x. No other register of the caller changes.
  A call from kernel mode, or without a current task, is a panic.\<close>

theorem syscall_irq_returns:
  "(unat (r_cs rg) mod 4 \<noteq> 3 \<longrightarrow> syscall_irq a b rg s = Some (Inl (Panic ''bug: '!is_userspace(regs)' '')))
   \<and> (unat (r_cs rg) mod 4 = 3 \<and> current s = None \<longrightarrow>
      syscall_irq a b rg s = Some (Inl (Panic ''bug: 'current == NULL' '')))
   \<and> (unat (r_cs rg) mod 4 = 3 \<and> current s = Some cur \<longrightarrow>
      (3 \<le> unat (r_eax rg) \<longrightarrow> syscall_irq a b rg s = Some (Inr (rg\<lparr>r_eax := - 1\<rparr>, s)))
      \<and> (r_eax rg = 0 \<and> sint (r_ebx rg) \<le> 0 \<longrightarrow> syscall_irq a b rg s = Some (Inr (rg\<lparr>r_eax := - 4\<rparr>, s)))
      \<and> (r_eax rg = 1 \<longrightarrow> syscall_irq a b rg s = Some (Inr (rg\<lparr>r_eax := 0\<rparr>,
          terminal_write [if unat (r_ebx rg) \<in> {1..4} then 0x30 + ucast (r_ebx rg) else 0x78] 7 s))))"
proof (intro conjI impI)
  assume u: "unat (r_cs rg) mod 4 = 3 \<and> current s = Some cur"
  then have us: "is_userspace rg" "current s = Some cur" by (simp_all add: is_userspace_rpl)
  note eqs = syscall_irq_eqs [OF us]
  show "syscall_irq a b rg s = Some (Inr (rg\<lparr>r_eax := - 1\<rparr>, s))" if "3 \<le> unat (r_eax rg)"
    using eqs(4) that by (simp add: word_le_nat_alt ENOSYS_def)
  show "syscall_irq a b rg s = Some (Inr (rg\<lparr>r_eax := - 4\<rparr>, s))" if "r_eax rg = 0 \<and> sint (r_ebx rg) \<le> 0"
    using eqs(1) that by (simp add: syscall_wait_def sle_0 EINVAL_def)
  show "syscall_irq a b rg s = Some (Inr (rg\<lparr>r_eax := 0\<rparr>,
      terminal_write [if unat (r_ebx rg) \<in> {1..4} then 0x30 + ucast (r_ebx rg) else 0x78] 7 s))" if "r_eax rg = 1"
    using eqs(2) that print_char [of "r_ebx rg"]
    by (simp add: syscall_print_def terminal_writestring_def vga_entry_color_def)
qed (auto simp: syscall_irq_def is_userspace_rpl)

text \<open>C13. The system call \<open>wait\<close> with a positive argument \<open>n\<close>, together with the timer and the scheduler: the
  caller is asleep after fewer than \<open>n\<close> ticks and runnable after \<open>n\<close>; when it is switched to it goes
  on with the registers it had in the call, which returns 0. The ticks are those of an idle processor, with no task
  running in between.\<close>

theorem syscall_wait_sleeps:
  assumes "unat (r_cs rg) mod 4 = 3" "r_eax rg = 0" "0 < sint (r_ebx rg)" "k \<le> nat (sint (r_ebx rg))"
    and "current s = Some cur" "cur < MAX_TASKS" "length (tasks s) = MAX_TASKS" "reload_tss (gdts s) = Inr (gdts s)"
  shows "\<exists>t u v. syscall_irq a b rg s = Some (Inr (rg\<lparr>r_eax := 0\<rparr>, t)) \<and> idle_ticks k t = Inr u
    \<and> state (tasks u ! cur) = (if k < nat (sint (r_ebx rg)) then TASK_WAITING else TASK_RUNNING)
    \<and> switch_to cur u = Inr v \<and> current v = Some cur \<and> cpu v = (cpu s)\<lparr>c_esp := c_esp (cpu s) + 4\<rparr>
    \<and> eip v = load32 (ram s) (c_esp (cpu s))"
proof -
  have us: "is_userspace rg" using assms(1) by (simp add: is_userspace_rpl)
  have n: "unat (r_ebx rg) = nat (sint (r_ebx rg))" using assms(3) u32_lt [of "r_ebx rg"] by (subst sint_u32) (auto simp: sint_u32 split: if_splits)
  let ?w = "(tasks s ! cur)\<lparr>ticks_remaining := r_ebx rg, state := TASK_WAITING, ctx := cpu s\<rparr>"
  obtain t where t: "syscall_wait rg s = Some (Inr (0, t))" "current t = None" "gdts t = gdts s" "ram t = ram s"
    "tasks t = (tasks s)[cur := ?w]"
    using syscall_wait_blocks [OF assms(5,3)] assms(6,7) by auto
  have irq: "syscall_irq a b rg s = Some (Inr (rg\<lparr>r_eax := 0\<rparr>, t))"
    using syscall_irq_eqs(1) [OF us assms(5,2)] t(1) by simp
  obtain u where u: "idle_ticks k t = Inr u" "tasks u = map (tick_task ^^ k) (tasks t)" "gdts u = gdts s" "ram u = ram s"
    using idle_ticks_eq [of t k] t assms(7) by auto
  have w: "tasks u ! cur = (tick_task ^^ k) ?w" using u(2) t(5) assms(6,7) by simp
  have "state (tasks u ! cur) = (if k < nat (sint (r_ebx rg)) then TASK_WAITING else TASK_RUNNING)"
    unfolding w using n assms(3,4) by (intro ticks_state) auto
  moreover have "ctx (tasks u ! cur) = cpu s" unfolding w by simp
  ultimately show ?thesis using irq u switch_to_eq [of u "gdts s" cur] assms(8) by simp
qed

section \<open>A timer tick inside switch\_to\<close>

text \<open>C38. A timer tick inside \<open>switch_to\<close>. A system call that blocks was entered through a trap gate, so it leaves interrupts
  on, and nothing turns them off on the way back into the scan of \<open>scheduler_start\<close> and into \<open>switch_to\<close>: they are
  on between \<^verbatim>\<open>current = task\<close> and \<^verbatim>\<open>__switch_to\<close>. A tick that arrives there takes the task to be running and
  saves the scheduler's own registers as the context of that task; the context it had is lost, and when the
  scheduler comes to switch to it the next time, the processor goes on with the scheduler's stack and not the task's.\<close>

theorem tick_inside_switch_to:
  assumes "unat (r_cs rg) mod 4 = 3" "r_eax rg = 0" "0 < sint (r_ebx rg)" "irqs_on s"
    and "current s = Some cur" "cur < MAX_TASKS" "length (tasks s) = MAX_TASKS" "reload_tss (gdts s) = Inr (gdts s)"
    and "find (runnable s) [Suc cur..<MAX_TASKS] = Some i"
  shows "\<exists>t u v w. syscall_irq a b rg s = Some (Inr (rg\<lparr>r_eax := 0\<rparr>, t))
    \<and> sched_step\<^sup>*\<^sup>* (Scan (Suc cur) True, t) (Scan i True, t) \<and> state (tasks t ! i) = TASK_RUNNING
    \<and> switch_prepare i t = Inr u \<and> irqs_on u \<and> timer_irq u = Inr v
    \<and> current v = None \<and> state (tasks v ! i) = TASK_RUNNING \<and> ctx (tasks v ! i) = cpu t
    \<and> switch_to i v = Inr w \<and> cpu w = (cpu t)\<lparr>c_esp := c_esp (cpu t) + 4\<rparr>"
proof -
  have us: "is_userspace rg" using assms(1) by (simp add: is_userspace_rpl)
  obtain k where k: "i = Suc cur + k" "i < MAX_TASKS" "runnable s i" "\<forall>l<k. \<not> runnable s (Suc cur + l)"
    using assms(9) by (auto simp: find_Some_iff)
  have "\<not> runnable s j" if "Suc cur \<le> j" "j < i" for j
    using k(4) [rule_format, of "j - Suc cur"] that k(1) by auto
  with k have i: "Suc cur \<le> i" "i < MAX_TASKS" "runnable s i" "\<forall>j. Suc cur \<le> j \<and> j < i \<longrightarrow> \<not> runnable s j" by auto
  have nle: "\<not> r_ebx rg \<le>s 0" using assms(3) by (simp add: sle_0)
  define t where "t = s\<lparr>current := None, tasks := (tasks s)[cur := (tasks s ! cur)\<lparr>ticks_remaining := r_ebx rg, state := TASK_WAITING, ctx := cpu s\<rparr>],
    cpu := (scheduler_context s)\<lparr>c_esp := c_esp (scheduler_context s) + 4\<rparr>, eip := load32 (ram s) (c_esp (scheduler_context s))\<rparr>"
  have call: "syscall_irq a b rg s = Some (Inr (rg\<lparr>r_eax := 0\<rparr>, t))"
    using syscall_irq_eqs(1) [OF us assms(5,2)] nle assms(5-7)
    by (simp add: syscall_wait_def upd_task_def reschedule_eq t_def)
  have same: "runnable t j = runnable s j" if "Suc cur \<le> j" for j using that by (simp add: t_def runnable_def)
  have scan: "sched_step\<^sup>*\<^sup>* (Scan (Suc cur) True, t) (Scan i True, t)" by (rule scan_skip) (use i same in auto)
  have t: "state (tasks t ! i) = TASK_RUNNING" "irqs_on t" "reload_tss (gdts t) = Inr (gdts t)" "length (tasks t) = MAX_TASKS"
    using same [OF i(1)] i(3) assms(4,7,8) by (simp_all add: runnable_def t_def irqs_on_def)
  define u where "u = t\<lparr>TSS := \<lparr>esp0 = kstack (tasks t ! i) + KERNEL_STACK_SIZE, ss0 = 0x10, iopb = 0xffff\<rparr>, current := Some i\<rparr>"
  have u: "switch_prepare i t = Inr u" "irqs_on u" "tasks u = tasks t" "current u = Some i" "cpu u = cpu t" "gdts u = gdts t"
    using switch_prepare_eq [OF t(3)] t(2,3) by (simp_all add: u_def irqs_on_def)
  have "tick_task (tasks t ! i) = tasks t ! i" using t(1) by (simp add: tick_task_def)
  then obtain v where v: "timer_irq u = Inr v" "current v = None" "ctx (tasks v ! i) = cpu t" "state (tasks v ! i) = TASK_RUNNING" "gdts v = gdts t"
    using t(1,4) u(3-6) i(2) by (simp add: timer_irq_eq scheduler_tick_eq reschedule_eq Let_def)
  have "switch_to i v = Inr w \<longrightarrow> cpu w = (cpu t)\<lparr>c_esp := c_esp (cpu t) + 4\<rparr>" for w
    using switch_to_eq [of v "gdts t" i] t(3) v(3,5) by auto
  moreover obtain w where "switch_to i v = Inr w" using switch_to_eq [of v "gdts t" i] t(3) v(5) by auto
  ultimately obtain w where w: "switch_to i v = Inr w" "cpu w = (cpu t)\<lparr>c_esp := c_esp (cpu t) + 4\<rparr>" by blast
  show ?thesis
    by (intro exI [of _ t] exI [of _ u] exI [of _ v] exI [of _ w] conjI) (rule call scan t u v w)+
qed

section \<open>Concrete calls\<close>

theorem syscall_irq_returns_witness:
  "syscall_irq 0x1000 0x2000 (user_frame\<lparr>r_cs := 8\<rparr>) ata0 = Some (Inl (Panic ''bug: '!is_userspace(regs)' ''))
   \<and> syscall_irq 0x1000 0x2000 user_frame ata0 = Some (Inl (Panic ''bug: 'current == NULL' ''))
   \<and> syscall_irq 0x1000 0x2000 (user_frame\<lparr>r_eax := 7\<rparr>) (ata0\<lparr>current := Some 0\<rparr>)
      = Some (Inr (user_frame\<lparr>r_eax := - 1\<rparr>, ata0\<lparr>current := Some 0\<rparr>))
   \<and> syscall_irq 0x1000 0x2000 (user_frame\<lparr>r_ebx := - 5\<rparr>) (ata0\<lparr>current := Some 0\<rparr>)
      = Some (Inr (user_frame\<lparr>r_ebx := - 5, r_eax := - 4\<rparr>, ata0\<lparr>current := Some 0\<rparr>))
   \<and> syscall_irq 0x1000 0x2000 (user_frame\<lparr>r_eax := 1, r_ebx := 3\<rparr>) (ata0\<lparr>current := Some 0\<rparr>)
      = Some (Inr (user_frame\<lparr>r_eax := 0, r_ebx := 3\<rparr>, terminal_write [0x33] 7 (ata0\<lparr>current := Some 0\<rparr>)))"
  using syscall_irq_returns [where rg = "user_frame\<lparr>r_cs := 8\<rparr>" and s = ata0 and a = "0x1000" and b = "0x2000" and cur = 0]
    syscall_irq_returns [where rg = user_frame and s = ata0 and a = "0x1000" and b = "0x2000" and cur = 0]
    syscall_irq_returns [where rg = "user_frame\<lparr>r_eax := 7\<rparr>" and s = "ata0\<lparr>current := Some 0\<rparr>" and a = "0x1000" and b = "0x2000" and cur = 0]
    syscall_irq_returns [where rg = "user_frame\<lparr>r_ebx := - 5\<rparr>" and s = "ata0\<lparr>current := Some 0\<rparr>" and a = "0x1000" and b = "0x2000" and cur = 0]
    syscall_irq_returns [where rg = "user_frame\<lparr>r_eax := 1, r_ebx := 3\<rparr>" and s = "ata0\<lparr>current := Some 0\<rparr>" and a = "0x1000" and b = "0x2000" and cur = 0]
  by (simp add: user_frame_def)

theorem syscall_wait_sleeps_witness:
  "\<exists>t u v. syscall_irq 0x1000 0x2000 (user_frame\<lparr>r_ebx := 5\<rparr>) (ata0\<lparr>current := Some 0\<rparr>) = Some (Inr (user_frame\<lparr>r_ebx := 5\<rparr>, t))
     \<and> idle_ticks 5 t = Inr u \<and> state (tasks u ! 0) = TASK_RUNNING \<and> switch_to 0 u = Inr v \<and> current v = Some 0"
  using syscall_wait_sleeps [where rg = "user_frame\<lparr>r_ebx := 5\<rparr>" and s = "ata0\<lparr>current := Some 0\<rparr>" and a = "0x1000" and b = "0x2000"
      and cur = 0 and k = 5] ata0_gdt
  by (simp add: user_frame_def MAX_TASKS_def) blast

text \<open>Two tasks: the first is running, the second, in slot 3, is runnable and has its own stack.\<close>

definition two_tasks :: ata where
  "two_tasks = ata0\<lparr>current := Some 0, eflags := 0x202, scheduler_context := zero_ctx\<lparr>c_esp := 0xc0100f00\<rparr>,
     tasks := (tasks ata0)[3 := (tasks ata0 ! 3)\<lparr>state := TASK_RUNNING, ctx := zero_ctx\<lparr>c_esp := 0xc0300ffc\<rparr>\<rparr>]\<rparr>"

theorem tick_inside_switch_to_witness:
  "\<exists>t u v w. syscall_irq 0x1000 0x2000 (user_frame\<lparr>r_ebx := 5\<rparr>) two_tasks = Some (Inr (user_frame\<lparr>r_ebx := 5\<rparr>, t))
     \<and> switch_prepare 3 t = Inr u \<and> timer_irq u = Inr v \<and> switch_to 3 v = Inr w
     \<and> c_esp (ctx (tasks two_tasks ! 3)) = 0xc0300ffc \<and> cpu w = (cpu t)\<lparr>c_esp := c_esp (cpu t) + 4\<rparr>"
proof -
  have "[Suc 0..<256] = 1 # 2 # 3 # [4..<256]"
    by code_simp
  then have "find (runnable two_tasks) [Suc 0..<MAX_TASKS] = Some 3"
    by (simp add: MAX_TASKS_def runnable_def two_tasks_def nth_list_update)
  moreover have "irqs_on two_tasks" by (simp add: two_tasks_def irqs_on_def)
  ultimately show ?thesis
    using tick_inside_switch_to [where rg = "user_frame\<lparr>r_ebx := 5\<rparr>" and s = two_tasks and a = "0x1000" and b = "0x2000" and cur = 0 and i = 3] ata0_gdt
    by (simp add: user_frame_def MAX_TASKS_def two_tasks_def) blast
qed

end
