(* ===== verification/Ext2.thy ===== *)
theory Ext2
  imports Syscall Layout
begin

text \<open>
  The ext2 reader: \<^verbatim>\<open>src/ext2.c\<close>.

  The on-disk structures are layouts (field names with their sizes, in order), so that \<^verbatim>\<open>sizeof\<close> and the
  offsets the code uses are computed from them; a field is a load from memory at its offset. The
  superblock lies at the address \<open>fs\<close> of \<^verbatim>\<open>root_ext2\<close>, the two pointers of \<^verbatim>\<open>struct ext2_fs\<close> are the
  state \<open>bgd\<close> and \<open>tmp\<close>. Reads go through \<open>ata_read_wait\<close>, so a call returns when the disk is done.
  Shifts take their count modulo 32, as the processor does. The directory loop, which a record
  length of zero keeps running, is a partial function. Addresses of objects on the kernel stack (the
  request, the inode) are arguments.
\<close>

section \<open>Structures\<close>

definition ext2_extended_superblock :: layout where
  "ext2_extended_superblock =
     [(''first_inode'', 4), (''inode_size_bytes'', 2), (''block_group'', 2), (''optional_features'', 4),
      (''required_features'', 4), (''ro_features'', 4), (''fs_id'', 16), (''volume_name'', 16), (''last_mountpoint'', 64),
      (''compression'', 4), (''file_preallocate_blocks'', 1), (''dir_preallocate_blocks'', 1), (''unused0'', 2),
      (''journal_id'', 16), (''journal_inode'', 4), (''journal_dev'', 4), (''orphan_inodes_head'', 4), (''unused1'', 788)]"

definition ext2_superblock :: layout where
  "ext2_superblock =
     [(''total_inodes'', 4), (''total_blocks'', 4), (''root_reserved_blocks'', 4), (''blocks_unallocated'', 4),
      (''inodes_unallocated'', 4), (''superblock_block'', 4), (''block_size_log'', 4), (''fragment_size_log'', 4),
      (''blocks_per_group'', 4), (''fragments_per_block_group'', 4), (''inodes_per_block_group'', 4),
      (''last_mount_time'', 4), (''last_write_time'', 4), (''mounts_since_fsck'', 2), (''mounts_before_fsck'', 2),
      (''signature'', 2), (''fs_state'', 2), (''error_detection'', 2), (''rev_minor'', 2), (''last_fsck_time'', 4),
      (''force_fsck_time_interval'', 4), (''os_id'', 4), (''rev'', 4), (''root_uid'', 2), (''root_gid'', 2)]
     @ ext2_extended_superblock"

definition ext2_inode :: layout where
  "ext2_inode =
     [(''mode'', 2), (''uid'', 2), (''size_lo'', 4), (''atime'', 4), (''ctime'', 4), (''mtime'', 4), (''dtime'', 4),
      (''gid'', 2), (''links'', 2), (''i_blocks'', 4), (''flags'', 4), (''os_specific1'', 4), (''direct_ptr'', 4 * 12),
      (''single_indirect_ptr'', 4), (''doubly_indirect_ptr'', 4), (''triple_indirect_ptr'', 4),
      (''generation_number'', 4), (''acl'', 4), (''size_hi'', 4), (''fragment_block_address'', 4), (''os_specific2'', 12)]"

definition ext2_block_group_descriptor :: layout where
  "ext2_block_group_descriptor =
     [(''block_bitmap'', 4), (''inode_bitmap'', 4), (''inode_table'', 4), (''unallocated_blocks'', 2),
      (''unallocated_inodes'', 2), (''total_directories'', 2), (''unused'', 14)]"

definition ext2_dir_entry_head :: layout where
  "ext2_dir_entry_head = [(''inode'', 4), (''rec_len'', 2), (''name_len'', 1), (''file_type'', 1), (''name'', 0)]"

definition EXT2_SIGNATURE :: u16 where "EXT2_SIGNATURE = 0xef53"

record ext2 = ata +
  bgd :: u32
  tmp :: u32

section \<open>Reading blocks and inodes\<close>

definition shl :: "u32 \<Rightarrow> u32 \<Rightarrow> u32" where
  "shl x n = push_bit (unat (n AND 31)) x"

definition ext2_block_size :: "u32 \<Rightarrow> 'a ext2_scheme \<Rightarrow> u32" where
  "ext2_block_size fs s = shl 1024 (field32 (ram s) fs ext2_superblock ''block_size_log'')"

definition ext2_read_block :: "device \<Rightarrow> u32 \<Rightarrow> u32 \<Rightarrow> u32 \<Rightarrow> u32 \<Rightarrow> 'a ext2_scheme \<Rightarrow> (u32 \<times> 'a ext2_scheme) result option" where
  "ext2_read_block hw req_addr fs block buf s =
     (let sectors_per_block = ext2_block_size fs s div 512;
          len = ext2_block_size fs s;
          s = s\<lparr>ram := memset (ram s) buf 0 len\<rparr>
      in if buf = NULL \<and> len \<noteq> 0 then Some (Inl Null_Deref)
         else ata_read_wait hw req_addr buf (sectors_per_block * block) sectors_per_block s)"

definition ext2_read_inode :: "device \<Rightarrow> u32 \<Rightarrow> u32 \<Rightarrow> u32 \<Rightarrow> u32 \<Rightarrow> 'a ext2_scheme \<Rightarrow> (u32 \<times> 'a ext2_scheme) result option" where
  "ext2_read_inode hw req_addr fs inode buf s =
     (let per_group = field32 (ram s) fs ext2_superblock ''inodes_per_block_group''
      in if per_group = 0 \<or> ext2_block_size fs s = 0 then Some (Inl Div_By_Zero)
         else
           let group = (inode - 1) div per_group;
               inode_index = (inode - 1) mod per_group;
               inode_size = (if 1 \<le> field32 (ram s) fs ext2_superblock ''rev''
                             then ucast (field16 (ram s) fs ext2_superblock ''inode_size_bytes'') else 128);
               block = field32 (ram s) (bgd s + of_nat (sizeof ext2_block_group_descriptor) * group)
                         ext2_block_group_descriptor ''inode_table'' + (inode_index * inode_size) div ext2_block_size fs s
           in bindk (ext2_read_block hw req_addr fs block (tmp s) s) (\<lambda>(ret, s).
                if ret <s 0 then Some (Inr (ret, s))
                else
                  let pos = (inode_index * inode_size) mod ext2_block_size fs s
                  in Some (Inr (0, s\<lparr>ram := memcpy (ram s) buf (tmp s + pos) (of_nat (sizeof ext2_inode))\<rparr>))))"

section \<open>Mounting\<close>

text \<open>The string a pointer argument of \<^verbatim>\<open>%s\<close> stands for: the bytes up to the first zero byte.\<close>

definition c_string_at :: "mem \<Rightarrow> u32 \<Rightarrow> u8 list option" where
  "c_string_at m p = (case strlen m p of None \<Rightarrow> None | Some n \<Rightarrow> Some (map (\<lambda>i. m (p + of_nat i)) [0..<unat n]))"

partial_function (option) dir_loop :: "u32 \<Rightarrow> u32 \<Rightarrow> 'a ext2_scheme \<Rightarrow> 'a ext2_scheme result option" where
  "dir_loop head stop s =
     (if head < stop then
        case c_string_at (ram s) (head + of_nat (offset_of ''name'' ext2_dir_entry_head)) of None \<Rightarrow> None
        | Some name \<Rightarrow>
            (case printk '' * entry name='%s', inode=%d\<newline>'' [VStr name, VWord (field32 (ram s) head ext2_dir_entry_head ''inode'')] s of
               Inl e \<Rightarrow> Some (Inl e)
             | Inr s \<Rightarrow> dir_loop (head + ucast (field16 (ram s) head ext2_dir_entry_head ''rec_len'')) stop s)
      else Some (Inr s))"

fun block_loop :: "device \<Rightarrow> u32 \<Rightarrow> u32 \<Rightarrow> u32 \<Rightarrow> nat \<Rightarrow> nat \<Rightarrow> 'a ext2_scheme \<Rightarrow> (u32 \<times> 'a ext2_scheme) result option" where
  "block_loop hw req_addr fs inode_addr i 0 s = Some (Inr (0, s))"
| "block_loop hw req_addr fs inode_addr i (Suc k) s =
     (if 12 \<le> i then Some (Inl Out_Of_Bounds)
      else bindk (ext2_read_block hw req_addr fs
                    (load32 (ram s) (inode_addr + of_nat (offset_of ''direct_ptr'' ext2_inode + 4 * i))) (tmp s) s) (\<lambda>(ret, s).
        if ret <s 0 then Some (Inr (ret, s))
        else bindk (dir_loop (tmp s) (tmp s + ext2_block_size fs s) s) (\<lambda>s.
          block_loop hw req_addr fs inode_addr (Suc i) k s)))"

text \<open>The first part of \<open>ext2_init\<close>: the superblock, the two pages and the group descriptors; the result is the
  return value of the last read, with \<^verbatim>\<open>sectors_per_block\<close> and \<^verbatim>\<open>groups\<close>. \<^verbatim>\<open>sectors_per_block\<close> is an \<^verbatim>\<open>int\<close>
  quotient in C; where it is used the block size is at most 4096.\<close>

definition ext2_load_groups :: "device \<Rightarrow> u32 \<Rightarrow> u32 \<Rightarrow> 'a ext2_scheme \<Rightarrow> ((u32 \<times> u32 \<times> u32) \<times> 'a ext2_scheme) result option" where
  "ext2_load_groups hw req_addr fs s =
     bindk (ata_read_wait hw req_addr fs 2 2 s) (\<lambda>(_, s).
       let sb = field32 (ram s) fs ext2_superblock
       in if field16 (ram s) fs ext2_superblock ''signature'' \<noteq> EXT2_SIGNATURE
          then Some (Inl (Panic ''invalid signature for ext2: 0x%x''))
          else if sb ''blocks_per_group'' = 0 then Some (Inl Div_By_Zero)
          else
            let sectors_per_block = shl 1024 (sb ''block_size_log'') div 512;
                groups = sb ''total_blocks'' div sb ''blocks_per_group''
            in if PAGE_SIZE div of_nat (sizeof ext2_block_group_descriptor) < groups
               then Some (Inl (Panic ''bug: 'PAGE_SIZE / sizeof(struct ext2_block_group_descriptor) < groups' ''))
               else if PAGE_SIZE < ext2_block_size fs s then Some (Inl (Panic ''bug: 'PAGE_SIZE < ext2_block_size(fs)' ''))
               else
                 let (p, s) = kalloc s; s = s\<lparr>bgd := p\<rparr>;
                     (q, s) = kalloc s; s = s\<lparr>tmp := q\<rparr>
                 in bindk (ext2_read_block hw req_addr fs 1 (bgd s) s) (\<lambda>(ret, s).
                      Some (Inr ((ret, sectors_per_block, groups), s))))"

definition ext2_init :: "device \<Rightarrow> u32 \<Rightarrow> u32 \<Rightarrow> u32 \<Rightarrow> 'a ext2_scheme \<Rightarrow> (u32 \<times> 'a ext2_scheme) result option" where
  "ext2_init hw req_addr fs inode_addr s =
     bindk (ext2_load_groups hw req_addr fs s) (\<lambda>((ret, sectors_per_block, groups), s).
       if ret <s 0 then Some (Inr (ret, s))
       else
         case printk ''found valid ext2, rev=%d.%d, sectors_per_block=%d, groups=%d\<newline>''
                [VWord (field32 (ram s) fs ext2_superblock ''rev''),
                 VWord (ucast (field16 (ram s) fs ext2_superblock ''rev_minor'')),
                 VWord sectors_per_block, VWord groups] s of
           Inl e \<Rightarrow> Some (Inl e)
         | Inr s \<Rightarrow>
             bindk (ext2_read_inode hw req_addr fs 2 inode_addr s) (\<lambda>(ret, s).
               if ret <s 0 then Some (Inr (ret, s))
               else
                 let per_block = shl 2 (field32 (ram s) fs ext2_superblock ''block_size_log'')
                 in if per_block = 0 then Some (Inl Div_By_Zero)
                    else block_loop hw req_addr fs inode_addr 0
                           (unat (field32 (ram s) inode_addr ext2_inode ''i_blocks'' div per_block)) s))"

definition init_ext2 :: "device \<Rightarrow> u32 \<Rightarrow> u32 \<Rightarrow> u32 \<Rightarrow> 'a ext2_scheme \<Rightarrow> 'a ext2_scheme result option" where
  "init_ext2 hw req_addr root_ext2 inode_addr s =
     (if sizeof ext2_superblock \<noteq> 1024 then Some (Inl (Panic ''bug: 'sizeof(struct ext2_superblock) != 1024' ''))
      else if sizeof ext2_block_group_descriptor \<noteq> 32
        then Some (Inl (Panic ''bug: 'sizeof(struct ext2_block_group_descriptor) != 32' ''))
      else if sizeof ext2_inode < 128 then Some (Inl (Panic ''bug: 'sizeof(struct ext2_inode) < 128' ''))
      else bindk (ext2_init hw req_addr root_ext2 inode_addr s) (\<lambda>(_, s). Some (Inr s)))"

section \<open>Offsets\<close>

text \<open>The structures have the sizes the code insists on, and the fields it uses lie where the file system format
  puts them.\<close>

lemma ext2_sizes [simp]:
  "sizeof ext2_superblock = 1024" "sizeof ext2_block_group_descriptor = 32" "sizeof ext2_inode = 128"
  by code_simp+

lemma ext2_offsets [simp]:
  "offset_of ''total_blocks'' ext2_superblock = 4" "offset_of ''root_reserved_blocks'' ext2_superblock = 8"
  "offset_of ''block_size_log'' ext2_superblock = 24" "offset_of ''blocks_per_group'' ext2_superblock = 32"
  "offset_of ''inodes_per_block_group'' ext2_superblock = 40" "offset_of ''signature'' ext2_superblock = 56"
  "offset_of ''rev_minor'' ext2_superblock = 62" "offset_of ''rev'' ext2_superblock = 76"
  "offset_of ''inode_size_bytes'' ext2_superblock = 88"
  "offset_of ''inode_table'' ext2_block_group_descriptor = 8"
  "offset_of ''i_blocks'' ext2_inode = 28" "offset_of ''direct_ptr'' ext2_inode = 40"
  "offset_of ''inode'' ext2_dir_entry_head = 0" "offset_of ''rec_len'' ext2_dir_entry_head = 4"
  "offset_of ''name'' ext2_dir_entry_head = 8"
  by code_simp+

section \<open>Reading a block\<close>

lemma disk_bytes_memset: "disk_bytes D o0 b (unat n) (memset m b c n) = disk_bytes D o0 b (unat n) m"
  by (simp add: disk_bytes_def memset_eq in_range_def word_less_nat_alt fun_eq_iff)

text \<open>The three block sizes the code accepts.\<close>

definition valid_block_size :: "u32 \<Rightarrow> bool" where
  "valid_block_size bs \<longleftrightarrow> bs = 1024 \<or> bs = 2048 \<or> bs = 4096"

lemma block_sectors:
  assumes "valid_block_size bs" "unat bs * unat block < 2 ^ 37"
  shows "0 < bs div 512" "bs div 512 < 256" "512 * unat (bs div 512) = unat bs"
    "512 * (unat (bs div 512 * block) mod 2 ^ 28) = unat bs * unat block"
proof -
  have d: "unat (bs div 512) = unat bs div 512" by (simp add: unat_div)
  show "0 < bs div 512" "bs div 512 < 256" "512 * unat (bs div 512) = unat bs"
    using assms(1) by (auto simp: valid_block_size_def word_less_nat_alt unat_div)
  have "512 * (unat (bs div 512) * unat block) < 512 * 2 ^ 28"
    using assms(2) \<open>512 * unat (bs div 512) = unat bs\<close> by (simp only: mult.assoc [symmetric]) simp
  then have small: "unat (bs div 512) * unat block < 2 ^ 28" by (simp only: mult_less_cancel1)
  then have "unat (bs div 512 * block) = unat (bs div 512) * unat block" by (simp add: unat_word_ariths)
  with small \<open>512 * unat (bs div 512) = unat bs\<close> show "512 * (unat (bs div 512 * block) mod 2 ^ 28) = unat bs * unat block"
    by (simp add: mult.assoc [symmetric])
qed

lemma ext2_read_block_reads:
  assumes disk: "ata_disk D (io_base (primary_master s)) hw" and r: "disk_ready cur s" "req_addr \<noteq> NULL"
    and bs: "ext2_block_size fs s = bs" "valid_block_size bs" "unat bs * unat block < 2 ^ 37"
    and buf: "buf \<noteq> NULL" "unat buf + unat bs \<le> 2 ^ 32"
  shows "\<exists>s'. ext2_read_block hw req_addr fs block buf s = Some (Inr (0, s')) \<and> disk_ready cur s' \<and> same_kernel s s'
    \<and> ram s' = disk_bytes D (unat bs * unat block) buf (unat bs) (ram s)"
proof -
  note b = block_sectors [OF bs(2,3)]
  let ?s = "s\<lparr>ram := memset (ram s) buf 0 bs\<rparr>"
  have "disk_ready cur ?s" "same_kernel s t \<longleftrightarrow> same_kernel ?s t" for t
    using r(1) by (simp_all add: disk_ready_def same_kernel_def)
  with ata_read_wait_reads [of D ?s hw cur req_addr "bs div 512" buf "bs div 512 * block"] disk r(2) b buf bs(1)
  show ?thesis by (simp add: ext2_read_block_def Let_def disk_bytes_memset)
qed

section \<open>Reading an inode\<close>

definition inode_size :: "mem \<Rightarrow> u32 \<Rightarrow> u32" where
  "inode_size m fs = (if 1 \<le> field32 m fs ext2_superblock ''rev''
     then ucast (field16 m fs ext2_superblock ''inode_size_bytes'') else 128)"

lemma load32_disk_bytes:
  assumes "\<And>k. k < 4 \<Longrightarrow> n \<le> unat (a + k - b)"
  shows "load32 (disk_bytes D o0 b n m) a = load32 m a"
proof (rule load32_cong)
  fix k :: u32 assume "k < 4"
  from assms [OF this] show "disk_bytes D o0 b n m (a + k) = m (a + k)" by (simp add: disk_bytes_def)
qed

lemma aligned_record_fits:
  assumes "i dvd b" "0 < (b :: nat)"
  shows "(x * i) mod b + i \<le> b"
proof -
  have "i dvd b - (x * i) mod b" using assms(1) by (simp add: dvd_mod)
  moreover have "0 < b - (x * i) mod b" using assms(2) by simp
  ultimately have "i \<le> b - (x * i) mod b" by (rule dvd_imp_le)
  with mod_less_divisor [OF assms(2), of "x * i"] show ?thesis by linarith
qed

lemma inode_block:
  assumes "valid_block_size bs" "unat bs * unat table + unat x < 2 ^ 37"
  shows "unat bs * unat (table + x div bs) + unat x mod unat bs = unat bs * unat table + unat x"
    and "unat bs * unat (table + x div bs) < 2 ^ 37"
proof -
  let ?b = "unat table + unat x div unat bs"
  have le: "unat bs * ?b \<le> unat bs * unat table + unat x" by (simp add: distrib_left)
  have "1024 \<le> unat bs" using assms(1) by (auto simp: valid_block_size_def)
  then have "1024 * ?b \<le> unat bs * ?b" by (rule mult_le_mono1)
  with le assms(2) have "1024 * ?b < 2 ^ 37" by linarith
  then have "?b < 2 ^ 32" by simp
  then have ub: "unat (table + x div bs) = ?b" by (subst unat_add_lt) (simp_all add: unat_div)
  show "unat bs * unat (table + x div bs) < 2 ^ 37" unfolding ub using le assms(2) by linarith
  show "unat bs * unat (table + x div bs) + unat x mod unat bs = unat bs * unat table + unat x"
    unfolding ub using mult_div_mod_eq [of "unat bs" "unat x"] by (simp only: distrib_left)
qed

text \<open>What \<open>ext2_read_inode\<close> relies on: a superblock with one of the accepted block sizes whose inodes fill blocks
  evenly, the temporary block apart from the superblock, from the descriptors and from the destination.\<close>

definition inode_ok :: "u32 \<Rightarrow> u32 \<Rightarrow> u32 \<Rightarrow> 'a ext2_scheme \<Rightarrow> bool" where
  "inode_ok fs ino buf s \<longleftrightarrow>
     (let bs = ext2_block_size fs s; isz = inode_size (ram s) fs; per = field32 (ram s) fs ext2_superblock ''inodes_per_block_group'';
          x = unat ((ino - 1) mod per) * unat isz
      in valid_block_size bs \<and> per \<noteq> 0 \<and> 128 \<le> unat isz \<and> unat isz dvd unat bs \<and> x < 2 ^ 32
         \<and> tmp s \<noteq> NULL \<and> unat (tmp s) + unat bs \<le> 2 ^ 32 \<and> unat bs \<le> unat (buf - tmp s)
         \<and> (\<forall>k<1024. unat bs \<le> unat (fs + k - tmp s)))"

definition group_table :: "u32 \<Rightarrow> u32 \<Rightarrow> 'a ext2_scheme \<Rightarrow> u32" where
  "group_table fs ino s =
     load32 (ram s) (bgd s + 32 * ((ino - 1) div field32 (ram s) fs ext2_superblock ''inodes_per_block_group'') + 8)"

definition inode_offset :: "u32 \<Rightarrow> u32 \<Rightarrow> 'a ext2_scheme \<Rightarrow> nat" where
  "inode_offset fs ino s =
     unat ((ino - 1) mod field32 (ram s) fs ext2_superblock ''inodes_per_block_group'') * unat (inode_size (ram s) fs)"

lemma memcpy_bytes:
  assumes "128 \<le> unat (dst - src)" "k < 128"
  shows "memcpy m dst src 128 (dst + of_nat k) = m (src + of_nat k)"
proof -
  have k: "unat (of_nat k :: u32) = k" using assms(2) by (intro of_nat_less_u32) simp
  have "in_range dst 128 (dst + of_nat k)" using assms(2) k by (simp add: word_less_nat_alt)
  moreover have "(128 :: u32) \<le> dst - src" using assms(1) by (simp add: word_le_nat_alt)
  ultimately show ?thesis by (subst memcpy_eq) auto
qed

lemma ext2_read_inode_eq:
  assumes x: "x = (ino - 1) mod field32 (ram s) fs ext2_superblock ''inodes_per_block_group'' * inode_size (ram s) fs"
    and nz: "field32 (ram s) fs ext2_superblock ''inodes_per_block_group'' \<noteq> 0" "ext2_block_size fs s \<noteq> 0"
    and r: "ext2_read_block hw req_addr fs (group_table fs ino s + x div ext2_block_size fs s) (tmp s) s = Some (Inr (0, t))"
  shows "ext2_read_inode hw req_addr fs ino buf s =
    Some (Inr (0, t\<lparr>ram := memcpy (ram t) buf (tmp t + x mod ext2_block_size fs t) 128\<rparr>))"
proof -
  have tb: "field32 (ram s) (bgd s + of_nat (sizeof ext2_block_group_descriptor) *
      ((ino - 1) div field32 (ram s) fs ext2_superblock ''inodes_per_block_group'')) ext2_block_group_descriptor ''inode_table''
      = group_table fs ino s" by (simp add: group_table_def field32_def)
  show ?thesis
    unfolding ext2_read_inode_def Let_def inode_size_def [symmetric] x [symmetric] tb r using nz by simp
qed

lemma block_size_kept:
  assumes "ram t = disk_bytes D o0 (tmp s) n (ram s)" "\<And>k. k < 1024 \<Longrightarrow> n \<le> unat (fs + k - tmp s)"
  shows "ext2_block_size fs t = ext2_block_size fs s"
proof -
  have "n \<le> unat (fs + 24 + k - tmp s)" if "k < 4" for k
  proof -
    have "24 + k < 1024" using that by unat_arith
    from assms(2) [OF this] show ?thesis by (simp only: add.assoc)
  qed
  then have "load32 (ram t) (fs + 24) = load32 (ram s) (fs + 24)" unfolding assms(1) by (rule load32_disk_bytes)
  then show ?thesis by (simp add: ext2_block_size_def field32_def)
qed

lemma copy_apart:
  fixes buf p k :: u32
  assumes "unat k + 128 \<le> n" "n \<le> unat (buf - p)"
  shows "128 \<le> unat (buf - (p + k))"
proof -
  have e: "buf - (p + k) = (buf - p) - k" by simp
  have "k \<le> buf - p" using assms by (simp add: word_le_nat_alt)
  then show ?thesis unfolding e using assms by (simp add: unat_sub)
qed

lemma ext2_read_inode_result:
  assumes disk: "ata_disk D (io_base (primary_master s)) hw" and r: "disk_ready cur s" "req_addr \<noteq> NULL"
    and ok: "inode_ok fs ino buf s"
    and fits: "unat (ext2_block_size fs s) * unat (group_table fs ino s) + inode_offset fs ino s < 2 ^ 37"
  shows "\<exists>s'. ext2_read_inode hw req_addr fs ino buf s = Some (Inr (0, s'))
    \<and> (\<forall>k<128. ram s' (buf + of_nat k) =
        D (unat (ext2_block_size fs s) * unat (group_table fs ino s) + inode_offset fs ino s + k))
    \<and> disk_ready cur s' \<and> same_kernel s s'
    \<and> (\<forall>a. unat (ext2_block_size fs s) \<le> unat (a - tmp s) \<longrightarrow> 128 \<le> unat (a - buf) \<longrightarrow> ram s' a = ram s a)"
proof -
  define bs where "bs = ext2_block_size fs s"
  define x where "x = (ino - 1) mod field32 (ram s) fs ext2_superblock ''inodes_per_block_group'' * inode_size (ram s) fs"
  define block where "block = group_table fs ino s + x div bs"
  have o: "valid_block_size bs" "field32 (ram s) fs ext2_superblock ''inodes_per_block_group'' \<noteq> 0"
    "128 \<le> unat (inode_size (ram s) fs)" "unat (inode_size (ram s) fs) dvd unat bs" "inode_offset fs ino s < 2 ^ 32"
    "tmp s \<noteq> NULL" "unat (tmp s) + unat bs \<le> 2 ^ 32" "unat bs \<le> unat (buf - tmp s)" "\<And>k. k < 1024 \<Longrightarrow> unat bs \<le> unat (fs + k - tmp s)"
    using ok by (simp_all add: inode_ok_def Let_def bs_def inode_offset_def)
  have bs0: "bs \<noteq> 0" "0 < unat bs" "1024 \<le> unat bs" using o(1) by (auto simp: valid_block_size_def)
  have x: "unat x = inode_offset fs ino s" using o(5) by (simp add: x_def inode_offset_def unat_word_ariths)
  have split: "unat bs * unat block + unat x mod unat bs = unat bs * unat (group_table fs ino s) + inode_offset fs ino s"
    and lim: "unat bs * unat block < 2 ^ 37"
    using inode_block [OF o(1), of "group_table fs ino s" x] fits [folded bs_def] x unfolding block_def by simp_all
  obtain s1 where s1: "ext2_read_block hw req_addr fs block (tmp s) s = Some (Inr (0, s1))" "same_kernel s s1"
    "ram s1 = disk_bytes D (unat bs * unat block) (tmp s) (unat bs) (ram s)" "disk_ready cur s1"
    using ext2_read_block_reads [OF disk r bs_def [symmetric] o(1) lim o(6,7)] by blast
  have t1: "tmp s1 = tmp s" using s1(2) by (cases s, cases s1) (simp add: same_kernel_def)
  have b1: "ext2_block_size fs s1 = bs" unfolding bs_def by (rule block_size_kept [OF s1(3) o(9)])
  have pos: "unat (x mod bs) = unat x mod unat bs" "unat x mod unat bs + 128 \<le> unat bs"
    using aligned_record_fits [OF o(4) bs0(2), of "unat ((ino - 1) mod field32 (ram s) fs ext2_superblock ''inodes_per_block_group'')"] o(3)
    by (simp_all add: unat_mod x inode_offset_def)
  let ?s = "s1\<lparr>ram := memcpy (ram s1) buf (tmp s + x mod bs) 128\<rparr>"
  have res: "ext2_read_inode hw req_addr fs ino buf s = Some (Inr (0, ?s))"
    using ext2_read_inode_eq [OF x_def o(2) _ s1(1) [unfolded block_def bs_def]] bs0(1) t1 b1 by (simp add: bs_def)
  have src: "128 \<le> unat (buf - (tmp s + x mod bs))" by (rule copy_apart) (use pos o(8) in simp_all)
  have "ram ?s (buf + of_nat k) = D (unat bs * unat (group_table fs ino s) + inode_offset fs ino s + k)" if k: "k < 128" for k
  proof -
    have "ram ?s (buf + of_nat k) = ram s1 (tmp s + of_nat (unat x mod unat bs + k))"
      using memcpy_bytes [OF src k] pos(1) [symmetric] by (simp add: add.assoc)
    also have "\<dots> = D (unat bs * unat block + (unat x mod unat bs + k))"
      unfolding s1(3) using pos(2) k o(7) by (intro disk_bytes_in) simp_all
    finally show ?thesis unfolding add.assoc [symmetric] split .
  qed
  moreover have "ram ?s a = ram s a" if "unat bs \<le> unat (a - tmp s)" "128 \<le> unat (a - buf)" for a
    using that s1(3) memcpy_eq [of buf "tmp s + x mod bs" 128] src by (simp add: disk_bytes_def in_range_def word_less_nat_alt word_le_nat_alt)
  moreover have "disk_ready cur ?s" "same_kernel s ?s" using s1(2,4) by (simp_all add: disk_ready_def same_kernel_def)
  ultimately show ?thesis using res by (auto simp: bs_def)
qed


text \<open>C12. \<open>ext2_read_inode\<close> on a drive: it returns 0, and the 128 bytes at its destination are the bytes of
  that inode on the disk, at its place in the inode table of its block group.\<close>

theorem ext2_read_inode_reads:
  assumes disk: "ata_disk D (io_base (primary_master s)) hw" and r: "disk_ready cur s" "req_addr \<noteq> NULL"
    and ok: "inode_ok fs ino buf s"
    and fits: "unat (ext2_block_size fs s) * unat (group_table fs ino s) + inode_offset fs ino s < 2 ^ 37"
  shows "\<exists>s'. ext2_read_inode hw req_addr fs ino buf s = Some (Inr (0, s'))
    \<and> (\<forall>k<128. ram s' (buf + of_nat k) =
        D (unat (ext2_block_size fs s) * unat (group_table fs ino s) + inode_offset fs ino s + k))"
  using ext2_read_inode_result [OF assms] by blast

section \<open>Listing a directory block\<close>

text \<open>A directory block of \<open>N\<close> bytes at \<open>p\<close> from offset \<open>i\<close> on: entries with their inode number and the zero-terminated
  text at their name, each inside the block, the last one ending with it.\<close>

fun dir_at :: "mem \<Rightarrow> u32 \<Rightarrow> nat \<Rightarrow> nat \<Rightarrow> (u32 \<times> u8 list) list \<Rightarrow> bool" where
  "dir_at m p N i [] \<longleftrightarrow> i = N"
| "dir_at m p N i ((ino, name) # es) \<longleftrightarrow>
     i + 8 + length name < N \<and> load32 m (p + of_nat i) = ino \<and> 0 \<notin> set name
     \<and> (\<forall>k<length name. m (p + of_nat (i + 8 + k)) = name ! k) \<and> m (p + of_nat (i + 8 + length name)) = 0
     \<and> 0 < unat (load16 m (p + of_nat i + 4)) \<and> dir_at m p N (i + unat (load16 m (p + of_nat i + 4))) es"

definition dir_line :: "u32 \<times> u8 list \<Rightarrow> u8 list" where
  "dir_line e = bytes '' * entry name='' @ [39] @ snd e @ [39] @ bytes '', inode='' @ snum (fst e) @ [10]"

lemma format_dir:
  "format (c_string (bytes '' * entry name='%s', inode=%d\<newline>'')) [VStr name, VWord ino] = Inr (dir_line (ino, c_string name))"
  by (simp add: bytes_def c_string_def spec_directive_def spec_word_def dir_line_def)

lemma c_string_no_zero: "0 \<notin> set name \<Longrightarrow> c_string name = name"
  unfolding c_string_def by (intro takeWhile_eq_all_conv [THEN iffD2]) auto

lemma c_string_at_name:
  assumes "0 \<notin> set name" "length name < 4294967296"
    and "\<And>k. k < length name \<Longrightarrow> m (p + of_nat k) = name ! k" "m (p + of_nat (length name)) = 0"
  shows "c_string_at m p = Some name"
proof -
  have n: "unat (of_nat (length name) :: u32) = length name" using assms(2) by (rule of_nat_less_u32)
  have "strlen m p = Some (of_nat (length name))"
  proof (rule strlen_Some)
    fix k :: u32 assume "k < of_nat (length name)"
    then have k: "unat k < length name" using n by (simp add: word_less_nat_alt)
    have "m (p + of_nat (unat k)) = name ! unat k" by (rule assms(3) [OF k])
    with assms(1) nth_mem [OF k] show "m (p + k) \<noteq> 0" by auto
  qed (use assms(4) in simp)
  moreover have "map (\<lambda>i. m (p + of_nat i)) [0..<length name] = name" using assms(3) by (intro nth_equalityI) auto
  ultimately show ?thesis using n by (simp add: c_string_at_def)
qed

lemma block_load:
  assumes "\<forall>k<N. m' (p' + of_nat k) = m (p + of_nat k)"
  shows "i + 4 \<le> N \<Longrightarrow> load32 m' (p' + of_nat i) = load32 m (p + of_nat i)"
    and "i + 6 \<le> N \<Longrightarrow> load16 m' (p' + of_nat i + 4) = load16 m (p + of_nat i + 4)"
proof -
  have e: "m' (p' + of_nat i + of_nat k) = m (p + of_nat i + of_nat k)" if "i + k < N" for k
    using assms that by (metis add.assoc of_nat_add)
  show "load32 m' (p' + of_nat i) = load32 m (p + of_nat i)" if "i + 4 \<le> N"
    using e [of 0] e [of 1] e [of 2] e [of 3] that by (simp add: load32_def)
  show "load16 m' (p' + of_nat i + 4) = load16 m (p + of_nat i + 4)" if "i + 6 \<le> N"
    using e [of 4] e [of 5] that by (simp add: load16_def add.assoc)
qed

lemma dir_at_cong:
  assumes "\<forall>k<N. m' (p' + of_nat k) = m (p + of_nat k)"
  shows "dir_at m p N i es \<Longrightarrow> dir_at m' p' N i es"
proof (induction es arbitrary: i)
  case (Cons e es)
  obtain ino name where e: "e = (ino, name)" by (cases e)
  have "i + 8 + length name < N" using Cons.prems e by simp
  then have "m' (p' + of_nat (i + 8 + k)) = m (p + of_nat (i + 8 + k))" if "k \<le> length name" for k
    using assms that by (metis add_le_cancel_left le_less_trans)
  with Cons block_load [OF assms, of i] \<open>i + 8 + length name < N\<close> show ?case by (simp add: e del: of_nat_add)
qed simp

lemma dir_entry_prints:
  assumes inv: "terminal_inv s" and d: "dir_at (ram s) p N i ((ino, name) # es)" and p: "unat p + N < 2 ^ 32"
    and off: "\<forall>k<N. \<not> in_range (terminal_buffer s) 4000 (p + of_nat k)"
  shows "dir_loop (p + of_nat i) (p + of_nat N) s =
    dir_loop (p + of_nat (i + unat (load16 (ram s) (p + of_nat i + 4)))) (p + of_nat N) (terminal_write (dir_line (ino, name)) 7 s)"
proof -
  have i: "i + 8 + length name < N" "0 \<notin> set name" "load32 (ram s) (p + of_nat i) = ino" using d by simp_all
  have lt: "p + of_nat i < p + of_nat N"
  proof -
    have "unat (p + of_nat j) = unat p + j" if "j \<le> N" for j
      using p that by (subst unat_add_lt) (simp_all add: of_nat_less_u32)
    from this [of i] this [of N] i(1) show ?thesis by (simp add: word_less_nat_alt)
  qed
  have nm: "c_string_at (ram s) (p + of_nat i + 8) = Some name"
  proof (rule c_string_at_name)
    show "length name < 4294967296" using i(1) p by simp
    show "ram s (p + of_nat i + 8 + of_nat k) = name ! k" if "k < length name" for k
      using d that by (simp add: add.assoc)
    show "ram s (p + of_nat i + 8 + of_nat (length name)) = 0" using d by (simp add: add.assoc)
  qed (rule i(2))
  let ?s = "terminal_write (dir_line (ino, name)) 7 s"
  have ram: "\<forall>k<N. ram ?s (p + of_nat k) = ram s (p + of_nat k)" using inv off by (simp add: terminal_write_outside)
  have "load16 (ram ?s) (p + of_nat i + 4) = load16 (ram s) (p + of_nat i + 4)"
    using block_load(2) [OF ram, of i] i(1) by simp
  with lt nm i(3) show ?thesis
    by (subst dir_loop.simps) (simp add: format_dir c_string_no_zero [OF i(2)] field32_def field16_def printk_def vprintk_eq tty.emit_def add.assoc)
qed

text \<open>On a well-formed directory block that is not in video memory, the loop of \<open>ext2_init\<close> ends and
  prints one line for each entry, in order, with the text up to the zero byte at its name and its
  inode number.\<close>

lemma dir_loop_lists:
  assumes "terminal_inv s" "dir_at (ram s) p N i es" "unat p + N < 2 ^ 32"
    and "\<forall>k<N. \<not> in_range (terminal_buffer s) 4000 (p + of_nat k)"
  shows "dir_loop (p + of_nat i) (p + of_nat N) s = Some (Inr (terminal_write (concat (map dir_line es)) 7 s))"
  using assms
proof (induction es arbitrary: i s)
  case Nil
  then show ?case by (subst dir_loop.simps) simp
next
  case (Cons e es)
  obtain ino name where e: "e = (ino, name)" by (cases e)
  let ?s = "terminal_write (dir_line e) 7 s" and ?i = "i + unat (load16 (ram s) (p + of_nat i + 4))"
  have ram: "\<forall>k<N. ram ?s (p + of_nat k) = ram s (p + of_nat k)"
    using Cons.prems(1,4) by (simp add: terminal_write_outside)
  have "dir_at (ram s) p N ?i es" using Cons.prems(2) e by simp
  from dir_at_cong [OF ram this] have "dir_at (ram ?s) p N ?i es" .
  with Cons.IH [of ?s ?i] Cons.prems terminal_write_inv [OF Cons.prems(1)]
  have "dir_loop (p + of_nat ?i) (p + of_nat N) ?s = Some (Inr (terminal_write (concat (map dir_line es)) 7 ?s))"
    by (simp add: terminal_write_buffer del: of_nat_add)
  with dir_entry_prints [of s p N i ino name es] Cons.prems e show ?case by simp
qed

text \<open>An entry of record length zero keeps the loop in place: it does not return.\<close>

definition stuck_entry :: "u32 \<Rightarrow> u32 \<Rightarrow> 'a ext2_scheme \<Rightarrow> bool" where
  "stuck_entry head stop s \<longleftrightarrow> terminal_inv s \<and> head < stop \<and> load16 (ram s) (head + 4) = 0
     \<and> (\<forall>k<2. \<not> in_range (terminal_buffer s) 4000 (head + 4 + k))"

lemma stuck_entry_write: "stuck_entry head stop s \<Longrightarrow> stuck_entry head stop (terminal_write data 7 s)"
proof -
  assume s: "stuck_entry head stop s"
  then have "load16 (ram (terminal_write data 7 s)) (head + 4) = load16 (ram s) (head + 4)"
    by (intro load16_cong) (simp add: stuck_entry_def terminal_write_outside)
  with s show ?thesis by (simp add: stuck_entry_def terminal_write_inv terminal_write_buffer)
qed

lemma dir_loop_stuck: "stuck_entry head stop s \<Longrightarrow> dir_loop head stop s = None"
proof -
  have "dir_loop head stop s = Some r \<Longrightarrow> \<not> stuck_entry head stop s" for r
  proof (erule dir_loop.raw_induct [where P = "\<lambda>head stop s r. \<not> stuck_entry head stop s", rotated], rule notI)
    fix f head stop r and s :: "'a ext2_scheme"
    assume IH: "\<And>head stop (s :: 'a ext2_scheme) r. f head stop s = Some r \<Longrightarrow> \<not> stuck_entry head stop s"
      and eq: "(if head < stop then
        case c_string_at (ram s) (head + of_nat (offset_of ''name'' ext2_dir_entry_head)) of None \<Rightarrow> None
        | Some name \<Rightarrow>
            (case printk '' * entry name='%s', inode=%d\<newline>'' [VStr name, VWord (field32 (ram s) head ext2_dir_entry_head ''inode'')] s of
               Inl e \<Rightarrow> Some (Inl e)
             | Inr s \<Rightarrow> f (head + ucast (field16 (ram s) head ext2_dir_entry_head ''rec_len'')) stop s)
      else Some (Inr s)) = Some r" and st: "stuck_entry head stop s"
    have "head < stop" using st by (simp add: stuck_entry_def)
    with eq obtain name where "c_string_at (ram s) (head + 8) = Some name" by (auto split: option.splits)
    let ?s = "terminal_write (dir_line (field32 (ram s) head ext2_dir_entry_head ''inode'', c_string name)) 7 s"
    have st': "stuck_entry head stop ?s" by (rule stuck_entry_write [OF st])
    have "f (head + ucast (field16 (ram ?s) head ext2_dir_entry_head ''rec_len'')) stop ?s = Some r"
      using eq \<open>head < stop\<close> \<open>c_string_at (ram s) (head + 8) = Some name\<close>
      by (simp add: printk_def vprintk_eq format_dir tty.emit_def)
    moreover have "field16 (ram ?s) head ext2_dir_entry_head ''rec_len'' = 0" using st' by (simp add: stuck_entry_def field16_def)
    ultimately show False using IH st' by simp
  qed
  then show "stuck_entry head stop s \<Longrightarrow> dir_loop head stop s = None" by (cases "dir_loop head stop s") auto
qed

section \<open>A concrete file system\<close>

definition fs_ram :: "u32 \<Rightarrow> mem" where
  "fs_ram lg = store32 (store32 (store32 (\<lambda>_. 0) 0xc0200018 lg) 0xc0200028 32) 0xc0300008 5"

definition ext20 :: "u32 \<Rightarrow> ext2" where
  "ext20 lg = ata.extend (ata0\<lparr>current := Some 0, ram := fs_ram lg\<rparr>) \<lparr>bgd = 0xc0300000, tmp = 0xc0301000\<rparr>"

lemma ext20_simps [simp]:
  "bgd (ext20 lg) = 0xc0300000" "tmp (ext20 lg) = 0xc0301000" "ram (ext20 lg) = fs_ram lg"
  "primary_master (ext20 lg) = \<lparr>io_base = 0x1f0, io_ctrl_base = 0x3f6\<rparr>"
  by (simp_all add: ext20_def ata.defs)

lemma ext20_ready: "disk_ready 0 (ext20 lg)"
  using ata0_gdt by (simp add: disk_ready_def ext20_def ata.defs)

lemma fs_ram_loads [simp]:
  "load32 (fs_ram lg) 0xc0200018 = lg" "load32 (fs_ram lg) 0xc0200028 = 32" "load32 (fs_ram lg) 0xc0300008 = 5"
  "load32 (fs_ram lg) 0xc020004c = 0"
  by (simp_all add: fs_ram_def mem_simps)

lemma ext20_block_size: "ext2_block_size 0xc0200000 (ext20 0) = 1024" "ext2_block_size 0xc0200000 (ext20 1) = 2048"
  by (simp_all add: ext2_block_size_def field32_def shl_def)

lemma ext20_inode_ok: "inode_ok 0xc0200000 2 0xc0400000 (ext20 1)"
proof -
  have "2048 \<le> unat (0xc0200000 + k - 0xc0301000 :: u32)" if "k < 1024" for k
    using that by unat_arith auto
  then show ?thesis
    by (simp add: inode_ok_def ext20_block_size inode_size_def field32_def valid_block_size_def Let_def)
qed

theorem ext2_read_inode_reads_witness:
  "\<exists>s'. ext2_read_inode (disk_hw of_nat 0x1f0) 0x1000 0xc0200000 2 0xc0400000 (ext20 1) = Some (Inr (0, s'))
     \<and> ram s' 0xc0400003 = of_nat (2048 * 5 + 128 + 3)"
proof -
  have g: "group_table 0xc0200000 2 (ext20 1) = 5" "inode_offset 0xc0200000 2 (ext20 1) = 128"
    by (simp_all add: group_table_def inode_offset_def inode_size_def field32_def)
  obtain s' where s': "ext2_read_inode (disk_hw of_nat 0x1f0) 0x1000 0xc0200000 2 0xc0400000 (ext20 1) = Some (Inr (0, s'))"
    "\<forall>k<128. ram s' (0xc0400000 + of_nat k) = of_nat (2048 * 5 + 128 + k)"
    using ext2_read_inode_reads [where D = of_nat and s = "ext20 1" and hw = "disk_hw of_nat 0x1f0" and cur = 0 and req_addr = "0x1000"
        and fs = "0xc0200000" and ino = 2 and buf = "0xc0400000"] disk_hw_disk ext20_ready ext20_inode_ok g ext20_block_size
    by auto
  moreover have "ram s' (0xc0400000 + of_nat 3) = of_nat (2048 * 5 + 128 + 3)" by (rule s'(2) [rule_format]) simp
  ultimately show ?thesis by auto
qed

end
