(* ===== verification/Multiboot.thy ===== *)
theory Multiboot
  imports Layout
begin

text \<open>
  The boot protocol: \<^verbatim>\<open>src/multiboot.h\<close>. Its structures are layouts; the constants are those of the header that the
  kernel presents to the boot loader and the flags by which the boot loader says which fields of the
  information it has filled in. The types of memory map entries and of frame buffers are left out.
\<close>

section \<open>The header of the kernel\<close>

definition MULTIBOOT_HEADER_MAGIC :: u32 where "MULTIBOOT_HEADER_MAGIC = 0x1BADB002"
definition MULTIBOOT_PAGE_ALIGN :: u32 where "MULTIBOOT_PAGE_ALIGN = 0x00000001"
definition MULTIBOOT_MEMORY_INFO :: u32 where "MULTIBOOT_MEMORY_INFO = 0x00000002"
definition MULTIBOOT_VIDEO_MODE :: u32 where "MULTIBOOT_VIDEO_MODE = 0x00000004"
definition MULTIBOOT_AOUT_KLUDGE :: u32 where "MULTIBOOT_AOUT_KLUDGE = 0x00010000"

definition multiboot_header :: layout where
  "multiboot_header =
     [(''magic'', 4), (''flags'', 4), (''checksum'', 4), (''header_addr'', 4), (''load_addr'', 4), (''load_end_addr'', 4),
      (''bss_end_addr'', 4), (''entry_addr'', 4), (''mode_type'', 4), (''width'', 4), (''height'', 4), (''depth'', 4)]"

section \<open>The information of the boot loader\<close>

definition MULTIBOOT_INFO_MEMORY :: u32 where "MULTIBOOT_INFO_MEMORY = 0x00000001"
definition MULTIBOOT_INFO_BOOTDEV :: u32 where "MULTIBOOT_INFO_BOOTDEV = 0x00000002"
definition MULTIBOOT_INFO_CMDLINE :: u32 where "MULTIBOOT_INFO_CMDLINE = 0x00000004"
definition MULTIBOOT_INFO_MODS :: u32 where "MULTIBOOT_INFO_MODS = 0x00000008"
definition MULTIBOOT_INFO_AOUT_SYMS :: u32 where "MULTIBOOT_INFO_AOUT_SYMS = 0x00000010"
definition MULTIBOOT_INFO_ELF_SHDR :: u32 where "MULTIBOOT_INFO_ELF_SHDR = 0x00000020"
definition MULTIBOOT_INFO_MEM_MAP :: u32 where "MULTIBOOT_INFO_MEM_MAP = 0x00000040"
definition MULTIBOOT_INFO_DRIVE_INFO :: u32 where "MULTIBOOT_INFO_DRIVE_INFO = 0x00000080"
definition MULTIBOOT_INFO_CONFIG_TABLE :: u32 where "MULTIBOOT_INFO_CONFIG_TABLE = 0x00000100"
definition MULTIBOOT_INFO_BOOT_LOADER_NAME :: u32 where "MULTIBOOT_INFO_BOOT_LOADER_NAME = 0x00000200"
definition MULTIBOOT_INFO_APM_TABLE :: u32 where "MULTIBOOT_INFO_APM_TABLE = 0x00000400"
definition MULTIBOOT_INFO_VBE_INFO :: u32 where "MULTIBOOT_INFO_VBE_INFO = 0x00000800"
definition MULTIBOOT_INFO_FRAMEBUFFER_INFO :: u32 where "MULTIBOOT_INFO_FRAMEBUFFER_INFO = 0x00001000"

definition multiboot_aout_symbol_table :: layout where
  "multiboot_aout_symbol_table = [(''tabsize'', 4), (''strsize'', 4), (''addr'', 4), (''reserved'', 4)]"

definition multiboot_elf_section_header_table :: layout where
  "multiboot_elf_section_header_table = [(''num'', 4), (''size'', 4), (''addr'', 4), (''shndx'', 4)]"

text \<open>The two structures of the anonymous union at the end of \<^verbatim>\<open>struct multiboot_info\<close>, which starts at a multiple of 4;
  the bytes that the compiler leaves free are fields \<^verbatim>\<open>pad\<close>.\<close>

definition framebuffer_palette :: layout where
  "framebuffer_palette = [(''framebuffer_palette_addr'', 4), (''framebuffer_palette_num_colors'', 2), (''pad'', 2)]"

definition framebuffer_rgb :: layout where
  "framebuffer_rgb =
     [(''framebuffer_red_field_position'', 1), (''framebuffer_red_mask_size'', 1), (''framebuffer_green_field_position'', 1),
      (''framebuffer_green_mask_size'', 1), (''framebuffer_blue_field_position'', 1), (''framebuffer_blue_mask_size'', 1)]"

definition multiboot_info :: layout where
  "multiboot_info =
     [(''flags'', 4), (''mem_lower'', 4), (''mem_upper'', 4), (''boot_device'', 4), (''cmdline'', 4), (''mods_count'', 4),
      (''mods_addr'', 4), (''u'', max (sizeof multiboot_aout_symbol_table) (sizeof multiboot_elf_section_header_table)),
      (''mmap_length'', 4), (''mmap_addr'', 4), (''drives_length'', 4), (''drives_addr'', 4),
      (''config_table'', 4), (''boot_loader_name'', 4), (''apm_table'', 4), (''vbe_control_info'', 4), (''vbe_mode_info'', 4),
      (''vbe_mode'', 2), (''vbe_interface_seg'', 2), (''vbe_interface_off'', 2), (''vbe_interface_len'', 2),
      (''framebuffer_addr'', 8), (''framebuffer_pitch'', 4), (''framebuffer_width'', 4), (''framebuffer_height'', 4),
      (''framebuffer_bpp'', 1), (''framebuffer_type'', 1), (''pad'', 2), (''framebuffer'', max (sizeof framebuffer_palette) (sizeof framebuffer_rgb))]"

definition multiboot_mmap_entry :: layout where
  "multiboot_mmap_entry =
     [(''size'', 4), (''addr_low'', 4), (''addr_high'', 4), (''len_low'', 4), (''len_high'', 4), (''type'', 4)]"

definition multiboot_mod_list :: layout where
  "multiboot_mod_list = [(''mod_start'', 4), (''mod_end'', 4), (''cmdline'', 4), (''pad'', 4)]"

definition multiboot_color :: layout where
  "multiboot_color = [(''red'', 1), (''green'', 1), (''blue'', 1)]"

definition multiboot_apm_info :: layout where
  "multiboot_apm_info =
     [(''version'', 2), (''cseg'', 2), (''offset'', 4), (''cseg_16'', 2), (''dseg'', 2), (''flags'', 2), (''cseg_len'', 2),
      (''cseg_16_len'', 2), (''dseg_len'', 2)]"

lemmas multiboot_consts =
  MULTIBOOT_HEADER_MAGIC_def MULTIBOOT_PAGE_ALIGN_def MULTIBOOT_MEMORY_INFO_def MULTIBOOT_VIDEO_MODE_def MULTIBOOT_AOUT_KLUDGE_def
  MULTIBOOT_INFO_MEMORY_def MULTIBOOT_INFO_BOOTDEV_def MULTIBOOT_INFO_CMDLINE_def MULTIBOOT_INFO_MODS_def
  MULTIBOOT_INFO_AOUT_SYMS_def MULTIBOOT_INFO_ELF_SHDR_def MULTIBOOT_INFO_MEM_MAP_def MULTIBOOT_INFO_DRIVE_INFO_def
  MULTIBOOT_INFO_CONFIG_TABLE_def MULTIBOOT_INFO_BOOT_LOADER_NAME_def MULTIBOOT_INFO_APM_TABLE_def MULTIBOOT_INFO_VBE_INFO_def
  MULTIBOOT_INFO_FRAMEBUFFER_INFO_def

text \<open>Every flag is a bit of its own, and the bits are the first 13. A module entry has the 16 bytes that its padding is for.\<close>

lemma info_flags:
  "[MULTIBOOT_INFO_MEMORY, MULTIBOOT_INFO_BOOTDEV, MULTIBOOT_INFO_CMDLINE, MULTIBOOT_INFO_MODS, MULTIBOOT_INFO_AOUT_SYMS,
    MULTIBOOT_INFO_ELF_SHDR, MULTIBOOT_INFO_MEM_MAP, MULTIBOOT_INFO_DRIVE_INFO, MULTIBOOT_INFO_CONFIG_TABLE,
    MULTIBOOT_INFO_BOOT_LOADER_NAME, MULTIBOOT_INFO_APM_TABLE, MULTIBOOT_INFO_VBE_INFO, MULTIBOOT_INFO_FRAMEBUFFER_INFO]
   = map (\<lambda>i. push_bit i 1) [0..<13]"
  by (simp add: multiboot_consts upt_conv_Cons)

lemma multiboot_sizes:
  "sizeof multiboot_mod_list = 16" "sizeof multiboot_mmap_entry = 24" "sizeof multiboot_header = 48"
  by (simp_all add: multiboot_mod_list_def multiboot_mmap_entry_def multiboot_header_def sizeof_def)

end
