(* ===== verification/Memory_Map.thy ===== *)
theory Memory_Map
  imports Multiboot Printk
begin

text \<open>
  The memory map that the boot loader passes: \<^verbatim>\<open>src/memory_map.c\<close>, on the structures of \<open>Multiboot\<close>. The loop over the entries is a partial function, since its
  end pointer is computed modulo \<open>2 ^ 32\<close>.
\<close>

definition MBI_FLAG_MEM :: u32 where "MBI_FLAG_MEM = push_bit 0 1"
definition MBI_FLAG_MMAP :: u32 where "MBI_FLAG_MMAP = push_bit 6 1"

text \<open>The bits that the kernel tests are those of the protocol.\<close>

lemma MBI_FLAGs: "MBI_FLAG_MEM = MULTIBOOT_INFO_MEMORY" "MBI_FLAG_MMAP = MULTIBOOT_INFO_MEM_MAP"
  by (simp_all add: MBI_FLAG_MEM_def MBI_FLAG_MMAP_def multiboot_consts)

partial_function (option) mmap_loop :: "u32 \<Rightarrow> u32 \<Rightarrow> 'a console_scheme \<Rightarrow> 'a console_scheme result option" where
  "mmap_loop entry_ptr stop s =
     (if entry_ptr < stop then
        let e = field32 (ram s) entry_ptr multiboot_mmap_entry
        in case printk ''[MME] base_addr = %x %x, len = %x %x, type = %x\<newline>''
                  [VWord (e ''addr_high''), VWord (e ''addr_low''), VWord (e ''len_high''), VWord (e ''len_low''), VWord (e ''type'')] s of
             Inl f \<Rightarrow> Some (Inl f)
           | Inr s \<Rightarrow> mmap_loop (entry_ptr + of_nat (sizeof multiboot_mmap_entry)) stop s
      else Some (Inr s))"

definition print_mmap :: "u32 \<Rightarrow> 'a console_scheme \<Rightarrow> 'a console_scheme result option" where
  "print_mmap mbd s =
     (let mbd = phys2virt mbd
      in bindk (Some (printk ''Memory map from multiboot info\<newline>'' [] s)) (\<lambda>s.
         bindk (if 0 < field32 (ram s) mbd multiboot_info ''flags'' AND MBI_FLAG_MEM
                then Some (printk ''mem_lower = %x, mem_upper = %x\<newline>''
                       [VWord (field32 (ram s) mbd multiboot_info ''mem_lower''),
                        VWord (field32 (ram s) mbd multiboot_info ''mem_upper'')] s)
                else Some (Inr s)) (\<lambda>s.
         if 0 < field32 (ram s) mbd multiboot_info ''flags'' AND MBI_FLAG_MMAP then
           let len = field32 (ram s) mbd multiboot_info ''mmap_length'';
               mmap_addr = phys2virt (field32 (ram s) mbd multiboot_info ''mmap_addr'')
           in mmap_loop mmap_addr (mmap_addr + len) s
         else Some (Inr s))))"

lemma mmap_offsets [simp]:
  "offset_of ''flags'' multiboot_info = 0" "offset_of ''mem_lower'' multiboot_info = 4" "offset_of ''mem_upper'' multiboot_info = 8"
  "offset_of ''mmap_length'' multiboot_info = 44" "offset_of ''mmap_addr'' multiboot_info = 48"
  "sizeof multiboot_mmap_entry = 24" "offset_of ''addr_low'' multiboot_mmap_entry = 4"
  "offset_of ''addr_high'' multiboot_mmap_entry = 8" "offset_of ''len_low'' multiboot_mmap_entry = 12"
  "offset_of ''len_high'' multiboot_mmap_entry = 16" "offset_of ''type'' multiboot_mmap_entry = 20"
  by code_simp+

section \<open>What is printed\<close>

text \<open>The line for the 24 bytes at an address.\<close>

definition mmap_line :: "mem \<Rightarrow> u32 \<Rightarrow> u8 list" where
  "mmap_line m a =
     (let hex = \<lambda>k. num 16 (unat (load32 m (a + k)))
      in bytes ''[MME] base_addr = '' @ hex 8 @ [32] @ hex 4 @ bytes '', len = '' @ hex 16 @ [32] @ hex 12
         @ bytes '', type = '' @ hex 20 @ [10])"

definition mmap_lines :: "mem \<Rightarrow> u32 \<Rightarrow> nat \<Rightarrow> u8 list" where
  "mmap_lines m a n = concat (map (\<lambda>i. mmap_line m (a + 24 * of_nat i)) [0..<n])"

lemma format_mmap:
  "format (c_string (bytes ''[MME] base_addr = %x %x, len = %x %x, type = %x\<newline>'')) [VWord a, VWord b, VWord c, VWord d, VWord e] =
    Inr (bytes ''[MME] base_addr = '' @ num 16 (unat a) @ [32] @ num 16 (unat b) @ bytes '', len = '' @ num 16 (unat c) @ [32]
      @ num 16 (unat d) @ bytes '', type = '' @ num 16 (unat e) @ [10])"
  by (simp add: bytes_def c_string_def spec_directive_def spec_word_def)

lemma mmap_line_cong:
  assumes "\<And>k. k < 24 \<Longrightarrow> m' (a + k) = m (a + k)"
  shows "mmap_line m' a = mmap_line m a"
proof -
  have "load32 m' (a + j) = load32 m (a + j)" if "j \<le> 20" for j
  proof (rule load32_cong)
    fix k :: u32 assume "k < 4"
    with that have "j + k < 24" by unat_arith
    from assms [OF this] show "m' (a + j + k) = m (a + j + k)" by (simp add: add.assoc)
  qed
  then show ?thesis by (simp add: mmap_line_def)
qed

lemma mmap_lines_Suc: "mmap_lines m a (Suc n) = mmap_line m a @ mmap_lines m (a + 24) n"
proof -
  have "[0..<Suc n] = 0 # map Suc [0..<n]" by (simp add: upt_conv_Cons map_Suc_upt del: upt_Suc)
  then show ?thesis by (simp only: mmap_lines_def list.map concat.simps map_map comp_def) (simp add: algebra_simps)
qed

lemma mmap_lines_cong:
  assumes "\<And>k. k < 24 * n \<Longrightarrow> m' (a + of_nat k) = m (a + of_nat k)"
  shows "mmap_lines m' a n = mmap_lines m a n"
proof -
  have "mmap_line m' (a + 24 * of_nat i) = mmap_line m (a + 24 * of_nat i)" if "i < n" for i
  proof (rule mmap_line_cong)
    fix k :: u32 assume "k < 24"
    then have "24 * i + unat k < 24 * n" using that by (simp add: word_less_nat_alt)
    from assms [OF this] show "m' (a + 24 * of_nat i + k) = m (a + 24 * of_nat i + k)" by (simp add: add.assoc)
  qed
  then show ?thesis unfolding mmap_lines_def by (intro arg_cong [where f = concat] map_cong) auto
qed

text \<open>The address range \<open>[a, a + n)\<close> is not in video memory.\<close>

definition off_screen :: "u32 \<Rightarrow> nat \<Rightarrow> 'a console_scheme \<Rightarrow> bool" where
  "off_screen a n s \<longleftrightarrow> (\<forall>k<n. \<not> in_range (terminal_buffer s) 4000 (a + of_nat k))"

lemma off_screen_write:
  "terminal_inv s \<Longrightarrow> off_screen a n s \<Longrightarrow> k < n \<Longrightarrow> ram (terminal_write out 7 s) (a + of_nat k) = ram s (a + of_nat k)"
  by (simp add: off_screen_def terminal_write_outside)

lemma entries_step:
  assumes "L \<noteq> 0"
  shows "(L + 23) div 24 = Suc ((L - 24 + 23) div 24)"
proof (cases "L \<le> 24")
  case True
  then have "(L + 23) div 24 = 1" using assms by (intro div_nat_eqI) simp_all
  then show ?thesis using True by simp
next
  case False
  then have "L + 23 = 24 + (L - 24 + 23)" by simp
  then show ?thesis by (metis div_add_self1 Suc_eq_plus1 zero_neq_numeral)
qed

lemma off_screen_tail:
  assumes "off_screen a (k + n) s" "terminal_inv s"
  shows "off_screen (a + of_nat k) n (terminal_write out 7 s)"
  unfolding off_screen_def terminal_write_buffer [OF assms(2)]
proof (intro allI impI)
  fix j assume "j < n"
  then have "\<not> in_range (terminal_buffer s) 4000 (a + of_nat (k + j))" using assms(1) by (simp only: off_screen_def) simp
  then show "\<not> in_range (terminal_buffer s) 4000 (a + of_nat k + of_nat j)" by (simp add: add.assoc)
qed

lemma mmap_loop_lines:
  assumes "terminal_inv s" "unat a + L + 24 < 2 ^ 32" "off_screen a (24 * ((L + 23) div 24)) s"
  shows "mmap_loop a (a + of_nat L) s = Some (Inr (terminal_write (mmap_lines (ram s) a ((L + 23) div 24)) 7 s))"
  using assms
proof (induction L arbitrary: a s rule: less_induct)
  case (less L)
  have ua: "unat (a + of_nat j) = unat a + j" if "j \<le> L + 24" for j
    using less.prems(2) that by (subst unat_add_lt) (simp_all add: of_nat_less_u32)
  show ?case
  proof (cases "L = 0")
    case True
    then show ?thesis by (subst mmap_loop.simps) (simp add: mmap_lines_def)
  next
    case False
    define n where "n = (L - 24 + 23) div 24"
    have n: "(L + 23) div 24 = Suc n" unfolding n_def using False by (rule entries_step)
    let ?s = "terminal_write (mmap_line (ram s) a) 7 s"
    have inv: "terminal_inv ?s" by (rule terminal_write_inv [OF less.prems(1)])
    have lt: "a < a + of_nat L" using ua [of L] False by (simp add: word_less_nat_alt)
    then have st: "mmap_loop a (a + of_nat L) s = mmap_loop (a + 24) (a + of_nat L) ?s"
      by (subst mmap_loop.simps) (simp add: printk_def vprintk_eq format_mmap tty.emit_def mmap_line_def field32_def Let_def)
    have lines: "mmap_lines (ram ?s) (a + 24) n = mmap_lines (ram s) (a + 24) n"
    proof (rule mmap_lines_cong)
      fix k assume "k < 24 * n"
      then have "24 + k < 24 * ((L + 23) div 24)" by (simp add: n)
      from off_screen_write [OF less.prems(1,3) this]
      show "ram ?s (a + 24 + of_nat k) = ram s (a + 24 + of_nat k)" by (simp add: add.assoc)
    qed
    have "mmap_loop (a + 24) (a + of_nat L) ?s = Some (Inr (terminal_write (mmap_lines (ram ?s) (a + 24) n) 7 ?s))"
    proof (cases "L \<le> 24")
      case True
      then have "n = 0" "\<not> a + 24 < a + of_nat L" using ua [of 24] ua [of L] by (auto simp: n_def word_less_nat_alt)
      then show ?thesis by (subst mmap_loop.simps) (simp add: mmap_lines_def)
    next
      case False
      then have e: "a + of_nat L = a + 24 + of_nat (L - 24)" by (simp add: of_nat_diff)
      have "off_screen (a + 24) (24 * n) ?s"
        using off_screen_tail [of a 24 "24 * n" s] less.prems(1,3) by (simp add: n)
      then show ?thesis
        unfolding e n_def using False less.prems(2) ua [of 24] inv by (intro less.IH) (simp_all add: n_def)
    qed
    then show ?thesis unfolding st n lines mmap_lines_Suc by simp
  qed
qed

definition mmap_header :: "u8 list" where
  "mmap_header = bytes ''Memory map from multiboot info\<newline>''"

definition mem_line :: "mem \<Rightarrow> u32 \<Rightarrow> u8 list" where
  "mem_line m p = bytes ''mem_lower = '' @ num 16 (unat (load32 m (p + 4))) @ bytes '', mem_upper = ''
     @ num 16 (unat (load32 m (p + 8))) @ [10]"

lemma format_mem:
  "format (c_string (bytes ''Memory map from multiboot info\<newline>'')) [] = Inr mmap_header"
  "format (c_string (bytes ''mem_lower = %x, mem_upper = %x\<newline>'')) [VWord a, VWord b] =
    Inr (bytes ''mem_lower = '' @ num 16 (unat a) @ bytes '', mem_upper = '' @ num 16 (unat b) @ [10])"
  by (simp_all add: mmap_header_def bytes_def c_string_def spec_directive_def spec_word_def)

lemma off_screen_load:
  assumes "terminal_inv s" "off_screen p n s" "k + 4 \<le> n"
  shows "load32 (ram (terminal_write out 7 s)) (p + of_nat k) = load32 (ram s) (p + of_nat k)"
proof -
  have "ram (terminal_write out 7 s) (p + of_nat k + of_nat j) = ram s (p + of_nat k + of_nat j)" if "j < 4" for j
    using off_screen_write [OF assms(1,2), of "k + j"] assms(3) that by (simp add: add.assoc)
  from this [of 0] this [of 1] this [of 2] this [of 3] show ?thesis by (simp add: load32_def)
qed

lemma print_mmap_output:
  assumes inv: "terminal_inv s" and p: "phys2virt mbd = p" "off_screen p 52 s"
    and a: "phys2virt (load32 (ram s) (p + 48)) = a" "unat (load32 (ram s) (p + 44)) = L"
    and map: "unat a + L + 24 < 2 ^ 32" "off_screen a (24 * ((L + 23) div 24)) s"
  shows "print_mmap mbd s = Some (Inr (terminal_write (mmap_header
      @ (if 0 < load32 (ram s) p AND 1 then mem_line (ram s) p else [])
      @ (if 0 < load32 (ram s) p AND 64 then mmap_lines (ram s) a ((L + 23) div 24) else [])) 7 s))"
proof -
  note keep = off_screen_load [OF inv p(2)]
  have f: "load32 (ram (terminal_write out 7 s)) p = load32 (ram s) p"
    "load32 (ram (terminal_write out 7 s)) (p + 4) = load32 (ram s) (p + 4)"
    "load32 (ram (terminal_write out 7 s)) (p + 8) = load32 (ram s) (p + 8)"
    "load32 (ram (terminal_write out 7 s)) (p + 44) = load32 (ram s) (p + 44)"
    "load32 (ram (terminal_write out 7 s)) (p + 48) = load32 (ram s) (p + 48)" for out
    using keep [of 0 out] keep [of 4 out] keep [of 8 out] keep [of 44 out] keep [of 48 out] by simp_all
  have lines: "mmap_loop a (a + load32 (ram s) (p + 44)) (terminal_write out 7 s) =
      Some (Inr (terminal_write (out @ mmap_lines (ram s) a ((L + 23) div 24)) 7 s))" for out
  proof -
    have "off_screen a (24 * ((L + 23) div 24)) (terminal_write out 7 s)"
      using map(2) inv by (simp add: off_screen_def terminal_write_buffer)
    from mmap_loop_lines [OF terminal_write_inv [OF inv] map(1) this]
      mmap_lines_cong [of "(L + 23) div 24" "ram (terminal_write out 7 s)" a "ram s"] off_screen_write [OF inv map(2)] a(2)
    show ?thesis by auto
  qed
  have flg: "MBI_FLAG_MEM = 1" "MBI_FLAG_MMAP = 64" by (simp_all add: MBI_FLAG_MEM_def MBI_FLAG_MMAP_def)
  define out where "out = mmap_header @ (if 0 < load32 (ram s) p AND 1 then mem_line (ram s) p else [])"
  have "print_mmap mbd s = (if 0 < load32 (ram s) p AND 64 then mmap_loop a (a + load32 (ram s) (p + 44)) (terminal_write out 7 s)
      else Some (Inr (terminal_write out 7 s)))"
    using p(1) a(1) by (simp add: print_mmap_def printk_def vprintk_eq format_mem tty.emit_def Let_def field32_def flg f out_def mem_line_def
        del: terminal_write_append flip: terminal_write_append)
  then show ?thesis using lines [of out] by (simp add: out_def)
qed

text \<open>\<open>print_mmap\<close> returns and prints a heading, the two memory sizes and the memory map as the flags of the
  boot information announce them. One line is printed for every started 24 bytes of the map: the entries
  are taken to lie 24 bytes apart, whatever their size fields say.\<close>

lemma print_mmap_prints:
  assumes inv: "terminal_inv s" and p: "phys2virt mbd = p" "off_screen p 52 s"
    and a: "phys2virt (load32 (ram s) (p + 48)) = a" "unat (load32 (ram s) (p + 44)) = L"
    and map: "unat a + L + 24 < 2 ^ 32" "off_screen a (24 * ((L + 23) div 24)) s"
  shows "print_mmap mbd s = Some (Inr (terminal_write (mmap_header
      @ (if 0 < load32 (ram s) p AND 1 then mem_line (ram s) p else [])
      @ (if 0 < load32 (ram s) p AND 64 then mmap_lines (ram s) a ((L + 23) div 24) else [])) 7 s))"
  by (rule print_mmap_output [OF assms])

end
