(* ===== verification/Footprint.thy ===== *)
theory Footprint
  imports Page_Tables
begin

text \<open>
  Which memory the page allocator and the page-table code of \<^verbatim>\<open>src/paging.c\<close> write. If the page
  directory, its page tables and the free pages are all in a set of pages, then mapping memory
  keeps them in that set and changes no byte of any other page.
\<close>

section \<open>The state above the memory\<close>

lemma kalloc_more: "kmem.more (snd (kalloc s)) = kmem.more s"
  by (simp add: kalloc_def)

lemma init_kalloc_loop_more: "kmem.more (init_kalloc_loop a s) = kmem.more s"
  by (induction a s rule: init_kalloc_loop.induct) (subst init_kalloc_loop.simps, simp)

lemma alloc_page_more: "kmem.more (snd (alloc_page d a u s)) = kmem.more s"
  by (simp add: alloc_page_def kalloc_def Let_def)

lemma map_loop_more: "map_loop d a n p f s = Some r \<Longrightarrow> r = Inr t \<Longrightarrow> kmem.more t = kmem.more s"
proof -
  have "map_loop d a n p f s = Some r \<Longrightarrow> (\<forall>t. r = Inr t \<longrightarrow> kmem.more t = kmem.more s)"
  proof (erule map_loop.raw_induct [where P = "\<lambda>d a n p f s r. \<forall>t. r = Inr t \<longrightarrow> kmem.more t = kmem.more s", rotated])
    fix g d a n p f r and s :: "'a kmem_scheme"
    assume IH: "\<And>d a n p f (s :: 'a kmem_scheme) r. g d a n p f s = Some r \<Longrightarrow> \<forall>t. r = Inr t \<longrightarrow> kmem.more t = kmem.more s"
      and eq: "(if 0 < n then
        let r = alloc_page d a (f AND PT_USER) s; pte = fst r; s = snd r
        in if pte = NULL then Some (Inl Null_Deref)
           else let s = s\<lparr>ram := store32 (ram s) pte (p OR PT_PRESENT)\<rparr>;
                    s = s\<lparr>ram := store32 (ram s) pte (load32 (ram s) pte OR f)\<rparr>
                in g d (a + PAGE_SIZE) (n - PAGE_SIZE) (p + PAGE_SIZE) f s
      else Some (Inr s)) = Some r"
    show "\<forall>t. r = Inr t \<longrightarrow> kmem.more t = kmem.more s"
      using eq alloc_page_more [of d a "f AND PT_USER" s] by (auto simp: Let_def split: if_splits dest!: IH)
  qed
  then show "map_loop d a n p f s = Some r \<Longrightarrow> r = Inr t \<Longrightarrow> kmem.more t = kmem.more s" by blast
qed

lemma map_continous_more: "map_continous d a n p f s = Some (Inr t) \<Longrightarrow> kmem.more t = kmem.more s"
  by (auto simp: map_continous_def dest: map_loop_more)

lemma identity_map_more: "identity_map a n s = Some (Inr t) \<Longrightarrow> kmem.more t = kmem.more s"
  by (auto simp: identity_map_def dest: map_continous_more)

lemma init_kernel_paging_more: "init_kernel_paging u s = Some (Inr t) \<Longrightarrow> kmem.more t = kmem.more s"
  by (auto simp: init_kernel_paging_def kalloc_def load_cr3_def Let_def split: if_splits option.splits sum.splits dest!: map_continous_more)

section \<open>Writes that stay in a page\<close>

lemma in_page: "page_aligned p \<Longrightarrow> in_range p PAGE_SIZE a \<longleftrightarrow> ROUNDDOWN a = p"
proof
  assume p: "page_aligned p" and "in_range p PAGE_SIZE a"
  then have "ROUNDDOWN (a - p) = 0"
    by (simp add: in_range_def PAGE_SIZE_def word_unat_eq_iff unat_ROUNDDOWN word_less_nat_alt)
  then show "ROUNDDOWN a = p" using ROUNDDOWN_add [OF p, of "a - p"] by simp
next
  assume "ROUNDDOWN a = p"
  then have "a - p = a AND 4095" by (auto simp: ROUNDDOWN_diff)
  then show "in_range p PAGE_SIZE a" by (simp add: in_range_def PAGE_SIZE_def)
qed

lemma store32_other_page:
  assumes "page_aligned p" "i < 1024" "ROUNDDOWN a \<noteq> p"
  shows "store32 m (p + 4 * i) v a = m a"
proof (rule store32_frame)
  have "unat (4 * i) = 4 * unat i" "unat i < 1024" using assms(2) by (simp_all add: word_less_nat_alt unat_word_ariths)
  then show "\<not> in_range (p + 4 * i) 4 a"
    using in_range_sub [of p "4 * i" 4 a PAGE_SIZE] in_page [OF assms(1), of a] assms(3) by (auto simp: PAGE_SIZE_def)
qed

lemma clear_table_other_page:
  assumes "page_aligned p" "ROUNDDOWN a \<noteq> p"
  shows "clear_table p m a = m a"
proof -
  have "fold (\<lambda>i m. store32 m (p + 4 * of_nat i) 0) [0..<n] m a = m a" if "n \<le> 1024" for n
    using that
  proof (induction n)
    case (Suc n)
    then have "(of_nat n :: u32) < 1024" by (simp add: word_less_nat_alt of_nat_less_u32)
    then show ?case using Suc store32_other_page [OF assms(1) _ assms(2)] by simp
  qed simp
  then show ?thesis by (simp add: clear_table_def)
qed

section \<open>The pages of a directory\<close>

definition pages_in :: "u32 set \<Rightarrow> 'a kmem_scheme \<Rightarrow> u32 \<Rightarrow> u32 list \<Rightarrow> bool" where
  "pages_in P s d fl \<longleftrightarrow> pt_inv s d fl \<and> d \<in> P \<and> set fl \<subseteq> P
     \<and> (\<forall>i<1024. pde_present (ram s) d i \<longrightarrow> table_of (ram s) d i \<in> P)"

definition same_outside :: "u32 set \<Rightarrow> mem \<Rightarrow> mem \<Rightarrow> bool" where
  "same_outside P m m' \<longleftrightarrow> (\<forall>a. ROUNDDOWN a \<notin> P \<longrightarrow> m' a = m a)"

lemma same_outside_refl [simp]: "same_outside P m m"
  by (simp add: same_outside_def)

lemma same_outside_trans: "same_outside P m m' \<Longrightarrow> same_outside P m' m'' \<Longrightarrow> same_outside P m m''"
  by (simp add: same_outside_def)

lemma same_outside_store32: "page_aligned p \<Longrightarrow> i < 1024 \<Longrightarrow> p \<in> P \<Longrightarrow> same_outside P m (store32 m (p + 4 * i) v)"
  unfolding same_outside_def by (metis store32_other_page)

lemma alloc_page_pages:
  assumes P: "pages_in P s d fl" and room: "pde_present (ram s) d (PGDIR_IDX va) \<or> fl \<noteq> []"
  obtains t fl' where "alloc_page d va user s = (table_of (ram t) d (PGDIR_IDX va) + 4 * PT_IDX va, t)"
    "pages_in P t d fl'" "pde_present (ram t) d (PGDIR_IDX va)" "same_outside P (ram s) (ram t)"
proof -
  let ?i = "PGDIR_IDX va" and ?fl = "if pde_present (ram s) d (PGDIR_IDX va) then fl else tl fl"
  have s: "pt_inv s d fl" "d \<in> P" "set fl \<subseteq> P" "\<And>i. i < 1024 \<Longrightarrow> pde_present (ram s) d i \<Longrightarrow> table_of (ram s) d i \<in> P"
    using P by (auto simp: pages_in_def)
  from alloc_page_ok [OF s(1) room, of user] obtain t where
    t: "alloc_page d va user s = (table_of (ram t) d ?i + 4 * PT_IDX va, t)" "pt_inv t d ?fl"
    and pres: "\<And>j. j < 1024 \<Longrightarrow> pde_present (ram t) d j \<longleftrightarrow> j = ?i \<or> pde_present (ram s) d j"
    and ents: "\<And>j. j < 1024 \<Longrightarrow> j \<noteq> ?i \<Longrightarrow> entry (ram t) d j = entry (ram s) d j" by metis
  have d: "page_aligned d" by (rule pt_invD(2) [OF s(1)])
  have new: "table_of (ram t) d ?i \<in> P \<and> same_outside P (ram s) (ram t)"
  proof (cases "pde_present (ram s) d ?i")
    case True
    then show ?thesis
      using t(1) s(2,4) same_outside_store32 [OF d] by (auto simp: alloc_page_present)
  next
    case False
    with room obtain p ps where fl: "fl = p # ps" by (cases fl) auto
    then have p: "p \<in> P" "page_aligned p" and k: "kalloc_rep s (p # ps)"
      using s(3) pt_invD(1) [OF s(1)] by (auto simp: kalloc_rep_def)
    have "same_outside P (ram s) (clear_table p (ram s))" 
      using p unfolding same_outside_def by (metis clear_table_other_page)
    note fr = same_outside_trans [OF this same_outside_store32 [OF d PGDIR_IDX_lt s(2)]]
    have "table_of (ram t) d ?i = p" "ram t = store32 (clear_table p (ram s)) (d + 4 * ?i) (virt2phys p OR pde_flags user)"
      using t(1) unfolding alloc_page_fresh [OF False k] prod.inject by (auto dest: arg_cong [where f = ram])
    with p(1) fr show ?thesis by simp
  qed
  have "table_of (ram t) d j \<in> P" if "j < 1024" "pde_present (ram t) d j" for j
    using new s(4) [of j] pres [of j] ents [of j] that by (cases "j = ?i") (auto simp: table_of_def)
  moreover have "set ?fl \<subseteq> P" using s(3) by (cases fl) auto
  ultimately have "pages_in P t d ?fl" using t(2) s(2) by (simp add: pages_in_def)
  with t(1) new pres show ?thesis by (intro that) auto
qed

lemma set_pte_pages:
  fixes v :: u32
  assumes P: "pages_in P t d fl" and pres: "pde_present (ram t) d (PGDIR_IDX va)"
  defines "t' \<equiv> t\<lparr>ram := store32 (ram t) (table_of (ram t) d (PGDIR_IDX va) + 4 * PT_IDX va) v\<rparr>"
  shows "pages_in P t' d fl" "same_outside P (ram t) (ram t')"
proof -
  have t: "pt_inv t d fl" "table_of (ram t) d (PGDIR_IDX va) \<in> P" using P pres by (simp_all add: pages_in_def)
  note E = set_pte_ok [OF t(1) pres, where v = v, folded t'_def]
  have "pde_present (ram t') d j = pde_present (ram t) d j" "table_of (ram t') d j = table_of (ram t) d j" if "j < 1024" for j
    using E(3) [OF that] by (simp_all add: pde_present_def table_of_def)
  then show "pages_in P t' d fl" using P E(1) by (simp add: pages_in_def)
  show "same_outside P (ram t) (ram t')" unfolding t'_def using same_outside_store32 [OF _ _ t(2)] by simp
qed

lemma map_loop_pages:
  assumes "pages_in P s d fl" "unat sz = 4096 * n" "map_loop d addr sz phys flags s = Some (Inr t)"
  shows "\<exists>fl'. pages_in P t d fl' \<and> same_outside P (ram s) (ram t)"
  using assms
proof (induction n arbitrary: sz addr phys s fl)
  case 0
  then show ?case by (auto simp: map_loop.simps unat_eq_zero)
next
  case (Suc n)
  note sz = page_count_step [OF Suc.prems(2)]
  have k: "kalloc_rep s fl" using Suc.prems(1) pt_invD(1) by (auto simp: pages_in_def)
  have room: "pde_present (ram s) d (PGDIR_IDX addr) \<or> fl \<noteq> []"
    using Suc.prems(3) alloc_page_null [of s d addr "flags AND PT_USER"] k sz(1) by (auto simp: map_loop.simps [of d addr])
  from alloc_page_pages [OF Suc.prems(1) room, of "flags AND PT_USER"] obtain u fl1 where
    al: "alloc_page d addr (flags AND PT_USER) s = (table_of (ram u) d (PGDIR_IDX addr) + 4 * PT_IDX addr, u)"
    and u: "pages_in P u d fl1" "pde_present (ram u) d (PGDIR_IDX addr)" "same_outside P (ram s) (ram u)" by metis
  define u' where "u' = u\<lparr>ram := store32 (ram u) (table_of (ram u) d (PGDIR_IDX addr) + 4 * PT_IDX addr) (phys OR PT_PRESENT OR flags)\<rparr>"
  note U = set_pte_pages [OF u(1,2), where v = "phys OR PT_PRESENT OR flags", folded u'_def]
  have "map_loop d (addr + PAGE_SIZE) (sz - PAGE_SIZE) (phys + PAGE_SIZE) flags u' = Some (Inr t)"
    using Suc.prems(3) sz(1) al by (simp add: map_loop.simps [of d addr] u'_def or.assoc Let_def split: if_splits)
  from Suc.IH [OF U(1) sz(2) this] same_outside_trans [OF u(3) U(2)] show ?case
    using same_outside_trans by blast
qed

text \<open>The free list is determined by the state.\<close>

lemma free_list_unique: "free_list m h ps \<Longrightarrow> free_list m h qs \<Longrightarrow> NULL \<notin> set ps \<Longrightarrow> NULL \<notin> set qs \<Longrightarrow> ps = qs"
proof (induction ps arbitrary: h qs)
  case Nil
  then show ?case by (cases qs) auto
next
  case (Cons p ps)
  then show ?case by (cases qs) auto
qed

lemma kalloc_rep_unique: "kalloc_rep s ps \<Longrightarrow> kalloc_rep s qs \<Longrightarrow> ps = qs"
  using free_list_unique [of "ram s" "freelist_head s" ps qs] by (auto simp: kalloc_rep_def)

lemma map_continous_pages:
  assumes P: "pages_in P s d fl" and room: "card (missing_tables (ram s) d (ROUNDDOWN addr) (unat (ROUNDUP sz) div 4096)) \<le> n" "n \<le> length fl"
  shows "\<exists>t fl'. map_continous d addr sz phys flags s = Some (Inr t) \<and> pages_in P t d fl' \<and> length fl \<le> length fl' + n
    \<and> same_outside P (ram s) (ram t) \<and> kernel_pgdir t = kernel_pgdir s \<and> kmem.more t = kmem.more s"
proof -
  have s: "pt_inv s d fl" using P by (simp add: pages_in_def)
  from map_continous_ok [OF s, of addr sz phys flags] room obtain t fl' where
    t: "map_continous d addr sz phys flags s = Some (Inr t)" "pt_inv t d fl'" "kernel_pgdir t = kernel_pgdir s"
    "length fl \<le> length fl' + n" by (auto split: if_splits)
  from map_loop_pages [OF P unat_ROUNDUP_pages t(1) [unfolded map_continous_def]] obtain fl'' where
    p: "pages_in P t d fl''" "same_outside P (ram s) (ram t)" by blast
  have "fl'' = fl'" using kalloc_rep_unique pt_invD(1) t(2) p(1) unfolding pages_in_def by blast
  then show ?thesis using t p map_continous_more [OF t(1)] by blast
qed

text \<open>Writes elsewhere do not matter to a directory.\<close>

lemma load32_page_cong:
  assumes "page_aligned p" "i < 1024" "\<And>a. ROUNDDOWN a = p \<Longrightarrow> m' a = m a"
  shows "load32 m' (p + 4 * i) = load32 m (p + 4 * i)"
proof (rule load32_cong)
  fix k :: u32 assume k: "k < 4"
  have "unat (4 * i) = 4 * unat i" "unat i < 1024" using assms(2) by (simp_all add: word_less_nat_alt unat_word_ariths)
  then have "in_range p PAGE_SIZE (p + 4 * i + k)"
    using in_range_sub [of p "4 * i" 4 "p + 4 * i + k" PAGE_SIZE] k by (simp add: PAGE_SIZE_def)
  then show "m' (p + 4 * i + k) = m (p + 4 * i + k)" using in_page [OF assms(1)] assms(3) by simp
qed

lemma pages_in_cong:
  assumes P: "pages_in P s d fl" and same: "\<And>a. ROUNDDOWN a \<in> P \<Longrightarrow> ram t a = ram s a" "freelist_head t = freelist_head s"
  shows "pages_in P t d fl"
proof -
  have s: "pt_inv s d fl" "d \<in> P" "set fl \<subseteq> P" using P by (auto simp: pages_in_def)
  have e: "entry (ram t) p i = entry (ram s) p i" if "p \<in> P" "page_aligned p" "i < 1024" for p i
    unfolding entry_def using that same(1) by (intro load32_page_cong) auto
  have ed: "entry (ram t) d i = entry (ram s) d i" if "i < 1024" for i using e pt_invD(2) [OF s(1)] s(2) that by blast
  have "load32 (ram t) p = load32 (ram s) p" if "p \<in> set fl" for p
    using e [of p 0] s(3) pt_invD(1) [OF s(1)] that by (auto simp: load32_entry_0 kalloc_rep_def)
  then have "kalloc_rep t fl" using kalloc_rep_ram_cong [of s fl t] pt_invD(1) [OF s(1)] same(2) by blast
  with P show ?thesis using ed by (auto simp: pages_in_def pt_inv_def pde_present_def table_of_def)
qed

lemma translate_page_cong:
  assumes P: "pages_in P s d fl" and same: "\<And>a. ROUNDDOWN a \<in> P \<Longrightarrow> ram t a = ram s a"
  shows "translate (ram t) d va = translate (ram s) d va"
proof -
  have s: "pt_inv s d fl" "d \<in> P" using P by (auto simp: pages_in_def)
  have e: "entry (ram t) p i = entry (ram s) p i" if "p \<in> P" "page_aligned p" "i < 1024" for p i
    unfolding entry_def using that same by (intro load32_page_cong) auto
  have d: "entry (ram t) d (PGDIR_IDX va) = entry (ram s) d (PGDIR_IDX va)" by (rule e [OF s(2) pt_invD(2) [OF s(1)] PGDIR_IDX_lt])
  have "entry (ram t) (phys2virt (ROUNDDOWN (entry (ram s) d (PGDIR_IDX va)))) (PT_IDX va) =
      entry (ram s) (phys2virt (ROUNDDOWN (entry (ram s) d (PGDIR_IDX va)))) (PT_IDX va)"
    if "entry (ram s) d (PGDIR_IDX va) AND PT_PRESENT \<noteq> 0"
    using e P that by (simp add: pages_in_def pde_present_def table_of_def)
  then show ?thesis by (simp add: translate_def page_walk_def d Let_def)
qed

section \<open>Start-up\<close>

lemma init_kalloc_loop_outside:
  assumes "page_aligned a" "ROUNDDOWN b < a \<or> 0xc0400000 \<le> ROUNDDOWN b"
  shows "ram (init_kalloc_loop a s) b = ram s b"
  using assms
proof (induction a s rule: init_kalloc_loop.induct)
  case (1 a s)
  show ?case
  proof (cases "a < KERNEL_HIGH + 4 * push_bit 20 1")
    case True
    then have lt: "a < 0xc0400000" by (simp add: KERNEL_HIGH_def)
    then have st: "unat (a + PAGE_SIZE) = unat a + 4096" by (subst unat_add_lt) (simp_all add: PAGE_SIZE_def word_less_nat_alt)
    have "ROUNDDOWN b \<noteq> a" using "1.prems"(2) lt by auto
    then have "store32 (ram s) a v b = ram s b" for v using store32_other_page [OF "1.prems"(1), of 0 b "ram s" v] by simp
    moreover have "ROUNDDOWN b < a + PAGE_SIZE \<or> 0xc0400000 \<le> ROUNDDOWN b"
      using "1.prems"(2) st by (auto simp: word_less_nat_alt)
    ultimately show ?thesis
      using "1.IH" [OF True] "1.prems"(1) True by (simp add: init_kalloc_loop.simps [of a s] page_aligned_add)
  next
    case False
    then show ?thesis by (simp add: init_kalloc_loop.simps [of a s])
  qed
qed

text \<open>The pages between the end of the kernel and 4 MiB above \<open>KERNEL_HIGH\<close>.\<close>

definition pool :: "u32 \<Rightarrow> u32 set" where
  "pool KERNEL_END = {p. page_aligned p \<and> KERNEL_END \<le> p \<and> p < 0xc0400000}"

lemma ROUNDUP_le_aligned:
  assumes "unat a + 4095 < 4294967296" "page_aligned p"
  shows "ROUNDUP a \<le> p \<longleftrightarrow> a \<le> p"
  using assms by (auto simp: word_le_nat_alt unat_ROUNDUP page_aligned_dvd elim!: dvdE)

lemma init_kalloc_early_pages:
  assumes "KERNEL_HIGH < KERNEL_END" "KERNEL_END \<le> 0xc0400000" "unat KERNEL_END + 4096 * n \<le> 0xc03ff000"
  shows "\<exists>fl. kalloc_rep (init_kalloc_early KERNEL_END s) fl \<and> set fl \<subseteq> pool KERNEL_END \<and> n \<le> length fl
    \<and> same_outside (pool KERNEL_END) (ram s) (ram (init_kalloc_early KERNEL_END s))"
proof -
  let ?a = "ROUNDUP KERNEL_END" and ?s = "init_kalloc_early KERNEL_END s"
  have small: "unat KERNEL_END + 4095 < 4294967296" using assms(2) by (simp add: word_le_nat_alt)
  note u = unat_ROUNDUP [OF small] and le = ROUNDUP_le_aligned [OF small]
  have nz: "?a \<noteq> NULL"
    using assms(1) u by (auto simp: KERNEL_HIGH_def word_less_nat_alt simp flip: unat_eq_zero)
  have rep: "kalloc_rep ?s (rev (kernel_pages ?a))"
    using init_kalloc_loop_rep [OF page_aligned_ROUNDUP nz, of "s\<lparr>freelist_head := NULL\<rparr>" "[]"]
    by (simp add: init_kalloc_early_def kalloc_rep_def)
  have "set (rev (kernel_pages ?a)) \<subseteq> pool KERNEL_END" using le by (auto simp: set_kernel_pages pool_def)
  moreover have "n \<le> length (rev (kernel_pages ?a))" using assms(3) u by (simp add: kernel_pages_def)
  moreover have "same_outside (pool KERNEL_END) (ram s) (ram ?s)"
    unfolding same_outside_def
  proof (intro allI impI)
    fix b assume "ROUNDDOWN b \<notin> pool KERNEL_END"
    then have "ROUNDDOWN b < ?a \<or> 0xc0400000 \<le> ROUNDDOWN b" using le [of "ROUNDDOWN b"] by (auto simp: pool_def)
    then show "ram ?s b = ram s b"
      using init_kalloc_loop_outside [OF page_aligned_ROUNDUP, of b _ "s\<lparr>freelist_head := NULL\<rparr>"] by (simp add: init_kalloc_early_def)
  qed
  ultimately show ?thesis using rep by blast
qed

lemma init_kernel_paging_pages:
  assumes k: "kalloc_rep s fl" "set fl \<subseteq> P" "3 + n \<le> length fl"
  shows "\<exists>t fl'. init_kernel_paging USERSPACE_START s = Some (Inr t) \<and> pages_in P t (kernel_pgdir t) fl' \<and> n \<le> length fl'
    \<and> same_outside P (ram s) (ram t) \<and> kmem.more t = kmem.more s"
proof -
  obtain p ps where fl: "fl = p # ps" and ps: "2 + n \<le> length ps" using k(3) by (cases fl) auto
  define s1 where "s1 = s\<lparr>freelist_head := load32 (ram s) p, kernel_pgdir := p, ram := memset (ram s) p 0 PAGE_SIZE\<rparr>"
  note S1 = fresh_pgdir_inv [OF k(1) [unfolded fl], folded s1_def]
  have p: "p \<in> P" "page_aligned p" "p \<noteq> NULL" "set ps \<subseteq> P" using k(1,2) by (auto simp: fl kalloc_rep_def)
  have "\<not> pde_present (ram s1) p i" if "i < 1024" for i
    using p(2) that by (simp add: s1_def pde_present_def entry_memset_0)
  then have P1: "pages_in P s1 p ps" using S1(1) p by (simp add: pages_in_def)
  have "ram s1 a = ram s a" if "ROUNDDOWN a \<notin> P" for a
    using that p(1) in_page [OF p(2), of a] by (auto simp: s1_def memset_eq)
  then have f1: "same_outside P (ram s) (ram s1)" by (simp add: same_outside_def)
  have sz: "ROUNDUP 0x400000 = 0x400000" "ROUNDUP 4096 = 4096" "ROUNDDOWN KERNEL_HIGH = KERNEL_HIGH"
    by (simp_all add: ROUNDUP_def ROUNDDOWN_def PAGE_SIZE_def KERNEL_HIGH_def)
  have "missing_tables (ram s1) p KERNEL_HIGH 1024 \<subseteq> {768}" by (auto simp: missing_tables_def touched_kernel)
  from card_mono [OF _ this] have m1: "card (missing_tables (ram s1) p KERNEL_HIGH 1024) \<le> 1" by simp
  have u: "unat (0x400000 :: u32) div 4096 = 1024" "unat (4096 :: u32) div 4096 = 1" by simp_all
  have r1: "1 \<le> length ps" using ps by simp
  have s1: "kernel_pgdir s1 = p" "kmem.more s1 = kmem.more s" by (simp_all add: s1_def)
  from map_continous_pages [OF P1, of KERNEL_HIGH "0x400000", unfolded sz u, OF m1 r1, of 0 PT_WRITEABLE, unfolded s1]
  obtain s2 fl2 where
    s2: "map_continous p KERNEL_HIGH 0x400000 0 PT_WRITEABLE s1 = Some (Inr s2)" "pages_in P s2 p fl2" "length ps \<le> length fl2 + 1"
    "same_outside P (ram s1) (ram s2)" "kernel_pgdir s2 = p" "kmem.more s2 = kmem.more s" by blast
  have r2: "1 \<le> length fl2" using ps s2(3) by simp
  from map_continous_pages [OF s2(2), of USERSPACE_START 4096, unfolded sz u, OF card_missing_one r2,
      of "virt2phys USERSPACE_START" "PT_USER OR PT_WRITEABLE", unfolded s2(5,6)]
  obtain s3 fl3 where
    s3: "map_continous p USERSPACE_START 4096 (virt2phys USERSPACE_START) (PT_USER OR PT_WRITEABLE) s2 = Some (Inr s3)"
    "pages_in P s3 p fl3" "length fl2 \<le> length fl3 + 1" "same_outside P (ram s2) (ram s3)" "kernel_pgdir s3 = p" "kmem.more s3 = kmem.more s"
    by blast
  have len: "n \<le> length fl3" using ps s2(3) s3(3) by simp
  have "kalloc s = (p, s\<lparr>freelist_head := load32 (ram s) p\<rparr>)" using k(1) by (auto simp: fl kalloc_def kalloc_rep_def)
  then have "init_kernel_paging USERSPACE_START s = Some (Inr (load_cr3 (virt2phys p) s3))"
    using p(3) s2(1) s3(1) by (simp add: init_kernel_paging_def s1_def)
  moreover have "pages_in P (load_cr3 (virt2phys p) s3) p fl3" using s3(2) by (rule pages_in_cong) (simp_all add: load_cr3_def)
  moreover have "same_outside P (ram s) (ram s3)" using f1 s2(4) s3(4) same_outside_trans by blast
  ultimately show ?thesis using s3(5,6) len by (auto simp: load_cr3_def intro!: exI [of _ fl3])
qed

lemma card_missing_two: "card (missing_tables m d addr 2) \<le> 2"
proof -
  have "touched addr 2 = {PGDIR_IDX addr, PGDIR_IDX (addr + PAGE_SIZE)}"
    using touched_Suc [of addr 1] touched_one [of "addr + PAGE_SIZE"] by (simp add: numeral_2_eq_2)
  then have "missing_tables m d addr 2 \<subseteq> {PGDIR_IDX addr, PGDIR_IDX (addr + PAGE_SIZE)}" by (auto simp: missing_tables_def)
  from card_mono [OF _ this] show ?thesis by (simp add: card_insert_if split: if_splits)
qed

lemma identity_map_pages:
  assumes "pages_in P s (kernel_pgdir s) fl" "sz = PAGE_SIZE \<and> n = 1 \<or> sz = 2 * PAGE_SIZE \<and> n = 2" "n \<le> length fl"
  shows "\<exists>t fl'. identity_map addr sz s = Some (Inr t) \<and> pages_in P t (kernel_pgdir t) fl' \<and> length fl \<le> length fl' + n
    \<and> same_outside P (ram s) (ram t) \<and> kmem.more t = kmem.more s"
proof -
  have "unat (ROUNDUP sz) div 4096 = n" using assms(2) by (auto simp: ROUNDUP_def PAGE_SIZE_def)
  then have "card (missing_tables (ram s) (kernel_pgdir s) (ROUNDDOWN addr) (unat (ROUNDUP sz) div 4096)) \<le> n"
    using assms(2) card_missing_one card_missing_two by auto
  from map_continous_pages [OF assms(1) this assms(3), of addr PT_WRITEABLE] show ?thesis
    by (auto simp: identity_map_def)
qed

end
