(* ===== verification/Boot.thy ===== *)
theory Boot
  imports Ext2 Memory_Map Footprint
begin

text \<open>
  The kernel as a whole: \<open>kernel_main\<close> of \<^verbatim>\<open>src/kernel.c\<close>, the first function of a task
  (\<open>task_init\<close> of \<^verbatim>\<open>src/sched.c\<close>) and \<open>init_late\<close> of \<^verbatim>\<open>src/init.c\<close>. The components are
  composed as the code composes them; addresses that the linker fixes are a record of arguments.
  The lemmas show what each step of the boot leaves alone: every operation on the memory, the
  console or the interrupt controllers keeps the state of the components above it.
\<close>

record kernel = ext2 +
  idts :: idt_state

record linker =
  KERNEL_END :: u32
  USERSPACE_START :: u32
  TSS_addr :: u32
  GDT_addr :: u32
  IDT_addr :: u32
  handle_keypress_ptr :: u32
  jump_userspace :: u32
  task_init_ptr :: u32
  userspace_fn :: u32
  root_ext2 :: u32

definition kernel_main ::
  "device \<Rightarrow> linker \<Rightarrow> stubs \<Rightarrow> u32 \<Rightarrow> 'a kernel_scheme \<Rightarrow> (sched_pc \<times> 'a kernel_scheme) result option" where
  "kernel_main hw ld st mbd_lmem_ptr s =
     bindk (Some (init_gdt (TSS_addr ld) (GDT_addr ld) (gdts s))) (\<lambda>g.
       let s = s\<lparr>gdts := g\<rparr>;
           s = s\<lparr>idts := init_idt st (IDT_addr ld) (idts s)\<rparr>;
           s = init_kalloc_early (KERNEL_END ld) s
       in bindk (init_kernel_paging (USERSPACE_START ld) s) (\<lambda>s.
          bindk (Some (terminal_initialize (handle_keypress_ptr ld) (ebus s) s)) (\<lambda>(bus, s).
          bindk (print_mmap mbd_lmem_ptr (s\<lparr>ebus := bus\<rparr>)) (\<lambda>s.
          bindk (acpi_find_rsdt s) (\<lambda>(rsdt, s).
            if rsdt = NULL then Some (Inl (Panic ''RSDT not found!''))
            else
              bindk (Some (printk ''RSDT found at %x\<newline>'' [VWord rsdt] s)) (\<lambda>s.
              bindk (Some (acpi_validate_rsdt rsdt s)) (\<lambda>_.
              bindk (apic_init rsdt s) (\<lambda>s.
              bindk (calibrate_apic_timer hw s) (\<lambda>s.
              bindk (Some (printk ''Hell OS is loaded\<newline>'' [] s)) (\<lambda>s.
              Some (scheduler_boot (jump_userspace ld) (task_init_ptr ld) (userspace_fn ld) s)))))))))))"

definition init_late :: "device \<Rightarrow> linker \<Rightarrow> u32 \<Rightarrow> u32 \<Rightarrow> 'a kernel_scheme \<Rightarrow> 'a kernel_scheme result option" where
  "init_late hw ld req_addr inode_addr s = init_ext2 hw req_addr (root_ext2 ld) inode_addr s"

definition task_init :: "device \<Rightarrow> linker \<Rightarrow> u32 \<Rightarrow> u32 \<Rightarrow> 'a kernel_scheme \<Rightarrow> 'a kernel_scheme result option" where
  "task_init hw ld req_addr inode_addr s =
     (case current s of None \<Rightarrow> Some (Inl Null_Deref)
      | Some cur \<Rightarrow> if pid (tasks s ! cur) = 1 then init_late hw ld req_addr inode_addr s else Some (Inr s))"

section \<open>What each step leaves alone\<close>

text \<open>The state of the scheduler and of everything above it.\<close>

lemma upper_kmem: "kmem.more (t :: 'a kbd_scheme) = kmem.more s \<Longrightarrow> kbd.more t = kbd.more s"
  by (cases s, cases t) simp

lemma upper_console: "console.more (t :: 'a kbd_scheme) = console.more s \<Longrightarrow> kbd.more t = kbd.more s"
  by (cases s, cases t) simp

lemma upper_apic: "apic.more (t :: 'a kbd_scheme) = apic.more s \<Longrightarrow> kbd.more t = kbd.more s"
  by (cases s, cases t) simp

lemma upper_ebus: "kbd.more (s\<lparr>ebus := b\<rparr>) = kbd.more s"
  by simp

lemma terminal_clear_more: "console.more (terminal_clear c s) = console.more s"
proof -
  have row: "console.more (fold (clear_cell c y) xs s) = console.more s" for y xs and s :: "'a console_scheme"
    by (induction xs arbitrary: s) (simp_all add: clear_cell_def Let_def)
  have "console.more (fold (\<lambda>y. fold (clear_cell c y) xs) ys s) = console.more s" for xs ys
    by (induction ys arbitrary: s) (simp_all add: row)
  then show ?thesis by (simp add: terminal_clear_def)
qed

lemma terminal_initialize_more: "terminal_initialize h b s = Inr (b', t) \<Longrightarrow> console.more t = console.more s"
  by (auto simp: terminal_initialize_def Let_def terminal_clear_more split: sum.splits)

lemma printk_more: "printk f xs s = Inr t \<Longrightarrow> console.more t = console.more s"
  by (auto simp: printk_def vprintk_eq tty.emit_def terminal_write_rest split: sum.splits)

text \<open>What \<open>printk\<close> keeps, the report on the memory map keeps.\<close>

lemma mmap_loop_keeps:
  fixes Q :: "'a console_scheme \<Rightarrow> bool"
  assumes p: "\<And>f xs u v. printk f xs u = Inr v \<Longrightarrow> Q u \<Longrightarrow> Q v"
  shows "mmap_loop a e s = Some (Inr t) \<Longrightarrow> Q s \<Longrightarrow> Q t"
proof -
  have "mmap_loop a e s = Some r \<Longrightarrow> (\<forall>t. r = Inr t \<longrightarrow> Q s \<longrightarrow> Q t)" for r
  proof (erule mmap_loop.raw_induct [where P = "\<lambda>a e s r. \<forall>t. r = Inr t \<longrightarrow> Q s \<longrightarrow> Q t", rotated])
    fix g a e r and s :: "'a console_scheme"
    assume IH: "\<And>a e (s :: 'a console_scheme) r. g a e s = Some r \<Longrightarrow> \<forall>t. r = Inr t \<longrightarrow> Q s \<longrightarrow> Q t"
      and eq: "(if a < e then
        let ent = field32 (ram s) a multiboot_mmap_entry
        in case printk ''[MME] base_addr = %x %x, len = %x %x, type = %x\<newline>''
                  [VWord (ent ''addr_high''), VWord (ent ''addr_low''), VWord (ent ''len_high''), VWord (ent ''len_low''), VWord (ent ''type'')] s of
             Inl f \<Rightarrow> Some (Inl f)
           | Inr s \<Rightarrow> g (a + of_nat (sizeof multiboot_mmap_entry)) e s
      else Some (Inr s)) = Some r"
    show "\<forall>t. r = Inr t \<longrightarrow> Q s \<longrightarrow> Q t"
      using eq by (auto simp: Let_def split: if_splits sum.splits dest!: IH dest: p)
  qed
  then show "mmap_loop a e s = Some (Inr t) \<Longrightarrow> Q s \<Longrightarrow> Q t" by blast
qed

lemma print_mmap_keeps:
  fixes Q :: "'a console_scheme \<Rightarrow> bool"
  assumes p: "\<And>f xs u v. printk f xs u = Inr v \<Longrightarrow> Q u \<Longrightarrow> Q v"
  shows "print_mmap m s = Some (Inr t) \<Longrightarrow> Q s \<Longrightarrow> Q t"
proof -
  have k: "printk f xs u = Inr v \<Longrightarrow> Q u \<longrightarrow> Q v" "mmap_loop a e u = Some (Inr v) \<Longrightarrow> Q u \<longrightarrow> Q v" for f xs u v a e
    using p by (blast, intro impI, rule mmap_loop_keeps [of Q])
  show "print_mmap m s = Some (Inr t) \<Longrightarrow> Q s \<Longrightarrow> Q t"
    by (auto simp: print_mmap_def Let_def bindk_Some_Inr split: if_splits dest!: k)
qed

lemma print_mmap_more: "print_mmap m s = Some (Inr t) \<Longrightarrow> console.more t = console.more s"
  by (rule print_mmap_keeps [where Q = "\<lambda>u. console.more u = console.more s"]) (simp_all add: printk_more)

lemma acpi_find_rsdt_more: "acpi_find_rsdt s = Some (Inr (r, t)) \<Longrightarrow> kmem.more t = kmem.more s"
  by (auto simp: acpi_find_rsdt_def Let_def bindk_Some_Inr split: if_splits dest!: identity_map_more)

lemma acpi_find_sdt_more: "acpi_find_sdt r f s = Some (Inr (h, t)) \<Longrightarrow> kmem.more t = kmem.more s"
  by (auto simp: acpi_find_sdt_def Let_def bindk_Some_Inr split: if_splits option.splits sum.splits dest!: identity_map_more)

lemma apic_kmem: "kmem.more (t :: 'a apic_scheme) = kmem.more s \<Longrightarrow> apic.more t = apic.more s"
  by (cases s, cases t) simp

lemma apic_init_shape:
  assumes "apic_init r s = Some (Inr t)"
  obtains h s1 i s2 s3 where "acpi_find_sdt r ''APIC'' s = Some (Inr (h, s1))"
    "identity_map (load32 (ram s1) (h + 36)) (2 * PAGE_SIZE) (s1\<lparr>lapic_ptr := load32 (ram s1) (h + 36), ioapic_ptr := i\<rparr>) = Some (Inr s2)"
    "identity_map (ioapic_ptr s2) (2 * PAGE_SIZE) s2 = Some (Inr s3)" "t = apic_setup s3"
  using assms by (auto simp: apic_init_def bindk_Some_Inr Let_def split: if_splits option.splits)

lemma apic_setup_log: "\<exists>l. apic_setup s = s\<lparr>io_log := l\<rparr>"
  by (simp add: apic_setup_def io_defs lapic_write_def ioapic_enable_def ioapic_write_def Let_def) blast

lemma apic_init_more: "apic_init r s = Some (Inr t) \<Longrightarrow> apic.more t = apic.more s"
proof (erule apic_init_shape)
  fix h i and s1 s2 s3 :: "'a apic_scheme"
  assume s1: "acpi_find_sdt r ''APIC'' s = Some (Inr (h, s1))"
    and s2: "identity_map (load32 (ram s1) (h + 36)) (2 * PAGE_SIZE) (s1\<lparr>lapic_ptr := load32 (ram s1) (h + 36), ioapic_ptr := i\<rparr>) = Some (Inr s2)"
    and s3: "identity_map (ioapic_ptr s2) (2 * PAGE_SIZE) s2 = Some (Inr s3)" "t = apic_setup s3"
  have "apic.more (apic_setup u) = apic.more u" for u :: "'a apic_scheme" using apic_setup_log [of u] by auto
  with s3 apic_kmem [OF identity_map_more [OF s3(1)]] apic_kmem [OF identity_map_more [OF s2]] apic_kmem [OF acpi_find_sdt_more [OF s1]]
  show ?thesis by simp
qed

text \<open>The calibration only talks to devices.\<close>

lemma pit_wait_log: "pit_wait hw c s = Some (n, t) \<Longrightarrow> \<exists>l. t = s\<lparr>io_log := l\<rparr>"
proof -
  assume p: "pit_wait hw c s = Some (n, t)"
  from pit_wait_None [OF this] obtain k where "\<not> out2_high hw s k" "\<forall>j<k. out2_high hw s j"
    using exists_least_iff [of "\<lambda>k. \<not> out2_high hw s k"] by blast
  from pit_wait_Some [OF this(2,1), of c] p show ?thesis by (auto simp: polls_def)
qed

lemma calibrate_log:
  fixes s :: "'a apic_scheme"
  assumes "calibrate_apic_timer hw s = Some (Inr t)"
  shows "\<exists>l. t = s\<lparr>io_log := l\<rparr>"
proof -
  have "\<exists>l. v = u\<lparr>io_log := l\<rparr>" if "pit_perform_sleep hw u = Some (n, v)" for n and u v :: "'a apic_scheme"
    using that pit_wait_log [of hw 0 "pit_gate hw u" n v] by (auto simp: pit_perform_sleep_def pit_gate_def io_defs Let_def)
  with assms show ?thesis
    by (fastforce simp: calibrate_apic_timer_def Let_def lapic_write_eq lapic_read_def mmio_read_def io_def pit_prepare_10ms
        split: sum.splits option.splits prod.splits)
qed

lemma calibrate_more: "calibrate_apic_timer hw s = Some (Inr t) \<Longrightarrow> apic.more t = apic.more s"
  using calibrate_log [of hw s t] by auto

section \<open>From boot to the scheduler\<close>

lemma access_reload: "((a :: u8) AND 0xfd OR 2) AND 0xfd = a AND 0xfd"
proof -
  have "\<forall>n \<in> set [0..<256]. ((of_nat n :: u8) AND 0xfd OR 2) AND 0xfd = of_nat n AND 0xfd" by code_simp
  from bspec [OF this, of "unat a"] u8_lt_256 [of a] show ?thesis by simp
qed

lemma reload_tss_again: "reload_tss g = Inr g' \<Longrightarrow> reload_tss g' = Inr g'"
  by (auto simp: reload_tss_def ltr_def Let_def access_reload split: if_splits)

lemma upper_fields:
  assumes "kbd.more (t :: 'a kernel_scheme) = kbd.more s"
  shows "tasks t = tasks s \<and> current t = current s \<and> gdts t = gdts s \<and> primary_master t = primary_master s
    \<and> req_queue t = req_queue s \<and> idts t = idts s"
  using assms by (cases s, cases t) simp

lemmas boot_mores = upper_kmem [OF init_kernel_paging_more] upper_console [OF terminal_initialize_more] upper_console [OF print_mmap_more]
  upper_kmem [OF acpi_find_rsdt_more] upper_console [OF printk_more] upper_apic [OF apic_init_more] upper_apic [OF calibrate_more]

lemma kernel_main_upper:
  assumes "kernel_main hw ld st mbd s = Some (Inr k)"
  obtains g b where "init_gdt (TSS_addr ld) (GDT_addr ld) (gdts s) = Inr g"
    "kbd.more b = kbd.more (s\<lparr>gdts := g, idts := init_idt st (IDT_addr ld) (idts s)\<rparr>)"
    "scheduler_boot (jump_userspace ld) (task_init_ptr ld) (userspace_fn ld) b = Inr k"
proof -
  from assms obtain g where g: "init_gdt (TSS_addr ld) (GDT_addr ld) (gdts s) = Inr g"
    by (auto simp: kernel_main_def bindk_Some_Inr)
  let ?s = "s\<lparr>gdts := g, idts := init_idt st (IDT_addr ld) (idts s)\<rparr>"
  have k: "kbd.more (init_kalloc_early e ?s) = kbd.more ?s" for e
    by (rule upper_kmem) (simp add: init_kalloc_early_def init_kalloc_loop_more)
  from assms obtain b where "kbd.more b = kbd.more ?s"
    "scheduler_boot (jump_userspace ld) (task_init_ptr ld) (userspace_fn ld) b = Inr k"
    using g k by (auto simp: kernel_main_def bindk_Some_Inr Let_def split: if_splits dest!: boot_mores)
  with g that show ?thesis by blast
qed

lemma scheduler_boot_frame:
  fixes s :: "'a kernel_scheme"
  assumes "scheduler_boot ju ti uf s = Inr (pc, t)"
  shows "pc = Scan 0 False \<and> primary_master t = primary_master s \<and> req_queue t = req_queue s \<and> idts t = idts s"
  using assms
  by (auto simp: scheduler_boot_def task_allocate_def task_setup_def upd_task_def kalloc_def Let_def
      split: if_splits option.splits)

lemma boot_no_disk_wait:
  assumes "boot_state s" "scheduler_boot ju ti uf s = Inr (pc, t)"
  shows "\<forall>i<MAX_TASKS. state (tasks t ! i) \<noteq> TASK_DISK_READ"
proof -
  obtain err r u where a: "task_allocate ju ti s = (err, r, u)" by (cases "task_allocate ju ti s")
  with assms(2) have e: "err = 0" "tasks t = tasks u" by (auto simp: scheduler_boot_def split: if_splits option.splits)
  with a obtain j where j: "j < MAX_TASKS" and st: "task_setup ju ti (Suc j) s = (0, u)"
    by (auto simp: task_allocate_def find_upt_Some EAGAIN_def split: option.splits prod.splits if_splits)
  have "state (tasks u ! i) = TASK_RUNNING \<or> tasks u ! i = tasks s ! i" for i
    using task_setup_tasks [OF st] assms(1) j by (cases "i = j") (simp_all add: boot_state_def)
  then show ?thesis using assms(1) e(2) unfolding boot_state_def by (metis task_state.distinct(5,9))
qed

text \<open>If \<open>kernel_main\<close> gets as far as the scheduler, it leaves a state from which the invariants of the
  scheduler and of the disk queue hold for ever.\<close>

lemma kernel_main_lands:
  assumes "length (tasks s) = MAX_TASKS" "\<forall>i<MAX_TASKS. state (tasks s ! i) = TASK_NOT_ALLOCATED" "current s = None" "req_queue s = NULL"
    and k: "kernel_main hw ld st mbd s = Some (Inr (pc, t))"
  shows "pc = Scan 0 False" "sched_init (jump_userspace ld) (task_init_ptr ld) (userspace_fn ld) (pc, t)" "disk_init t"
    "idts t = init_idt st (IDT_addr ld) (idts s)" "primary_master t = primary_master s"
proof -
  from k obtain g b where b: "init_gdt (TSS_addr ld) (GDT_addr ld) (gdts s) = Inr g"
    "kbd.more b = kbd.more (s\<lparr>gdts := g, idts := init_idt st (IDT_addr ld) (idts s)\<rparr>)"
    "scheduler_boot (jump_userspace ld) (task_init_ptr ld) (userspace_fn ld) b = Inr (pc, t)"
    by (rule kernel_main_upper)
  note f = upper_fields [OF b(2), simplified]
  have "reload_tss g = Inr g" using b(1) unfolding init_gdt_def Let_def by (rule reload_tss_again)
  then have bs: "boot_state b" using f assms by (simp add: boot_state_def)
  then show si: "sched_init (jump_userspace ld) (task_init_ptr ld) (userspace_fn ld) (pc, t)"
    using b(3) unfolding sched_init_def by blast
  note fr = scheduler_boot_frame [OF b(3)]
  have inv: "sched_inv (pc, t)" by (rule sched_init_inv [OF si])
  have "\<forall>i<MAX_TASKS. state (tasks t ! i) \<noteq> TASK_DISK_READ" by (rule boot_no_disk_wait [OF bs b(3)])
  then show "disk_init t" using inv fr f assms(4) by (simp add: disk_init_def sched_inv_def pc_inv_def)
  show "pc = Scan 0 False" "idts t = init_idt st (IDT_addr ld) (idts s)" "primary_master t = primary_master s" using fr f by simp_all
qed

definition kernel0 :: kernel where
  "kernel0 = ext2.extend (ata.extend (sched.extend sched0
     \<lparr>primary_master = \<lparr>io_base = 0, io_ctrl_base = 0\<rparr>, req_queue = NULL, reqs = (\<lambda>_. new_req 0 0 0 0)\<rparr>)
     \<lparr>bgd = NULL, tmp = NULL\<rparr>) \<lparr>idts = idt0\<rparr>"

lemma kernel0_simps [simp]:
  "length (tasks kernel0) = 256" "i < 256 \<Longrightarrow> state (tasks kernel0 ! i) = TASK_NOT_ALLOCATED" "current kernel0 = None"
  "req_queue kernel0 = NULL" "primary_master kernel0 = \<lparr>io_base = 0, io_ctrl_base = 0\<rparr>"
  by (simp_all add: kernel0_def ext2.defs ata.defs sched.defs)

end
