(* ===== verification/Boot_Run.thy ===== *)
theory Boot_Run
  imports Boot
begin

text \<open>
  A complete run of \<open>kernel_main\<close> of \<^verbatim>\<open>src/kernel.c\<close>: on a machine whose firmware tables, boot information and
  timer are in order, the kernel reaches the scheduler. Every step of the boot writes only the pages
  of the allocator and the screen, so that the tables are read as the firmware left them; this
  agreement of memories is the relation the lemmas are stated with.
\<close>

section \<open>Memory that the boot does not write\<close>

definition kept :: "u32 \<Rightarrow> u32 \<Rightarrow> bool" where
  "kept e a \<longleftrightarrow> \<not> in_range (phys2virt 0xB8000) 4000 a \<and> (a < e \<or> 0xc0400000 \<le> a)"

definition kept_range :: "u32 \<Rightarrow> u32 \<Rightarrow> nat \<Rightarrow> bool" where
  "kept_range e p n \<longleftrightarrow> (\<forall>k<n. kept e (p + of_nat k))"

definition agrees :: "u32 \<Rightarrow> mem \<Rightarrow> mem \<Rightarrow> bool" where
  "agrees e m m' \<longleftrightarrow> (\<forall>a. kept e a \<longrightarrow> m' a = m a)"

lemma agrees_refl [simp]: "agrees e m m"
  by (simp add: agrees_def)

lemma agrees_trans: "agrees e m m' \<Longrightarrow> agrees e m' m'' \<Longrightarrow> agrees e m m''"
  by (simp add: agrees_def)

lemma kept_not_pool: "kept e a \<Longrightarrow> ROUNDDOWN a \<notin> pool e"
proof
  assume a: "kept e a" "ROUNDDOWN a \<in> pool e"
  have "unat (ROUNDDOWN a) \<le> unat a" "unat a < unat (ROUNDDOWN a) + 4096"
    using mod_less_divisor [of 4096 "unat a"] minus_mod_eq_div_mult [of "unat a" 4096] by (simp_all add: unat_ROUNDDOWN)
  moreover have "4096 dvd unat (ROUNDDOWN a)" by (simp add: unat_ROUNDDOWN)
  ultimately show False using a by (auto simp: kept_def pool_def word_le_nat_alt word_less_nat_alt elim!: dvdE)
qed

lemma same_outside_agrees: "same_outside (pool e) m m' \<Longrightarrow> agrees e m m'"
  using kept_not_pool by (auto simp: same_outside_def agrees_def)

lemma kept_range_sub: "kept_range e p n \<Longrightarrow> k + j \<le> n \<Longrightarrow> kept_range e (p + of_nat k) j"
proof -
  assume a: "kept_range e p n" "k + j \<le> n"
  have "kept e (p + of_nat (k + i))" if "i < j" for i 
    using a(1) [unfolded kept_range_def, rule_format, of "k + i"] a(2) that by simp
  then show ?thesis by (simp add: kept_range_def add.assoc)
qed

lemma kept_range_mono: "kept_range e p n \<Longrightarrow> k \<le> n \<Longrightarrow> kept_range e p k"
  by (simp add: kept_range_def)

lemma agrees_byte: "agrees e m m' \<Longrightarrow> kept_range e p n \<Longrightarrow> k < n \<Longrightarrow> m' (p + of_nat k) = m (p + of_nat k)"
  by (simp add: agrees_def kept_range_def)

lemma agrees_load32:
  assumes "agrees e m m'" "kept_range e p n" "k + 4 \<le> n"
  shows "load32 m' (p + of_nat k) = load32 m (p + of_nat k)"
proof (rule load32_cong)
  fix i :: u32 assume "i < 4"
  then have "k + unat i < n" using assms(3) by (simp add: word_less_nat_alt)
  from agrees_byte [OF assms(1,2) this] show "m' (p + of_nat k + i) = m (p + of_nat k + i)" by (simp add: add.assoc)
qed

lemma agrees_holds_at:
  assumes "agrees e m m'" "kept_range e p (length str)"
  shows "holds_at str m' p = holds_at str m p"
  using agrees_byte [OF assms] by (simp add: holds_at_def)

section \<open>Reading the firmware tables\<close>

text \<open>Where the root pointer is, in the extended BIOS data area or else in the BIOS read-only memory.\<close>

definition ebda :: "mem \<Rightarrow> u32" where
  "ebda m = phys2virt (push_bit 4 (ucast (load16 m (phys2virt 0x40e))))"

definition find_rsdp :: "mem \<Rightarrow> u32" where
  "find_rsdp m =
     (let p = find_rsdp_in_region m (ebda m) 1024
      in if p = NULL then find_rsdp_in_region m (phys2virt 0xe0000) 0x1ffff else p)"

lemma acpi_find_rsdt_eq:
  "acpi_find_rsdt s = (if find_rsdp (ram s) = NULL then Some (Inr (NULL, s))
    else bindk (identity_map (rsdt_addr (ram s) (find_rsdp (ram s))) PAGE_SIZE s)
      (\<lambda>t. Some (Inr (rsdt_addr (ram s) (find_rsdp (ram s)), t))))"
  by (simp add: acpi_find_rsdt_def find_rsdp_def ebda_def Let_def)

lemma find_rsdp_region_cong:
  assumes "agrees e m m'" "kept_range e p (unat len)" "8 \<le> len"
  shows "find_rsdp_in_region m' p len = find_rsdp_in_region m p len"
proof -
  have u: "unat (len - 8) = unat len - 8" using assms(3) by (simp add: unat_sub)
  have "holds_at ''RSD PTR '' m' (p + of_nat i) = holds_at ''RSD PTR '' m (p + of_nat i)" if "i < unat len - 8" for i
    by (rule agrees_holds_at [OF assms(1) kept_range_sub [OF assms(2)]]) (use that in simp)
  then have "find (\<lambda>i. holds_at ''RSD PTR '' m' (p + of_nat i)) [0..<unat len - 8] =
      find (\<lambda>i. holds_at ''RSD PTR '' m (p + of_nat i)) [0..<unat len - 8]"
    by (intro find_cong) auto
  then show ?thesis by (simp add: find_rsdp_in_region_def rsdp_literal u)
qed

lemma kept_low:
  assumes "0xc0100000 \<le> e" "unat p + n \<le> 0xc0100000" "unat p + n \<le> 0xc00b8000 \<or> 0xc00b8fa0 \<le> unat p"
  shows "kept_range e p n"
  unfolding kept_range_def
proof (intro allI impI)
  fix k assume k: "k < n"
  then have u: "unat (p + of_nat k) = unat p + k" using assms(2) by (subst unat_add_lt) (simp_all add: of_nat_less_u32)
  define x where "x = p + of_nat k"
  have x: "unat x < 0xc0100000" "unat x < 0xc00b8000 \<or> 0xc00b8fa0 \<le> unat x" using u k assms(2,3) by (auto simp: x_def)
  have "\<not> x - 0xc00b8000 < 4000" using x by unat_arith auto
  then show "kept e (p + of_nat k)"
    using x(1) assms(1) by (simp add: kept_def in_range_def phys2virt_def KERNEL_HIGH_def word_less_nat_alt word_le_nat_alt flip: x_def)
qed

lemma find_rsdp_cong:
  assumes a: "agrees e m m'" and e: "0xc0100000 \<le> e" and "kept_range e (ebda m) 1024"
  shows "find_rsdp m' = find_rsdp m"
proof -
  have k: "kept_range e 0xc000040e 2" "kept_range e 0xc00e0000 0x1ffff" using e by (intro kept_low; simp)+
  have "load16 m' 0xc000040e = load16 m 0xc000040e"
    using agrees_byte [OF a k(1), of 0] agrees_byte [OF a k(1), of 1] by (simp add: load16_def)
  then have b: "ebda m' = ebda m" by (simp add: ebda_def phys2virt_def KERNEL_HIGH_def)
  show ?thesis
    using find_rsdp_region_cong [OF a, of "ebda m" 1024] find_rsdp_region_cong [OF a, of "0xc00e0000" "0x1ffff"] assms(3) k(2)
    by (simp add: find_rsdp_def b phys2virt_def KERNEL_HIGH_def Let_def)
qed

text \<open>\<open>n\<close> bytes at \<open>p\<close> lie in the page of \<open>a\<close>.\<close>

definition inside :: "u32 \<Rightarrow> u32 \<Rightarrow> nat \<Rightarrow> bool" where
  "inside a p n \<longleftrightarrow> unat (ROUNDDOWN a) \<le> unat p \<and> unat p + n \<le> unat (ROUNDDOWN a) + 4096"

lemma inside_mono: "inside a p n \<Longrightarrow> k \<le> n \<Longrightarrow> inside a p k"
  by (simp add: inside_def)

lemma inside_sub: "inside a p n \<Longrightarrow> unat (ROUNDDOWN a) + 4096 \<le> 2 ^ 32 - 1 \<Longrightarrow> k + j \<le> n \<Longrightarrow> inside a (p + of_nat k) j"
  by (simp add: inside_def unat_add_lt of_nat_less_u32)

lemma inside_page:
  assumes "inside a p n" "unat (ROUNDDOWN a) + 4096 \<le> 2 ^ 32 - 1" "k < n"
  shows "ROUNDDOWN (p + of_nat k) = ROUNDDOWN a"
proof -
  have u: "unat (p + of_nat k) = unat p + k" using assms by (subst unat_add_lt) (auto simp: inside_def of_nat_less_u32)
  obtain q where q: "unat (ROUNDDOWN a) = 4096 * q" using page_aligned_ROUNDDOWN [of a] by (auto simp: page_aligned_dvd)
  have "(unat p + k) div 4096 = q" using assms(1,3) q by (intro div_nat_eqI) (auto simp: inside_def)
  then show ?thesis using q by (simp add: word_unat_eq_iff unat_ROUNDDOWN u)
qed

text \<open>The root table in order: there is a root pointer, in memory that the boot keeps; it points to a table in one page of
  memory above the kernel's window on the first 4 MiB and below the kernel.\<close>

definition root_ok :: "u32 \<Rightarrow> mem \<Rightarrow> u32 \<Rightarrow> bool" where
  "root_ok e m root \<longleftrightarrow> find_rsdp m \<noteq> NULL \<and> kept_range e (ebda m) 1024 \<and> kept_range e (find_rsdp m) 20
     \<and> rsdt_addr m (find_rsdp m) = root
     \<and> 0x400000 \<le> unat (ROUNDDOWN root) \<and> unat (ROUNDDOWN root) + 8192 \<le> 0xc0000000
     \<and> inside root root (36 + 4 * table_count m root)"

text \<open>A table that the boot can read where the root table says it is: it lies in the page of the root table, the only one that is mapped,
  and its checksum is right.\<close>

definition table_ok :: "mem \<Rightarrow> u32 \<Rightarrow> nat \<Rightarrow> bool" where
  "table_ok m root i \<longleftrightarrow> inside root (sdt_entry m root i) (max 36 (unat (sdt_length m (sdt_entry m root i))))
     \<and> checksum_ok m (sdt_entry m root i)"

definition firmware_ok :: "u32 \<Rightarrow> mem \<Rightarrow> u32 \<Rightarrow> bool" where
  "firmware_ok e m root \<longleftrightarrow> root_ok e m root \<and> (\<forall>i < table_count m root. table_ok m root i)"

lemma root_okD:
  assumes "root_ok e m root"
  shows "find_rsdp m \<noteq> NULL" "rsdt_addr m (find_rsdp m) = root" "root \<noteq> NULL" "unat (ROUNDDOWN root) + 4096 \<le> 2 ^ 32 - 1"
    "inside root root (36 + 4 * table_count m root)"
  using assms by (auto simp: root_ok_def unat_ROUNDDOWN)

lemma inside_kept: "root_ok e m root \<Longrightarrow> 0xc0100000 \<le> e \<Longrightarrow> inside root p n \<Longrightarrow> kept_range e p n"
  by (rule kept_low) (auto simp: root_ok_def inside_def)

lemma root_cong:
  assumes ok: "root_ok e m root" and a: "agrees e m m'" and e: "0xc0100000 \<le> e"
  shows "find_rsdp m' = find_rsdp m" "rsdt_addr m' (find_rsdp m) = root" "table_count m' root = table_count m root"
    "\<And>i. i < table_count m root \<Longrightarrow> sdt_entry m' root i = sdt_entry m root i"
proof -
  have k: "kept_range e (ebda m) 1024" "kept_range e (find_rsdp m) 20" and r: "rsdt_addr m (find_rsdp m) = root"
    using ok by (auto simp: root_ok_def)
  have t: "kept_range e root (36 + 4 * table_count m root)" by (rule inside_kept [OF ok e root_okD(5) [OF ok]])
  show "find_rsdp m' = find_rsdp m" by (rule find_rsdp_cong [OF a e k(1)])
  show "rsdt_addr m' (find_rsdp m) = root" using agrees_load32 [OF a k(2), of 16] r by (simp add: rsdt_addr_def)
  have "sdt_length m' root = sdt_length m root" using agrees_load32 [OF a t, of 4] by (simp add: sdt_length_def)
  then show "table_count m' root = table_count m root" by (simp add: table_count_def)
  show "sdt_entry m' root i = sdt_entry m root i" if "i < table_count m root" for i
    using agrees_load32 [OF a t, of "36 + 4 * i"] that by (simp add: sdt_entry_def SDT_HEADER_SIZE_def add.assoc)
qed

lemma table_cong:
  assumes ok: "root_ok e m root" and a: "agrees e m m'" and e: "0xc0100000 \<le> e" and t: "table_ok m root i"
  shows "sdt_length m' (sdt_entry m root i) = sdt_length m (sdt_entry m root i)" "checksum_ok m' (sdt_entry m root i)"
    "\<And>sig. length sig = 4 \<Longrightarrow> holds_at sig m' (sdt_entry m root i) = holds_at sig m (sdt_entry m root i)"
proof -
  let ?t = "sdt_entry m root i"
  have k: "kept_range e ?t (max 36 (unat (sdt_length m ?t)))" using t by (intro inside_kept [OF ok e]) (simp add: table_ok_def)
  show l: "sdt_length m' ?t = sdt_length m ?t" using agrees_load32 [OF a k, of 4] by (simp add: sdt_length_def)
  show "holds_at sig m' ?t = holds_at sig m ?t" if "length sig = 4" for sig
    by (rule agrees_holds_at [OF a kept_range_mono [OF k]]) (simp add: that)
  have "(\<Sum>k < unat (sdt_length m ?t). unat (m' (?t + of_nat k))) = (\<Sum>k < unat (sdt_length m ?t). unat (m (?t + of_nat k)))"
    using agrees_byte [OF a k] by (intro sum.cong) simp_all
  then show "checksum_ok m' ?t" using t by (simp add: checksum_ok_def table_ok_def l)
qed

section \<open>What the kernel can see\<close>

text \<open>The addresses that the directory of the kernel maps: at first the window on the first 4 MiB and the page of the user
  program, then also the page of the root table.\<close>

definition sees :: "(u32 \<Rightarrow> bool) \<Rightarrow> 'a kmem_scheme \<Rightarrow> bool" where
  "sees V s \<longleftrightarrow> (\<forall>a. translate (ram s) (kernel_pgdir s) a \<noteq> None \<longleftrightarrow> V a)"

definition boot_view :: "u32 \<Rightarrow> u32 \<Rightarrow> bool" where
  "boot_view us a \<longleftrightarrow> in_range KERNEL_HIGH 0x400000 a \<or> in_range (ROUNDDOWN us) 4096 a"

definition root_view :: "u32 \<Rightarrow> u32 \<Rightarrow> u32 \<Rightarrow> bool" where
  "root_view us root a \<longleftrightarrow> boot_view us a \<or> ROUNDDOWN a = ROUNDDOWN root"

lemma sees_readable: "sees V s \<Longrightarrow> readable s p n \<longleftrightarrow> (\<forall>k<n. V (p + of_nat k))"
  unfolding sees_def readable_def by blast

lemma root_page_readable:
  assumes "sees (root_view us root) s" "inside root p n" "unat (ROUNDDOWN root) + 4096 \<le> 2 ^ 32 - 1"
  shows "readable s p n"
  using inside_page [OF assms(2,3)] by (simp add: sees_readable [OF assms(1)] root_view_def)

lemma sees_cong: "pages_in P s (kernel_pgdir s) fl \<Longrightarrow> (\<And>a. ROUNDDOWN a \<in> P \<Longrightarrow> ram t a = ram s a) \<Longrightarrow> kernel_pgdir t = kernel_pgdir s \<Longrightarrow>
    sees V s \<Longrightarrow> sees V t"
  using translate_page_cong [of P s "kernel_pgdir s" fl t] by (simp add: sees_def)

lemma sees_root:
  assumes "sees (boot_view us) s" "pt_inv s (kernel_pgdir s) fl" "identity_map root PAGE_SIZE s = Some (Inr t)"
  shows "sees (root_view us root) t"
proof -
  have "ROUNDUP PAGE_SIZE = PAGE_SIZE" by (simp add: ROUNDUP_def PAGE_SIZE_def)
  then have "in_range (ROUNDDOWN root) (ROUNDUP PAGE_SIZE) a \<longleftrightarrow> ROUNDDOWN a = ROUNDDOWN root" for a
    using in_page [OF page_aligned_ROUNDDOWN] by simp
  with assms(1) show ?thesis
    unfolding sees_def identity_map_translate(2) [OF assms(2,3)] root_view_def by simp
qed

text \<open>The checks on the tables, on a memory that agrees with the one the firmware left.\<close>

lemma root_table_readable:
  assumes ok: "root_ok e m root" and a: "agrees e m (ram s)" and e: "0xc0100000 \<le> e" and v: "sees (root_view us root) s"
  shows "root_readable s root"
proof -
  note R = root_okD [OF ok]
  have "readable s (root + of_nat 4) 4" by (rule root_page_readable [OF v inside_sub [OF R(5,4)] R(4)]) simp
  moreover have "readable s (root + of_nat (36 + 4 * i)) 4" if "i < table_count m root" for i
    by (rule root_page_readable [OF v inside_sub [OF R(5,4)] R(4)]) (use that in simp)
  ultimately show ?thesis using root_cong(3) [OF ok a e] by (simp add: root_readable_def add.assoc)
qed

lemma table_is_readable:
  assumes ok: "root_ok e m root" and a: "agrees e m (ram s)" and e: "0xc0100000 \<le> e" and v: "sees (root_view us root) s"
    and t: "table_ok m root i"
  shows "readable s (sdt_entry m root i) 4" "table_readable s (sdt_entry m root i)"
proof -
  let ?t = "sdt_entry m root i"
  note R = root_okD(4) [OF ok] and l = table_cong(1) [OF ok a e t]
  have T: "inside root ?t (max 36 (unat (sdt_length m ?t)))" using t by (simp add: table_ok_def)
  note r = root_page_readable [OF v _ R]
  show "readable s ?t 4" by (rule r [OF inside_mono [OF T]]) simp
  have "readable s (?t + of_nat 4) 4" by (rule r [OF inside_sub [OF T R]]) simp
  moreover have "readable s ?t (unat (sdt_length m ?t))" by (rule r [OF inside_mono [OF T]]) simp
  ultimately show "table_readable s ?t" by (simp add: table_readable_def l)
qed

lemma tables_accepted:
  assumes ok: "firmware_ok e m root" and a: "agrees e m (ram s)" and e: "0xc0100000 \<le> e" and v: "sees (root_view us root) s"
  shows "acpi_validate_rsdt root s = Inr ()"
proof -
  have r: "root_ok e m root" and t: "\<And>i. i < table_count m root \<Longrightarrow> table_ok m root i" using ok by (auto simp: firmware_ok_def)
  have "table_readable s (sdt_entry (ram s) root i) \<and> checksum_ok (ram s) (sdt_entry (ram s) root i)" if "i < table_count m root" for i
    using table_is_readable(2) [OF r a e v t [OF that]] table_cong(2) [OF r a e t [OF that]] root_cong(4) [OF r a e that] by simp
  then have "find (\<lambda>i. \<not> (table_readable s (sdt_entry (ram s) root i) \<and> checksum_ok (ram s) (sdt_entry (ram s) root i))) [0..<table_count m root] = None"
    by (simp add: find_upt_None)
  then show ?thesis
    unfolding acpi_validate_rsdt_result [OF root_table_readable [OF r a e v]] root_cong(3) [OF r a e] by simp
qed

text \<open>A table whose length field is outside the view of the kernel.\<close>

lemma table_faults:
  assumes ok: "root_ok e m root" and a: "agrees e m (ram s)" and e: "0xc0100000 \<le> e" and v: "sees (root_view us root) s"
    and i: "i < table_count m root" "\<forall>j<i. table_ok m root j" and k: "k < 4" "\<not> root_view us root (sdt_entry m root i + 4 + of_nat k)"
  shows "acpi_validate_rsdt root s = Inl kernel_page_fault"
proof -
  note c = root_cong(3,4) [OF ok a e]
  have "\<not> table_readable s (sdt_entry m root i)"
    using k by (auto simp: table_readable_def sees_readable [OF v])
  moreover have "table_readable s (sdt_entry (ram s) root j) \<and> checksum_ok (ram s) (sdt_entry (ram s) root j)" if "j < i" for j
    using table_is_readable(2) [OF ok a e v] table_cong(2) [OF ok a e] c(2) [of j] i that by simp
  ultimately have "find (\<lambda>i. \<not> (table_readable s (sdt_entry (ram s) root i) \<and> checksum_ok (ram s) (sdt_entry (ram s) root i))) [0..<table_count m root] = Some i"
    using i(1) c(2) [OF i(1)] by (auto simp: find_upt_Some)
  then show ?thesis
    unfolding acpi_validate_rsdt_result [OF root_table_readable [OF ok a e v]] c(1) using \<open>\<not> table_readable s _\<close> c(2) [OF i(1)] by simp
qed

section \<open>The table of interrupt controllers\<close>

text \<open>The table of interrupt controllers: the first that carries the signature; it and its entries are in the two pages
  that are mapped for it, the entries lead to its end, and it names a local and an I/O controller, whose registers are not in the
  kernel's part of the address space.\<close>

definition madt_ioapic :: "mem \<Rightarrow> u32 list \<Rightarrow> u32" where
  "madt_ioapic m ps = fold (note_ioapic m) ps NULL"

definition clear_of_kernel :: "u32 \<Rightarrow> bool" where
  "clear_of_kernel a \<longleftrightarrow> unat (ROUNDDOWN a) + 8192 \<le> 0xc0000000 \<or> 0xc0400000 \<le> unat (ROUNDDOWN a)"

definition madt_ok :: "u32 \<Rightarrow> mem \<Rightarrow> u32 \<Rightarrow> u32 \<Rightarrow> u32 list \<Rightarrow> bool" where
  "madt_ok e m root h ps \<longleftrightarrow>
     (\<exists>i < table_count m root. h = sdt_entry m root i \<and> holds_at ''APIC'' m h \<and> (\<forall>j<i. \<not> holds_at ''APIC'' m (sdt_entry m root j)))
     \<and> h \<noteq> NULL \<and> kept_range e h 44 \<and> unat h + 44 \<le> unat (ROUNDDOWN h) + 8192
     \<and> madt_chain m (h + 44) ps (h + sdt_length m h)
     \<and> (\<forall>p \<in> set ps. kept_range e p 8 \<and> unat (ROUNDDOWN h) \<le> unat p \<and> unat p + 8 \<le> unat (ROUNDDOWN h) + 8192)
     \<and> load32 m (h + 36) \<noteq> NULL \<and> madt_ioapic m ps \<noteq> NULL
     \<and> clear_of_kernel (load32 m (h + 36)) \<and> clear_of_kernel (madt_ioapic m ps)"

lemma madt_chain_cong:
  "agrees e m m' \<Longrightarrow> \<forall>p \<in> set ps. kept_range e p 8 \<Longrightarrow> madt_chain m' p ps stop = madt_chain m p ps stop"
proof (induction ps arbitrary: p)
  case (Cons q qs)
  then have "m' (q + 1) = m (q + 1)" using agrees_byte [of e m m' q 8 1] by simp
  with Cons show ?case by auto
qed simp

lemma madt_ioapic_cong:
  assumes "agrees e m m'" "\<forall>p \<in> set ps. kept_range e p 8"
  shows "madt_ioapic m' ps = madt_ioapic m ps"
proof -
  have "note_ioapic m' p = note_ioapic m p" if "p \<in> set ps" for p
    using agrees_byte [OF assms(1), of p 8 0] agrees_load32 [OF assms(1), of p 8 4] assms(2) that by (auto simp: note_ioapic_def fun_eq_iff)
  then show ?thesis unfolding madt_ioapic_def by (intro fold_cong) auto
qed

section \<open>The state between two steps of the boot\<close>

definition blank_screen :: "mem \<Rightarrow> screen" where
  "blank_screen m = (replicate 2000 0x0720 @ map (cell m (phys2virt 0xB8000)) [2000..<2080], 0)"

definition screen_after :: "mem \<Rightarrow> u8 list \<Rightarrow> screen" where
  "screen_after m log = fold (\<lambda>c. screen_put c 7) log (blank_screen m)"

definition booting :: "u32 \<Rightarrow> mem \<Rightarrow> u8 list \<Rightarrow> u32 list \<Rightarrow> 'a console_scheme \<Rightarrow> bool" where
  "booting e m log fl s \<longleftrightarrow> 0xc0100000 \<le> e \<and> pages_in (pool e) s (kernel_pgdir s) fl \<and> agrees e m (ram s) \<and> terminal_inv s
     \<and> terminal_buffer s = phys2virt 0xB8000 \<and> screen_of s = screen_after m log"

lemma bootingD:
  assumes "booting e m log fl s"
  shows "0xc0100000 \<le> e" "pages_in (pool e) s (kernel_pgdir s) fl" "agrees e m (ram s)" "terminal_inv s"
    "terminal_buffer s = phys2virt 0xB8000" "screen_of s = screen_after m log"
  using assms by (auto simp: booting_def)

lemma screen_not_pool:
  assumes "0xc0100000 \<le> e" "k < 0x1200"
  shows "ROUNDDOWN (phys2virt 0xB8000 + of_nat k) \<notin> pool e"
proof -
  have "unat (phys2virt 0xB8000 + of_nat k) = 0xc00b8000 + k"
    using assms(2) by (simp add: phys2virt_def KERNEL_HIGH_def) (subst unat_add_lt, simp_all add: of_nat_less_u32)
  then have "unat (ROUNDDOWN (phys2virt 0xB8000 + of_nat k)) < 0xc0100000"
    using assms(2) div_times_less_eq_dividend [of "0xc00b8000 + k" 4096] unfolding unat_ROUNDDOWN by simp
  then show ?thesis using assms(1) by (auto simp: pool_def word_le_nat_alt)
qed

lemma not_screen: "0xc0100000 \<le> e \<Longrightarrow> ROUNDDOWN a \<in> pool e \<Longrightarrow> \<not> in_range (phys2virt 0xB8000) 4000 a"
proof
  assume "0xc0100000 \<le> e" "ROUNDDOWN a \<in> pool e" "in_range (phys2virt 0xB8000) 4000 a"
  then show False using screen_not_pool [of e "unat (a - phys2virt 0xB8000)"] by (simp add: in_range_def word_less_nat_alt)
qed

lemma console_fields:
  assumes "kmem.more (t :: 'a console_scheme) = kmem.more s"
  shows "terminal_row t = terminal_row s" "terminal_column t = terminal_column s" "terminal_buffer t = terminal_buffer s"
  using assms by (cases s, cases t, simp)+

lemma booting_kmem:
  assumes b: "booting e m log fl s" and t: "pages_in (pool e) t (kernel_pgdir t) fl'"
    and o: "same_outside (pool e) (ram s) (ram t)" and more: "kmem.more t = kmem.more s"
  shows "booting e m log fl' t"
proof -
  note B = bootingD [OF b] and F = console_fields [OF more]
  have "screen_of t = screen_of s"
    using screen_not_pool [OF B(1)] o B(5) by (intro screen_cong) (simp_all add: F same_outside_def)
  moreover have "agrees e m (ram t)" using agrees_trans [OF B(3) same_outside_agrees [OF o]] .
  ultimately show ?thesis using B t by (simp add: booting_def F terminal_inv_def)
qed

lemma booting_identity_map:
  assumes b: "booting e m log fl s" and n: "sz = PAGE_SIZE \<and> n = 1 \<or> sz = 2 * PAGE_SIZE \<and> n = 2" "n \<le> length fl"
  obtains t fl' where "identity_map addr sz s = Some (Inr t)" "booting e m log fl' t" "length fl \<le> length fl' + n" "kmem.more t = kmem.more s"
  using identity_map_pages [OF bootingD(2) [OF b] n, of addr] booting_kmem [OF b] by blast

lemma booting_cong:
  assumes b: "booting e m log fl s" and eq: "console.truncate t = console.truncate s"
  shows "booting e m log fl t"
proof -
  have f: "ram t = ram s" "freelist_head t = freelist_head s" "kernel_pgdir t = kernel_pgdir s" "terminal_row t = terminal_row s"
    "terminal_column t = terminal_column s" "terminal_buffer t = terminal_buffer s"
    using eq by (auto simp: console.truncate_def)
  then have "screen_of t = screen_of s" by (simp add: screen_of_def cursor_def)
  with f b pages_in_cong [OF bootingD(2) [OF b], of t] show ?thesis by (simp add: booting_def terminal_inv_def)
qed

lemma booting_write:
  assumes b: "booting e m log fl s"
  shows "booting e m (log @ out) fl (terminal_write out 7 s)"
proof -
  note B = bootingD [OF b]
  let ?t = "terminal_write out 7 s"
  have k: "kernel_pgdir ?t = kernel_pgdir s" "freelist_head ?t = freelist_head s"
    using terminal_write_rest(1) [of out 7 s] by (auto simp: kmem.truncate_def)
  have out: "ram ?t a = ram s a" if "\<not> in_range (phys2virt 0xB8000) 4000 a" for a
    using terminal_write_outside [OF B(4)] that B(5) by simp
  have "pages_in (pool e) ?t (kernel_pgdir ?t) fl"
    unfolding k(1) using out k(2) not_screen [OF B(1)] by (intro pages_in_cong [OF B(2)]) auto
  moreover have "agrees e m (ram ?t)" using B(3) out by (auto simp: agrees_def kept_def)
  ultimately show ?thesis
    using B terminal_write_inv [OF B(4), of out 7]
    by (simp add: booting_def terminal_write_buffer terminal_write_screen screen_after_def)
qed

lemma sees_write:
  assumes b: "booting e m log fl s" and v: "sees V s"
  shows "sees V (terminal_write out 7 s)"
proof (rule sees_cong [OF bootingD(2) [OF b] _ _ v])
  note B = bootingD [OF b]
  show "kernel_pgdir (terminal_write out 7 s) = kernel_pgdir s" using terminal_write_rest(1) [of out 7 s] by (auto simp: kmem.truncate_def)
  show "ram (terminal_write out 7 s) a = ram s a" if "ROUNDDOWN a \<in> pool e" for a
    using terminal_write_outside [OF B(4)] not_screen [OF B(1) that] B(5) by simp
qed

section \<open>The steps\<close>

lemma terminal_clear_rest:
  "kernel_pgdir (terminal_clear c s) = kernel_pgdir s" "freelist_head (terminal_clear c s) = freelist_head s"
proof -
  define same where "same t \<longleftrightarrow> kernel_pgdir t = kernel_pgdir s \<and> freelist_head t = freelist_head s" for t :: "'a console_scheme"
  have row: "same t \<Longrightarrow> same (fold (clear_cell c y) xs t)" for y xs t
    by (induction xs arbitrary: t) (simp_all add: same_def clear_cell_def Let_def)
  have rows: "same t \<Longrightarrow> same (fold (\<lambda>y. fold (clear_cell c y) xs) ys t)" for xs ys t
    by (induction ys arbitrary: t) (simp_all add: row)
  have "same (terminal_clear c s)" unfolding terminal_clear_def by (rule rows) (simp add: same_def)
  then show "kernel_pgdir (terminal_clear c s) = kernel_pgdir s" "freelist_head (terminal_clear c s) = freelist_head s"
    by (simp_all add: same_def)
qed

lemma booting_console:
  assumes e: "0xc0100000 \<le> e" and P: "pages_in (pool e) s (kernel_pgdir s) fl" and a: "agrees e m (ram s)"
  shows "booting e m [] fl (terminal_clear 7 (s\<lparr>terminal_row := 0, terminal_column := 0, terminal_buffer := phys2virt 0xB8000\<rparr>))"
    "sees V s \<Longrightarrow> sees V (terminal_clear 7 (s\<lparr>terminal_row := 0, terminal_column := 0, terminal_buffer := phys2virt 0xB8000\<rparr>))"
proof -
  let ?b = "s\<lparr>terminal_row := 0, terminal_column := 0, terminal_buffer := phys2virt 0xB8000\<rparr>"
  let ?t = "terminal_clear 7 ?b"
  have out: "ram ?t a = ram s a" if "\<not> in_range (phys2virt 0xB8000) 4000 a" for a
    using terminal_clear_outside [of ?b a 7] that by simp
  have "pages_in (pool e) ?t (kernel_pgdir s) fl"
    using out not_screen [OF e] by (intro pages_in_cong [OF P]) (auto simp: terminal_clear_rest)
  moreover have ag: "agrees e m (ram ?t)" using a out by (auto simp: agrees_def kept_def)
  moreover have "screen_of ?t = blank_screen m"
  proof -
    have "cell (ram s) (phys2virt 0xB8000) i = cell m (phys2virt 0xB8000) i" if "2000 \<le> i" "i < 2080" for i
    proof -
      have "kept_range e (phys2virt 0xB8000 + of_nat 4000) 160" using e by (intro kept_low) (simp_all add: phys2virt_def KERNEL_HIGH_def)
      from agrees_byte [OF a this, of "2 * i - 4000"] agrees_byte [OF a this, of "2 * i - 4000 + 1"] that show ?thesis
        by (simp add: cell_def load16_def add.assoc add.commute [of 1] flip: of_nat_add)
    qed
    then show ?thesis
      using terminal_clear_cells(3) [of 7 ?b] by (simp add: blank_screen_def screen_of_def cursor_def drop_map vga_entry_def)
  qed
  moreover have "terminal_inv ?t" unfolding terminal_clear_cells by (simp add: terminal_inv_def VGA_HEIGHT_def VGA_WIDTH_def)
  ultimately show "booting e m [] fl ?t" using e by (simp add: booting_def terminal_clear_rest terminal_clear_cells screen_after_def)
  show "sees V ?t" if v: "sees V s"
  proof (rule sees_cong [OF P _ _ v])
    show "ram ?t a = ram s a" if "ROUNDDOWN a \<in> pool e" for a by (rule out [OF not_screen [OF e that]])
    show "kernel_pgdir ?t = kernel_pgdir s" by (simp add: terminal_clear_rest)
  qed
qed

lemma boot_start:
  fixes s :: "'a kbd_scheme"
  assumes e: "0xc0100000 \<le> e" "unat e + 4096 * (3 + n) \<le> 0xc03ff000"
    and bus: "bus_inv (ebus s)" "callbacks_count (ebus s) < CALLBACKS_MAX_COUNT"
  obtains s1 s2 bus' fl where "init_kernel_paging us (init_kalloc_early e s) = Some (Inr s1)"
    "terminal_initialize hk (ebus s1) s1 = Inr (bus', s2)" "booting e (ram s) [] fl s2" "n \<le> length fl" "sees (boot_view us) s2"
    "active bus' = active (ebus s) @ [\<lparr>cb_event_type = EVENT_KEY_PRESS, callback = hk, arg = NULL\<rparr>]"
    "console.more s2 = console.more s"
proof -
  have "KERNEL_HIGH < e" "e \<le> 0xc0400000" using e by (simp_all add: KERNEL_HIGH_def word_less_nat_alt word_le_nat_alt)
  from init_kalloc_early_pages [OF this e(2)] obtain fl0 where
    k: "kalloc_rep (init_kalloc_early e s) fl0" "set fl0 \<subseteq> pool e" "3 + n \<le> length fl0"
      "same_outside (pool e) (ram s) (ram (init_kalloc_early e s))" by blast
  have m0: "kmem.more (init_kalloc_early e s) = kmem.more s" by (simp add: init_kalloc_early_def init_kalloc_loop_more)
  from init_kernel_paging_pages [OF k(1-3), of us] obtain s1 fl where
    s1: "init_kernel_paging us (init_kalloc_early e s) = Some (Inr s1)" "pages_in (pool e) s1 (kernel_pgdir s1) fl" "n \<le> length fl"
      "same_outside (pool e) (ram (init_kalloc_early e s)) (ram s1)" "kmem.more s1 = kmem.more s" unfolding m0 by blast
  have v1: "sees (boot_view us) s1"
  proof -
    have "3 \<le> length fl0" using k(3) by simp
    from init_kernel_paging_walk [OF k(1) this, of us] obtain t where t: "init_kernel_paging us (init_kalloc_early e s) = Some (Inr t)"
      "\<forall>va. translate (ram t) (kernel_pgdir t) va =
        (if in_range KERNEL_HIGH 0x400000 va \<or> in_range (ROUNDDOWN us) 4096 va then Some (virt2phys va) else None)" by blast
    have "t = s1" using t(1) s1(1) by simp
    with t(2) show ?thesis by (simp add: sees_def boot_view_def)
  qed
  have ag: "agrees e (ram s) (ram s1)" by (rule same_outside_agrees [OF same_outside_trans [OF k(4) s1(4)]])
  have up: "ebus s1 = ebus s" "console.more s1 = console.more s" using s1(5) by (cases s, cases s1, simp)+
  let ?t = "terminal_clear 7 (s1\<lparr>terminal_row := 0, terminal_column := 0, terminal_buffer := phys2virt 0xB8000\<rparr>)"
  from terminal_initialize_eq [OF bus, of hk s1] obtain bus' where "terminal_initialize hk (ebus s1) s1 = Inr (bus', ?t)"
    "active bus' = active (ebus s) @ [\<lparr>cb_event_type = EVENT_KEY_PRESS, callback = hk, arg = NULL\<rparr>]" unfolding up by blast
  moreover have "console.more ?t = console.more s" using up(2) by (simp add: terminal_clear_more)
  ultimately show ?thesis using that [OF s1(1) _ booting_console(1) [OF e(1) s1(2) ag] s1(3) booting_console(2) [OF e(1) s1(2) ag v1]] by blast
qed

text \<open>\<open>print_mmap\<close>, on boot information that the boot keeps and that lies in the kernel's window on the first 4 MiB.\<close>

definition mmap_log :: "mem \<Rightarrow> u32 \<Rightarrow> u8 list" where
  "mmap_log m p = mmap_header
     @ (if 0 < load32 m p AND 1 then mem_line m p else [])
     @ (if 0 < load32 m p AND 64
        then mmap_lines m (phys2virt (load32 m (p + 48))) ((unat (load32 m (p + 44)) + 23) div 24) else [])"

definition in_window :: "u32 \<Rightarrow> nat \<Rightarrow> bool" where
  "in_window p n \<longleftrightarrow> 0xc0000000 \<le> unat p \<and> unat p + n \<le> 0xc0400000"

definition boot_info_ok :: "u32 \<Rightarrow> mem \<Rightarrow> u32 \<Rightarrow> bool" where
  "boot_info_ok e m p \<longleftrightarrow> kept_range e p 52 \<and> in_window p 52
     \<and> (let a = phys2virt (load32 m (p + 48)); n = 24 * ((unat (load32 m (p + 44)) + 23) div 24)
        in kept_range e a n \<and> in_window a n)"

lemma kept_off_screen: "terminal_buffer s = phys2virt 0xB8000 \<Longrightarrow> kept_range e p n \<Longrightarrow> off_screen p n s"
  by (simp add: kept_range_def kept_def off_screen_def)

lemma boot_print_mmap:
  assumes b: "booting e m log fl s" and i: "boot_info_ok e m (phys2virt mbd)"
  shows "print_mmap mbd s = Some (Inr (terminal_write (mmap_log m (phys2virt mbd)) 7 s))"
proof -
  let ?p = "phys2virt mbd"
  let ?a = "phys2virt (load32 m (?p + 48))" and ?L = "unat (load32 m (?p + 44))"
  note B = bootingD [OF b]
  have k: "kept_range e ?p 52" "unat ?a + ?L + 24 < 2 ^ 32" "kept_range e ?a (24 * ((?L + 23) div 24))"
    using i by (auto simp: boot_info_ok_def in_window_def Let_def)
  note L = agrees_load32 [OF B(3) k(1)]
  have l: "load32 (ram s) ?p = load32 m ?p" "load32 (ram s) (?p + 4) = load32 m (?p + 4)" "load32 (ram s) (?p + 8) = load32 m (?p + 8)"
    "load32 (ram s) (?p + 44) = load32 m (?p + 44)" "load32 (ram s) (?p + 48) = load32 m (?p + 48)"
    using L [of 0] L [of 4] L [of 8] L [of 44] L [of 48] by simp_all
  have "mmap_lines (ram s) ?a ((?L + 23) div 24) = mmap_lines m ?a ((?L + 23) div 24)"
    using agrees_byte [OF B(3) k(3)] by (intro mmap_lines_cong) simp
  then show ?thesis
    using print_mmap_output [OF B(4) refl kept_off_screen [OF B(5) k(1)], of ?a ?L] k(2) kept_off_screen [OF B(5) k(3)]
    by (simp add: l mmap_log_def mem_line_def)
qed

lemma boot_find_rsdt:
  assumes b: "booting e m log fl s" and f: "root_ok e m root" and n: "1 \<le> length fl" and v: "sees (boot_view us) s"
  obtains t fl' where "acpi_find_rsdt s = Some (Inr (root, t))" "booting e m log fl' t" "length fl \<le> length fl' + 1" "kmem.more t = kmem.more s"
    "sees (root_view us root) t"
proof -
  note c = root_cong(1,2) [OF f bootingD(3,1) [OF b]] and nz = root_okD(1) [OF f]
  obtain t fl' where t: "identity_map root PAGE_SIZE s = Some (Inr t)" "booting e m log fl' t" "length fl \<le> length fl' + 1"
    "kmem.more t = kmem.more s" using booting_identity_map [OF b _ n, of PAGE_SIZE] by blast
  have "pt_inv s (kernel_pgdir s) fl" using bootingD(2) [OF b] by (simp add: pages_in_def)
  from sees_root [OF v this t(1)] show ?thesis using that [of t fl'] t c nz by (simp add: acpi_find_rsdt_eq)
qed

lemma apic_setup_frame:
  "console.truncate (apic_setup s) = console.truncate s" "lapic_ptr (apic_setup s) = lapic_ptr s" "ioapic_ptr (apic_setup s) = ioapic_ptr s"
  by (simp_all add: apic_setup_def Let_def lapic_write_eq ioapic_enable_def ioapic_write_eq outb_def io_def console.truncate_def)

lemma boot_find_madt:
  assumes b: "booting e m log fl s" and f: "firmware_ok e m root" and md: "madt_ok e m root h ps" and n: "2 \<le> length fl"
    and v: "sees (root_view us root) s"
  obtains t fl' where "acpi_find_sdt root ''APIC'' s = Some (Inr (h, t))" "booting e m log fl' t" "length fl \<le> length fl' + 2"
    "kmem.more t = kmem.more s"
proof -
  have r: "root_ok e m root" and tb: "\<And>i. i < table_count m root \<Longrightarrow> table_ok m root i" using f by (auto simp: firmware_ok_def)
  note A = bootingD(3,1) [OF b]
  note c = root_cong(3,4) [OF r A] and rd = root_table_readable [OF r A v]
  from md obtain i where i: "i < table_count m root" "h = sdt_entry m root i" "holds_at ''APIC'' m h"
    "\<forall>j<i. \<not> holds_at ''APIC'' m (sdt_entry m root j)" by (auto simp: madt_ok_def)
  have "readable s (sdt_entry (ram s) root j) 4" if "j < table_count m root" for j
    using table_is_readable(1) [OF r A v tb [OF that]] c(2) [OF that] by simp
  then have rt: "\<forall>j < table_count (ram s) root. readable s (sdt_entry (ram s) root j) 4" by (simp add: c(1))
  have "holds_at ''APIC'' (ram s) (sdt_entry (ram s) root j) = holds_at ''APIC'' m (sdt_entry m root j)" if "j < table_count m root" for j
    using table_cong(3) [OF r A tb [OF that], of "''APIC''"] c(2) [OF that] by simp
  with i have "find (\<lambda>j. holds_at ''APIC'' (ram s) (sdt_entry (ram s) root j)) [0..<table_count m root] = Some i"
    by (auto simp: find_upt_Some)
  moreover obtain t fl' where "identity_map h (2 * PAGE_SIZE) s = Some (Inr t)" "booting e m log fl' t" "length fl \<le> length fl' + 2"
    "kmem.more t = kmem.more s" using booting_identity_map [OF b _ n, of "2 * PAGE_SIZE"] by blast
  ultimately show ?thesis
    using that [of t fl'] i(1,2) c(2) [OF i(1)] acpi_find_sdt_eq [OF _ rd rt, of "''APIC''"] by (simp add: c(1) PAGE_SIZE_def)
qed

lemma boot_apic_init:
  fixes s :: "'a apic_scheme"
  assumes b: "booting e m log fl s" and f: "firmware_ok e m root" and md: "madt_ok e m root h ps"
    and n: "6 \<le> length fl" and io: "ioapic_ptr s = NULL" and v: "sees (root_view us root) s"
  obtains t fl' where "apic_init root s = Some (Inr t)" "booting e m log fl' t" "length fl \<le> length fl' + 6"
    "lapic_ptr t = load32 m (h + 36)" "ioapic_ptr t = madt_ioapic m ps" "apic.more t = apic.more s"
proof -
  have n2: "2 \<le> length fl" using n by simp
  obtain s1 fl1 where s1: "acpi_find_sdt root ''APIC'' s = Some (Inr (h, s1))" "booting e m log fl1 s1" "length fl \<le> length fl1 + 2"
    "kmem.more s1 = kmem.more s" by (rule boot_find_madt [OF b f md n2 v])
  have M: "h \<noteq> NULL" "kept_range e h 44" "madt_chain m (h + 44) ps (h + sdt_length m h)" "\<forall>p \<in> set ps. kept_range e p 8"
    "load32 m (h + 36) \<noteq> NULL" "madt_ioapic m ps \<noteq> NULL" using md by (auto simp: madt_ok_def)
  note A = bootingD(3) [OF s1(2)]
  have l: "load32 (ram s1) (h + 36) = load32 m (h + 36)" "sdt_length (ram s1) h = sdt_length m h"
    using agrees_load32 [OF A M(2), of 36] agrees_load32 [OF A M(2), of 4] by (simp_all add: sdt_length_def)
  have io1: "ioapic_ptr s1 = NULL" using s1(4) io by (cases s, cases s1) simp
  have "madt_loop (ram s1) (h + sdt_length m h) (h + 44) NULL = Some (madt_ioapic m ps)"
    using madt_loop_chain [of "ram s1" "h + 44" ps "h + sdt_length m h" NULL] madt_chain_cong [OF A M(4)] M(3) madt_ioapic_cong [OF A M(4)] by (simp add: madt_ioapic_def)
  note ml = this
  let ?s = "s1\<lparr>lapic_ptr := load32 m (h + 36), ioapic_ptr := madt_ioapic m ps\<rparr>"
  have b2: "booting e m log fl1 ?s" by (rule booting_cong [OF s1(2)]) (simp add: console.truncate_def)
  have "2 \<le> length fl1" using s1(3) n by simp
  then obtain s2 fl2 where s2: "identity_map (load32 m (h + 36)) (2 * PAGE_SIZE) ?s = Some (Inr s2)" "booting e m log fl2 s2"
    "length fl1 \<le> length fl2 + 2" "kmem.more s2 = kmem.more ?s"
    using booting_identity_map [OF b2, of "2 * PAGE_SIZE" 2] by blast
  have "2 \<le> length fl2" using s1(3) s2(3) n by simp
  then obtain s3 fl3 where s3: "identity_map (madt_ioapic m ps) (2 * PAGE_SIZE) s2 = Some (Inr s3)" "booting e m log fl3 s3"
    "length fl2 \<le> length fl3 + 2" "kmem.more s3 = kmem.more s2"
    using booting_identity_map [OF s2(2), of "2 * PAGE_SIZE" 2] by blast
  have p2: "ioapic_ptr s2 = madt_ioapic m ps" using s2(4) by (cases s1, cases s2) simp
  have p3: "lapic_ptr s3 = load32 m (h + 36)" "ioapic_ptr s3 = madt_ioapic m ps"
    using s2(4) s3(4) by (cases s1, cases s2, cases s3, simp)+
  have res: "apic_init root s = Some (Inr (apic_setup s3))"
    using s1(1) M(1,5,6) l ml io1 s2(1) p2 s3(1) by (simp add: apic_init_def Let_def)
  show ?thesis
    by (rule that [OF res booting_cong [OF s3(2) apic_setup_frame(1)] _ _ _ apic_init_more [OF res]])
       (use s1(3) s2(3) s3(3) p3 in \<open>simp_all add: apic_setup_frame\<close>)
qed

text \<open>The interval timer answers: whatever has been done so far, polling its gate port sees the output
  bit low after some time.\<close>

definition pit_answers :: "device \<Rightarrow> bool" where
  "pit_answers hw \<longleftrightarrow> (\<forall>log. \<exists>n. (ucast (hw (replicate (Suc n) (In8 0x61) @ log)) :: u8) AND 0x20 = 0)"

lemma boot_calibrate:
  fixes s :: "'a apic_scheme"
  assumes "pit_answers hw"
  obtains t where "calibrate_apic_timer hw s = Some (Inr t)" "console.truncate t = console.truncate s"
    "lapic_ptr t = lapic_ptr s" "ioapic_ptr t = ioapic_ptr s" "apic.more t = apic.more s"
proof -
  let ?w = "wait_start hw s"
  obtain k where "\<not> out2_high hw ?w k" using assms by (auto simp: pit_answers_def out2_high_def polls_def)
  then obtain n where n: "\<not> out2_high hw ?w n" "\<forall>k<n. out2_high hw ?w k"
    using exists_least_iff [of "\<lambda>n. \<not> out2_high hw ?w n"] by blast
  note res = calibrate_apic_timer_eq [OF n]
  have w: "console.truncate ?w = console.truncate s" "lapic_ptr ?w = lapic_ptr s" "ioapic_ptr ?w = ioapic_ptr s"
    by (simp_all add: wait_start_def pit_prepare_10ms pit_gate_def lapic_write_eq io_defs Let_def console.truncate_def)
  show ?thesis
    by (rule that [OF res _ _ _ calibrate_more [OF res]])
       (use w in \<open>simp_all add: lapic_write_eq lapic_read_def mmio_read_def io_def polls_def Let_def console.truncate_def\<close>)
qed

lemma boot_scheduler:
  fixes s :: "'a sched_scheme"
  assumes b: "booting e m log fl s" "1 \<le> length fl"
    and ts: "length (tasks s) = MAX_TASKS" "\<forall>i<MAX_TASKS. state (tasks s ! i) = TASK_NOT_ALLOCATED"
  obtains t where "scheduler_boot ju ti uf s = Inr (Scan 0 False, t)" "screen_of t = screen_after m log"
    "lapic_ptr t = lapic_ptr s" "ioapic_ptr t = ioapic_ptr s" "ebus t = ebus s"
proof -
  note B = bootingD [OF b(1)]
  obtain p ps where fl: "fl = p # ps" using b(2) by (cases fl) auto
  have rep: "kalloc_rep s (p # ps)" and p: "p \<in> pool e" using B(2) by (auto simp: pages_in_def pt_inv_def fl)
  then have k: "kalloc s = (p, s\<lparr>freelist_head := load32 (ram s) p\<rparr>)" "p \<noteq> NULL" "page_aligned p"
    by (auto simp: kalloc_def kalloc_rep_def)
  have nz: "0 < length (tasks s)" using ts(1) by (simp add: MAX_TASKS_def)
  have "find (\<lambda>i. state (tasks s ! i) = TASK_NOT_ALLOCATED) [0..<MAX_TASKS] = Some 0"
    using ts(2) by (simp add: find_upt_Some MAX_TASKS_def)
  note al = task_setup_ok [OF nz k(1,2), of ju ti] this
  define t where "t = s\<lparr>freelist_head := load32 (ram s) p, ram := store32 (setup_frame ju ti (p + 4036) (ram s)) (p + 4076) uf,
    tasks := (tasks s)[0 := (tasks s ! 0)\<lparr>pid := 1, state := TASK_RUNNING, kstack := p,
      regs_ptr := p + 4036, ctx := zero_ctx\<lparr>c_esp := p + 4028, c_ebp := p + 4028\<rparr>\<rparr>]\<rparr>"
  have res: "scheduler_boot ju ti uf s = Inr (Scan 0 False, t)"
    using al nz by (simp add: scheduler_boot_def task_allocate_def t_def add.assoc)
  have "ram t a = ram s a" if "ROUNDDOWN a \<notin> pool e" for a
  proof -
    have "\<not> in_range p 4096 a" using that p in_page [OF k(3), of a] by (auto simp: PAGE_SIZE_def)
    then have "\<not> in_range (p + 4076) 4 a" "\<not> in_range (p + 4036 - 8) 68 a"
      using in_range_sub [of p 4076 4 a 4096] in_range_sub [of p 4028 68 a 4096] by (auto simp: add.commute [of _ p])
    then show ?thesis by (simp add: t_def store32_frame setup_frame_frame)
  qed
  then have "screen_of t = screen_of s"
    using screen_not_pool [OF B(1)] B(5) by (intro screen_cong) (simp_all add: t_def)
  with res B(6) show ?thesis by (intro that [of t]) (simp_all add: t_def)
qed

section \<open>From power-on to the scheduler\<close>

definition fresh_kernel :: "'a kernel_scheme \<Rightarrow> bool" where
  "fresh_kernel s \<longleftrightarrow> length (tasks s) = MAX_TASKS \<and> (\<forall>i<MAX_TASKS. state (tasks s ! i) = TASK_NOT_ALLOCATED) \<and> current s = None
     \<and> req_queue s = NULL \<and> length (GDT (gdts s)) = 6 \<and> bus_inv (ebus s) \<and> callbacks_count (ebus s) < CALLBACKS_MAX_COUNT
     \<and> ioapic_ptr s = NULL \<and> kbd_inv s"

definition boot_log :: "mem \<Rightarrow> u32 \<Rightarrow> u32 \<Rightarrow> u8 list" where
  "boot_log m mbd root = mmap_log m (phys2virt mbd) @ bytes ''RSDT found at '' @ num 16 (unat root) @ [10] @ bytes ''Hell OS is loaded\<newline>''"

lemma format_boot:
  "format (c_string (bytes ''RSDT found at %x\<newline>'')) [VWord a] = Inr (bytes ''RSDT found at '' @ num 16 (unat a) @ [10])"
  "format (c_string (bytes ''Hell OS is loaded\<newline>'')) [] = Inr (bytes ''Hell OS is loaded\<newline>'')"
  by (simp_all add: bytes_def c_string_def spec_directive_def spec_word_def)

lemma boot_printk:
  "printk ''RSDT found at %x\<newline>'' [VWord a] s = Inr (terminal_write (bytes ''RSDT found at '' @ num 16 (unat a) @ [10]) 7 s)"
  "printk ''Hell OS is loaded\<newline>'' [] s = Inr (terminal_write (bytes ''Hell OS is loaded\<newline>'') 7 s)"
  by (simp_all add: printk_def vprintk_eq format_boot tty.emit_def del: terminal_write_append)

text \<open>The second half of \<open>kernel_main\<close>, from the search for the root table on.\<close>

definition after_mmap :: "device \<Rightarrow> linker \<Rightarrow> 'a kernel_scheme \<Rightarrow> (sched_pc \<times> 'a kernel_scheme) result option" where
  "after_mmap hw ld s =
     bindk (acpi_find_rsdt s) (\<lambda>(rsdt, s).
       if rsdt = NULL then Some (Inl (Panic ''RSDT not found!''))
       else
         bindk (Some (printk ''RSDT found at %x\<newline>'' [VWord rsdt] s)) (\<lambda>s.
         bindk (Some (acpi_validate_rsdt rsdt s)) (\<lambda>_.
         bindk (apic_init rsdt s) (\<lambda>s.
         bindk (calibrate_apic_timer hw s) (\<lambda>s.
         bindk (Some (printk ''Hell OS is loaded\<newline>'' [] s)) (\<lambda>s.
         Some (scheduler_boot (jump_userspace ld) (task_init_ptr ld) (userspace_fn ld) s)))))))"

lemma kbd_fields:
  assumes "apic.more (t :: 'a kbd_scheme) = apic.more s"
  shows "ebus t = ebus s" "kbd.more t = kbd.more s"
  using assms by (cases s, cases t, simp)+

lemma kmem_apic_fields:
  assumes "kmem.more (t :: 'a apic_scheme) = kmem.more s \<or> console.more t = console.more s"
  shows "ioapic_ptr t = ioapic_ptr s" "lapic_ptr t = lapic_ptr s" "apic.more t = apic.more s"
  using assms by (cases s, cases t, auto)+

lemma after_mmap_runs:
  fixes s :: "'a kernel_scheme"
  assumes b: "booting e m log fl s" "8 \<le> length fl" and f: "firmware_ok e m root" "madt_ok e m root h ps"
    and io: "ioapic_ptr s = NULL" and hw: "pit_answers hw" and v: "sees (boot_view us) s"
  obtains u fl' where "after_mmap hw ld s = Some (scheduler_boot (jump_userspace ld) (task_init_ptr ld) (userspace_fn ld) u)"
    "booting e m (log @ bytes ''RSDT found at '' @ num 16 (unat root) @ [10] @ bytes ''Hell OS is loaded\<newline>'') fl' u" "1 \<le> length fl'"
    "apic.more u = apic.more s" "lapic_ptr u = load32 m (h + 36)" "ioapic_ptr u = madt_ioapic m ps"
proof -
  let ?found = "bytes ''RSDT found at '' @ num 16 (unat root) @ [10]" and ?loaded = "bytes ''Hell OS is loaded\<newline>''"
  have n1: "1 \<le> length fl" using b(2) by simp
  have r: "root_ok e m root" using f(1) by (simp add: firmware_ok_def)
  obtain s1 fl1 where s1: "acpi_find_rsdt s = Some (Inr (root, s1))" "booting e m log fl1 s1" "length fl \<le> length fl1 + 1"
    "kmem.more s1 = kmem.more s" "sees (root_view us root) s1" by (rule boot_find_rsdt [OF b(1) r n1 v])
  let ?s2 = "terminal_write ?found 7 s1"
  have b2: "booting e m (log @ ?found) fl1 ?s2" by (rule booting_write [OF s1(2)])
  note more2 = terminal_write_rest(2) [of ?found 7 s1]
  note see2 = sees_write [OF s1(2,5), of ?found]
  note v2 = tables_accepted [OF f(1) bootingD(3,1) [OF b2] see2]
  have io2: "ioapic_ptr ?s2 = NULL" using kmem_apic_fields(1) [of s1 s] kmem_apic_fields(1) [of ?s2 s1] s1(4) more2 io by simp
  have n2: "6 \<le> length fl1" using b(2) s1(3) by simp
  obtain s3 fl3 where s3: "apic_init root ?s2 = Some (Inr s3)" "booting e m (log @ ?found) fl3 s3" "length fl1 \<le> length fl3 + 6"
    "lapic_ptr s3 = load32 m (h + 36)" "ioapic_ptr s3 = madt_ioapic m ps" "apic.more s3 = apic.more ?s2"
    by (rule boot_apic_init [OF b2 f n2 io2 see2])
  obtain s4 where s4: "calibrate_apic_timer hw s3 = Some (Inr s4)" "console.truncate s4 = console.truncate s3"
    "lapic_ptr s4 = lapic_ptr s3" "ioapic_ptr s4 = ioapic_ptr s3" "apic.more s4 = apic.more s3" by (rule boot_calibrate [OF hw])
  let ?s5 = "terminal_write ?loaded 7 s4"
  have b5: "booting e m ((log @ ?found) @ ?loaded) fl3 ?s5" by (rule booting_write [OF booting_cong [OF s3(2) s4(2)]])
  have more: "apic.more ?s5 = apic.more s" "lapic_ptr ?s5 = lapic_ptr s4" "ioapic_ptr ?s5 = ioapic_ptr s4"
    using kmem_apic_fields [of ?s5 s4] kmem_apic_fields [of ?s2 s1] kmem_apic_fields [of s1 s] terminal_write_rest(2) [of ?loaded 7 s4]
      more2 s1(4) s3(6) s4(5) by simp_all
  note nn = root_okD(3) [OF r]
  have res: "after_mmap hw ld s = Some (scheduler_boot (jump_userspace ld) (task_init_ptr ld) (userspace_fn ld) ?s5)"
    using s1(1) nn v2 s3(1) s4(1) by (simp only: after_mmap_def boot_printk bindk_simps prod.case if_False)
  show ?thesis using that [OF res _ _ more(1)] b5 more(2,3) s3(3-5) s4(3,4) s1(3) b(2) by simp
qed

text \<open>What the steps before the search for the tables leave, and then those before the scheduler.\<close>

lemma kernel_main_to_tables:
  fixes s :: "'a kernel_scheme"
  assumes s: "fresh_kernel s" and e: "0xc0100000 \<le> KERNEL_END ld" "unat (KERNEL_END ld) + 4096 * 11 \<le> 0xc03ff000"
    and i: "boot_info_ok (KERNEL_END ld) (ram s) (phys2virt mbd)"
  obtains t fl g bus where "kernel_main hw ld st mbd s = after_mmap hw ld t"
    "booting (KERNEL_END ld) (ram s) (mmap_log (ram s) (phys2virt mbd)) fl t" "8 \<le> length fl" "sees (boot_view (USERSPACE_START ld)) t"
    "ioapic_ptr t = NULL" "ebus t = bus" "kbd.more t = kbd.more (s\<lparr>gdts := g, idts := init_idt st (IDT_addr ld) (idts s)\<rparr>)"
    "active bus = active (ebus s) @ [\<lparr>cb_event_type = EVENT_KEY_PRESS, callback = handle_keypress_ptr ld, arg = NULL\<rparr>]"
proof -
  let ?e = "KERNEL_END ld" and ?m = "ram s"
  have "length (GDT (gdts s)) = 6" using s by (simp add: fresh_kernel_def)
  then obtain g where g: "init_gdt (TSS_addr ld) (GDT_addr ld) (gdts s) = Inr g" using init_gdt_result by blast
  define s0 where "s0 = s\<lparr>gdts := g, idts := init_idt st (IDT_addr ld) (idts s)\<rparr>"
  have s0: "ram s0 = ?m" "ebus s0 = ebus s" "ioapic_ptr s0 = NULL" "bus_inv (ebus s0)" "callbacks_count (ebus s0) < CALLBACKS_MAX_COUNT"
    using s by (simp_all add: s0_def fresh_kernel_def)
  have e': "unat ?e + 4096 * (3 + 8) \<le> 0xc03ff000" using e(2) by simp
  obtain s1 s2 bus fl where s1: "init_kernel_paging (USERSPACE_START ld) (init_kalloc_early ?e s0) = Some (Inr s1)"
    and s2: "terminal_initialize (handle_keypress_ptr ld) (ebus s1) s1 = Inr (bus, s2)" "booting ?e ?m [] fl s2" "8 \<le> length fl"
      "sees (boot_view (USERSPACE_START ld)) s2"
      "active bus = active (ebus s) @ [\<lparr>cb_event_type = EVENT_KEY_PRESS, callback = handle_keypress_ptr ld, arg = NULL\<rparr>]"
      "console.more s2 = console.more s0"
    by (rule boot_start [OF e(1) e' s0(4,5), of "USERSPACE_START ld" "handle_keypress_ptr ld", unfolded s0(1,2)])
  let ?s3 = "s2\<lparr>ebus := bus\<rparr>" and ?log = "mmap_log ?m (phys2virt mbd)"
  have b3: "booting ?e ?m [] fl ?s3" by (rule booting_cong [OF s2(2)]) (simp add: console.truncate_def)
  let ?s4 = "terminal_write ?log 7 ?s3"
  have b4: "booting ?e ?m ?log fl ?s4" using booting_write [OF b3, of ?log] by simp
  have v4: "sees (boot_view (USERSPACE_START ld)) ?s4" using sees_write [OF b3] s2(4) by (simp add: sees_def)
  have m4: "apic.more ?s4 = apic.more ?s3" "ioapic_ptr ?s4 = NULL"
    using kmem_apic_fields [of ?s4 ?s3] terminal_write_rest(2) [of ?log 7 ?s3] kmem_apic_fields [of s2 s0] s2(6) s0(3) by simp_all
  have i0: "idts (s\<lparr>gdts := g\<rparr>) = idts s" by simp
  have "kernel_main hw ld st mbd s = after_mmap hw ld ?s4"
    unfolding kernel_main_def g bindk_simps Let_def i0 s0_def [symmetric] s1 s2(1) prod.case boot_print_mmap [OF b3 i] after_mmap_def ..
  moreover have "ebus ?s4 = bus" "kbd.more ?s4 = kbd.more s0"
    using kbd_fields [of ?s4 ?s3] m4(1) kbd_fields(2) [OF kmem_apic_fields(3), of s2 s0] s2(6) by simp_all
  ultimately show ?thesis using that [of ?s4 fl bus g] b4 v4 m4(2) s2(3,5) by (simp add: s0_def)
qed

lemma kernel_main_before_scheduler:
  fixes s :: "'a kernel_scheme"
  assumes s: "fresh_kernel s" and e: "0xc0100000 \<le> KERNEL_END ld" "unat (KERNEL_END ld) + 4096 * 11 \<le> 0xc03ff000"
    and i: "boot_info_ok (KERNEL_END ld) (ram s) (phys2virt mbd)"
    and f: "firmware_ok (KERNEL_END ld) (ram s) root" "madt_ok (KERNEL_END ld) (ram s) root h ps" and hw: "pit_answers hw"
  obtains u fl g where
    "kernel_main hw ld st mbd s = Some (scheduler_boot (jump_userspace ld) (task_init_ptr ld) (userspace_fn ld) u)"
    "booting (KERNEL_END ld) (ram s) (boot_log (ram s) mbd root) fl u" "1 \<le> length fl"
    "kbd.more u = kbd.more (s\<lparr>gdts := g, idts := init_idt st (IDT_addr ld) (idts s)\<rparr>)"
    "lapic_ptr u = load32 (ram s) (h + 36)" "ioapic_ptr u = madt_ioapic (ram s) ps"
    "active (ebus u) = active (ebus s) @ [\<lparr>cb_event_type = EVENT_KEY_PRESS, callback = handle_keypress_ptr ld, arg = NULL\<rparr>]"
proof -
  let ?e = "KERNEL_END ld" and ?m = "ram s" and ?log = "mmap_log (ram s) (phys2virt mbd)"
  obtain t fl g bus where t: "kernel_main hw ld st mbd s = after_mmap hw ld t" "booting ?e ?m ?log fl t" "8 \<le> length fl"
    "sees (boot_view (USERSPACE_START ld)) t" "ioapic_ptr t = NULL" "ebus t = bus"
    "kbd.more t = kbd.more (s\<lparr>gdts := g, idts := init_idt st (IDT_addr ld) (idts s)\<rparr>)"
    "active bus = active (ebus s) @ [\<lparr>cb_event_type = EVENT_KEY_PRESS, callback = handle_keypress_ptr ld, arg = NULL\<rparr>]"
    by (rule kernel_main_to_tables [OF s e i])
  obtain u fl' where u: "after_mmap hw ld t = Some (scheduler_boot (jump_userspace ld) (task_init_ptr ld) (userspace_fn ld) u)"
    "booting ?e ?m (?log @ bytes ''RSDT found at '' @ num 16 (unat root) @ [10] @ bytes ''Hell OS is loaded\<newline>'') fl' u" "1 \<le> length fl'"
    "apic.more u = apic.more t" "lapic_ptr u = load32 ?m (h + 36)" "ioapic_ptr u = madt_ioapic ?m ps"
    by (rule after_mmap_runs [OF t(2,3) f t(5) hw t(4)])
  have "ebus u = bus" "kbd.more u = kbd.more t" using kbd_fields [OF u(4)] t(6) by simp_all
  then show ?thesis using that [of u fl' g] t(1,7,8) u by (simp add: boot_log_def)
qed

lemma kernel_main_reaches_scheduler:
  assumes "fresh_kernel s" "0xc0100000 \<le> KERNEL_END ld" "unat (KERNEL_END ld) + 4096 * 11 \<le> 0xc03ff000"
    and "boot_info_ok (KERNEL_END ld) (ram s) (phys2virt mbd)"
    and "firmware_ok (KERNEL_END ld) (ram s) root" "madt_ok (KERNEL_END ld) (ram s) root h ps" and "pit_answers hw"
  shows "\<exists>t. kernel_main hw ld st mbd s = Some (Inr (Scan 0 False, t))
    \<and> sched_init (jump_userspace ld) (task_init_ptr ld) (userspace_fn ld) (Scan 0 False, t) \<and> disk_init t
    \<and> idts t = init_idt st (IDT_addr ld) (idts s) \<and> primary_master t = primary_master s
    \<and> lapic_ptr t = load32 (ram s) (h + 36) \<and> ioapic_ptr t = madt_ioapic (ram s) ps
    \<and> active (ebus t) = active (ebus s) @ [\<lparr>cb_event_type = EVENT_KEY_PRESS, callback = handle_keypress_ptr ld, arg = NULL\<rparr>]
    \<and> screen_of t = screen_after (ram s) (boot_log (ram s) mbd root)"
proof -
  have s: "length (tasks s) = MAX_TASKS" "\<forall>i<MAX_TASKS. state (tasks s ! i) = TASK_NOT_ALLOCATED" "current s = None" "req_queue s = NULL"
    using assms(1) by (simp_all add: fresh_kernel_def)
  obtain u fl g where u: "kernel_main hw ld st mbd s = Some (scheduler_boot (jump_userspace ld) (task_init_ptr ld) (userspace_fn ld) u)"
    "booting (KERNEL_END ld) (ram s) (boot_log (ram s) mbd root) fl u" "1 \<le> length fl"
    "kbd.more u = kbd.more (s\<lparr>gdts := g, idts := init_idt st (IDT_addr ld) (idts s)\<rparr>)"
    "lapic_ptr u = load32 (ram s) (h + 36)" "ioapic_ptr u = madt_ioapic (ram s) ps"
    "active (ebus u) = active (ebus s) @ [\<lparr>cb_event_type = EVENT_KEY_PRESS, callback = handle_keypress_ptr ld, arg = NULL\<rparr>]"
    by (rule kernel_main_before_scheduler [OF assms])
  note F = upper_fields [OF u(4), simplified]
  obtain t where t: "scheduler_boot (jump_userspace ld) (task_init_ptr ld) (userspace_fn ld) u = Inr (Scan 0 False, t)"
    "screen_of t = screen_after (ram s) (boot_log (ram s) mbd root)" "lapic_ptr t = lapic_ptr u" "ioapic_ptr t = ioapic_ptr u" "ebus t = ebus u"
    using boot_scheduler [OF u(2,3), of "jump_userspace ld" "task_init_ptr ld" "userspace_fn ld"] F s by auto
  have k: "kernel_main hw ld st mbd s = Some (Inr (Scan 0 False, t))" using u(1) t(1) by simp
  with kernel_main_lands [OF s k] t u(5-7) show ?thesis by auto
qed

text \<open>The other outcome of the checks, which is the usual one where the firmware does not put its tables into one page: the first
  table whose length is outside the page of the root table cannot be read, and the boot ends in a page fault in the kernel.\<close>

lemma kernel_main_table_fault:
  assumes "fresh_kernel s" "0xc0100000 \<le> KERNEL_END ld" "unat (KERNEL_END ld) + 4096 * 11 \<le> 0xc03ff000"
    and "boot_info_ok (KERNEL_END ld) (ram s) (phys2virt mbd)"
    and ok: "root_ok (KERNEL_END ld) (ram s) root" and i: "i < table_count (ram s) root" "\<forall>j<i. table_ok (ram s) root j"
    and k: "k < 4" "\<not> root_view (USERSPACE_START ld) root (sdt_entry (ram s) root i + 4 + of_nat k)"
  shows "kernel_main hw ld st mbd s = Some (Inl kernel_page_fault)"
proof -
  let ?e = "KERNEL_END ld" and ?m = "ram s" and ?log = "mmap_log (ram s) (phys2virt mbd)"
  let ?found = "bytes ''RSDT found at '' @ num 16 (unat root) @ [10]"
  obtain t fl g bus where t: "kernel_main hw ld st mbd s = after_mmap hw ld t" "booting ?e ?m ?log fl t" "8 \<le> length fl"
    "sees (boot_view (USERSPACE_START ld)) t" "ioapic_ptr t = NULL" "ebus t = bus"
    "kbd.more t = kbd.more (s\<lparr>gdts := g, idts := init_idt st (IDT_addr ld) (idts s)\<rparr>)"
    "active bus = active (ebus s) @ [\<lparr>cb_event_type = EVENT_KEY_PRESS, callback = handle_keypress_ptr ld, arg = NULL\<rparr>]"
    by (rule kernel_main_to_tables [OF assms(1-4)])
  have "1 \<le> length fl" using t(3) by simp
  then obtain u fl' where u: "acpi_find_rsdt t = Some (Inr (root, u))" "booting ?e ?m ?log fl' u" "sees (root_view (USERSPACE_START ld) root) u"
    using boot_find_rsdt [OF t(2) ok _ t(4)] by blast
  let ?v = "terminal_write ?found 7 u"
  have "acpi_validate_rsdt root ?v = Inl kernel_page_fault"
    by (rule table_faults [OF ok bootingD(3,1) [OF booting_write [OF u(2)]] sees_write [OF u(2,3)] i k])
  then show ?thesis using u(1) root_okD(3) [OF ok] by (simp only: t(1) after_mmap_def boot_printk bindk_simps prod.case if_False)
qed

text \<open>C5. On a machine whose firmware tables, boot information and interval timer are in order, with eleven free
  pages after the kernel, \<open>kernel_main\<close> reaches the scheduler. In order means in particular that the tables can be read where the
  boot reads them: all of them lie in the page of the root table, which is the only one that the kernel has mapped by then
  (\<open>kernel_main_table_fault\<close> is the other case), and the boot information lies in the first 4 MiB.
  The kernel gets there without a panic, a page fault on the tables or an access through \<^verbatim>\<open>NULL\<close>, in
  a state that is an initial state of the transition systems of the scheduler and of the disk queue, with
  the interrupt table of \<open>init_idt\<close>, the two interrupt controllers that the firmware names, the console
  listening to the keyboard, and on the screen the memory map and the two messages of the boot. The disk
  driver's device has not been initialised: its port numbers are those it started with.\<close>

theorem kernel_main_runs:
  assumes "fresh_kernel s" "0xc0100000 \<le> KERNEL_END ld" "unat (KERNEL_END ld) + 4096 * 11 \<le> 0xc03ff000"
    and "boot_info_ok (KERNEL_END ld) (ram s) (phys2virt mbd)"
    and "firmware_ok (KERNEL_END ld) (ram s) root" "madt_ok (KERNEL_END ld) (ram s) root h ps" and "pit_answers hw"
  shows "\<exists>t. kernel_main hw ld st mbd s = Some (Inr (Scan 0 False, t))
    \<and> sched_init (jump_userspace ld) (task_init_ptr ld) (userspace_fn ld) (Scan 0 False, t) \<and> disk_init t
    \<and> idts t = init_idt st (IDT_addr ld) (idts s) \<and> primary_master t = primary_master s
    \<and> lapic_ptr t = load32 (ram s) (h + 36) \<and> ioapic_ptr t = madt_ioapic (ram s) ps
    \<and> active (ebus t) = active (ebus s) @ [\<lparr>cb_event_type = EVENT_KEY_PRESS, callback = handle_keypress_ptr ld, arg = NULL\<rparr>]
    \<and> screen_of t = screen_after (ram s) (boot_log (ram s) mbd root)"
  by (rule kernel_main_reaches_scheduler [OF assms])

section \<open>A machine that boots\<close>

text \<open>The root table at \<open>0x07fe0000\<close> and, in the same page, the table of interrupt controllers at \<open>0x07fe0100\<close>.\<close>

definition boot_ram :: mem where
  "boot_ram = (\<lambda>_. 0)(0xc000040e := 0xc0, 0xc000040f := 0x9f,
     0xc009fc00 := 82, 0xc009fc01 := 83, 0xc009fc02 := 68, 0xc009fc03 := 32, 0xc009fc04 := 80, 0xc009fc05 := 84, 0xc009fc06 := 82,
     0xc009fc07 := 32, 0xc009fc12 := 0xfe, 0xc009fc13 := 0x07,
     0x07fe0004 := 40, 0x07fe0025 := 0x01, 0x07fe0026 := 0xfe, 0x07fe0027 := 0x07,
     0x07fe0100 := 65, 0x07fe0101 := 80, 0x07fe0102 := 73, 0x07fe0103 := 67, 0x07fe0104 := 56, 0x07fe0109 := 2,
     0x07fe0126 := 0xe0, 0x07fe0127 := 0xfe, 0x07fe012c := 1, 0x07fe012d := 12, 0x07fe0132 := 0xc0, 0x07fe0133 := 0xfe)"

definition kernel1 :: kernel where
  "kernel1 = kernel0\<lparr>ram := boot_ram, lapic_ptr := NULL, ioapic_ptr := NULL\<rparr>"

lemma boot_ram_loads:
  "ebda boot_ram = 0xc009fc00" "rsdt_addr boot_ram 0xc009fc00 = 0x07fe0000" "sdt_length boot_ram 0x07fe0000 = 40"
  "sdt_entry boot_ram 0x07fe0000 0 = 0x07fe0100" "sdt_length boot_ram 0x07fe0100 = 56"
  "load32 boot_ram 0x07fe0124 = 0xfee00000" "madt_ioapic boot_ram [0x07fe012c] = 0xfec00000"
  "load32 boot_ram 0xc0010030 = 0" "load32 boot_ram 0xc001002c = 0"
  by code_simp+

lemma boot_ram_tables:
  "holds_at ''RSD PTR '' boot_ram 0xc009fc00" "holds_at ''APIC'' boot_ram 0x07fe0100"
  "madt_chain boot_ram 0x07fe012c [0x07fe012c] 0x07fe0138"
  by code_simp+

lemma boot_ram_checksum: "checksum_ok boot_ram 0x07fe0100"
proof -
  have "sum_list (map (\<lambda>i. unat (boot_ram (0x07fe0100 + of_nat i))) [0..<56]) mod 256 = 0" by code_simp
  then show ?thesis by (simp add: checksum_ok_def boot_ram_loads interv_sum_list_conv_sum_set_nat atLeast0LessThan)
qed

lemma boot_root:
  assumes "ebda m = 0xc009fc00" "holds_at ''RSD PTR '' m 0xc009fc00" "rsdt_addr m 0xc009fc00 = 0x07fe0000" "sdt_length m 0x07fe0000 = 40"
  shows "root_ok 0xc0140000 m 0x07fe0000" "table_count m 0x07fe0000 = 1"
proof -
  show n: "table_count m 0x07fe0000 = 1" by (simp add: table_count_def assms(4))
  have "find (\<lambda>i. holds_at ''RSD PTR '' m (0xc009fc00 + of_nat i)) [0..<1016] = Some 0"
    using assms(2) by (simp add: find_upt_Some)
  then have rsdp: "find_rsdp m = 0xc009fc00"
    by (simp add: find_rsdp_def assms(1) find_rsdp_in_region_def rsdp_literal)
  have "kept_range 0xc0140000 0xc009fc00 1024" "kept_range 0xc0140000 0xc009fc00 20" by (intro kept_low; simp)+
  then show "root_ok 0xc0140000 m 0x07fe0000" by (simp add: root_ok_def rsdp assms n inside_def ROUNDDOWN_def PAGE_SIZE_def)
qed

lemma kernel1_firmware:
  "firmware_ok 0xc0140000 boot_ram 0x07fe0000" "madt_ok 0xc0140000 boot_ram 0x07fe0000 0x07fe0100 [0x07fe012c]"
proof -
  have page: "ROUNDDOWN (0x07fe0000 :: u32) = 0x07fe0000" "ROUNDDOWN (0x07fe0100 :: u32) = 0x07fe0000" by (simp_all add: ROUNDDOWN_def PAGE_SIZE_def)
  have k: "kept_range 0xc0140000 0x07fe0100 44" "kept_range 0xc0140000 0x07fe012c 8" by (intro kept_low; simp)+
  note r = boot_root [OF boot_ram_loads(1) boot_ram_tables(1) boot_ram_loads(2,3)]
  have "table_ok boot_ram 0x07fe0000 0" by (simp add: table_ok_def boot_ram_loads inside_def page boot_ram_checksum)
  with r show "firmware_ok 0xc0140000 boot_ram 0x07fe0000" by (simp add: firmware_ok_def)
  show "madt_ok 0xc0140000 boot_ram 0x07fe0000 0x07fe0100 [0x07fe012c]"
    using k boot_ram_tables by (auto simp: madt_ok_def r(2) boot_ram_loads page clear_of_kernel_def ROUNDDOWN_def PAGE_SIZE_def)
qed

lemma kernel1_fresh: "fresh_kernel kernel1" "boot_info_ok 0xc0140000 (ram kernel1) (phys2virt 0x10000)"
proof -
  have "length (GDT (gdts kernel0)) = 6" "ebus kernel0 = empty_bus" "kbd_shift kernel0 = 0"
    by (simp_all add: kernel0_def ext2.defs ata.defs sched.defs sched0_def kbd.defs kbd0_def apic.defs)
  then show "fresh_kernel kernel1"
    by (simp add: fresh_kernel_def kernel1_def MAX_TASKS_def callbacks_count_empty CALLBACKS_MAX_COUNT_def kbd_inv_def)
  have "kept_range 0xc0140000 0xc0010000 52" by (intro kept_low) simp_all
  then show "boot_info_ok 0xc0140000 (ram kernel1) (phys2virt 0x10000)"
    by (simp add: boot_info_ok_def kernel1_def phys2virt_def KERNEL_HIGH_def boot_ram_loads Let_def kept_range_def in_window_def)
qed

definition linker1 :: linker where
  "linker1 = \<lparr>KERNEL_END = 0xc0140000, USERSPACE_START = 0xc0540000, TSS_addr = 0xc0120000, GDT_addr = 0xc0121000,
     IDT_addr = 0xc0122000, handle_keypress_ptr = 0xc0103000, jump_userspace = 0xc0101000, task_init_ptr = 0xc0102000,
     userspace_fn = 0xc0540000, root_ext2 = 0xc0123000\<rparr>"

theorem kernel_main_runs_witness:
  "\<exists>t. kernel_main (\<lambda>_. 0) linker1 stubs0 0x10000 kernel1 = Some (Inr (Scan 0 False, t))
    \<and> disk_init t \<and> lapic_ptr t = 0xfee00000 \<and> ioapic_ptr t = 0xfec00000 \<and> io_base (primary_master t) = 0
    \<and> screen_of t = screen_after boot_ram (boot_log boot_ram 0x10000 0x07fe0000)"
proof -
  have r: "ram kernel1 = boot_ram" "primary_master kernel1 = \<lparr>io_base = 0, io_ctrl_base = 0\<rparr>" by (simp_all add: kernel1_def)
  have "pit_answers (\<lambda>_. 0)" by (simp add: pit_answers_def)
  with kernel_main_runs [OF kernel1_fresh(1), where ld = linker1 and mbd = "0x10000" and root = "0x07fe0000" and h = "0x07fe0100"
      and ps = "[0x07fe012c]" and hw = "\<lambda>_. 0" and st = stubs0] kernel1_fresh(2) kernel1_firmware
  show ?thesis by (auto simp: linker1_def r boot_ram_loads)
qed

text \<open>The same machine with the table of interrupt controllers in the page after the root table's.\<close>

definition kernel2 :: kernel where
  "kernel2 = kernel1\<lparr>ram := boot_ram(0x07fe0025 := 0x10)\<rparr>"

lemma two_pages_of_tables: "kernel_main (\<lambda>_. 0) linker1 stubs0 0x10000 kernel2 = Some (Inl kernel_page_fault)"
proof -
  let ?m = "boot_ram(0x07fe0025 := 0x10)"
  have m: "ebda ?m = 0xc009fc00" "holds_at ''RSD PTR '' ?m 0xc009fc00" "rsdt_addr ?m 0xc009fc00 = 0x07fe0000" "sdt_length ?m 0x07fe0000 = 40"
    "sdt_entry ?m 0x07fe0000 0 = 0x07fe1000" "load32 ?m 0xc0010000 = 0" "load32 ?m 0xc0010030 = 0" "load32 ?m 0xc001002c = 0" by code_simp+
  note r = boot_root [OF m(1-4)]
  have "fresh_kernel kernel2" using kernel1_fresh(1) by (simp add: fresh_kernel_def kernel2_def kbd_inv_def)
  moreover have "boot_info_ok 0xc0140000 ?m (phys2virt 0x10000)"
    using kernel1_fresh(2) by (simp add: boot_info_ok_def kernel1_def phys2virt_def KERNEL_HIGH_def boot_ram_loads m)
  moreover have "\<not> root_view 0xc0540000 0x07fe0000 (0x07fe1000 + 4)"
    by (simp add: root_view_def boot_view_def in_range_def ROUNDDOWN_def PAGE_SIZE_def KERNEL_HIGH_def)
  ultimately show ?thesis
    using kernel_main_table_fault [where s = kernel2 and ld = linker1 and mbd = "0x10000" and root = "0x07fe0000" and i = 0 and k = 0
        and hw = "\<lambda>_. 0" and st = stubs0] r m(5)
    by (simp add: kernel2_def linker1_def)
qed

end
