(* ===== verification/Machine.thy ===== *)
theory Machine
  imports Boot_Run
begin

text \<open>
  The running kernel as one transition system. Its initial states are those \<open>kernel_main\<close> leaves; its steps
  are those of the scheduler of \<^verbatim>\<open>src/sched.c\<close>, arbitrary code of the running task, its system calls, disk
  reads, allocations and console output, and every handler that \<open>init_idt\<close> installs. The invariant of the scheduler and the
  invariant of the disk queue hold together in every reachable state, and from it follows that the kernel does not stop
  itself: the scheduler always has a next step, and the handlers of the timer and of system calls return.

  An interrupt handler, a system call, a disk read, an allocation, the output of a string and a context switch are one step each. So
  the system describes those runs of the kernel in which no interrupt arrives in the middle of one of them; interrupts
  come while a task executes other code, in user or in kernel mode, between the system call and its function, in the scan,
  and while the processor is halted. The code
  does not exclude the other runs: the gate of the system call and the scan that follows a blocking call leave interrupts
  on. What they can do is the subject of \<open>tick_inside_switch_to\<close> in \<open>Syscall\<close> and of \<open>key_inside_putchar\<close> in
  \<open>Machine_Bounds\<close>.
\<close>

section \<open>Steps\<close>

text \<open>Interrupts are taken while a task runs or the processor is halted, and in the scan of the scheduler if they
  are enabled there.\<close>

definition irq_window :: "sched_pc \<Rightarrow> 'a sched_scheme \<Rightarrow> bool" where
  "irq_window pc s \<longleftrightarrow> (case pc of Scan i found \<Rightarrow> irqs_on s | _ \<Rightarrow> True)"

text \<open>Where the scheduler is after a handler or a call has returned or has switched away from the task: \<open>do_idle\<close> ends
  with the first interrupt, and a task that is no longer current has gone back into the scan.\<close>

definition resume :: "sched_pc \<Rightarrow> 'a sched_scheme \<Rightarrow> sched_pc \<times> 'a sched_scheme" where
  "resume pc s =
     (case pc of
        Idle \<Rightarrow> (Scan 0 False, disable_irq s)
      | In_Task i found \<Rightarrow> if current s = None then (Scan (Suc i) True, s) else (In_Task i found, s)
      | Scan i found \<Rightarrow> (Scan i found, s))"

text \<open>A request on the stack of its caller is not in the queue already.\<close>

definition fresh_request :: "u32 \<Rightarrow> 'a ata_scheme \<Rightarrow> bool" where
  "fresh_request a s \<longleftrightarrow> a \<noteq> NULL \<and> (\<forall>as. queued (req_queue s, reqs s) as \<longrightarrow> a \<notin> set as)"

text \<open>\<open>task_code\<close> is any code of the task that changes registers, memory, interrupt flag and the variables of the components
  above the driver, such as those of \<^verbatim>\<open>ext2.c\<close>; \<open>kernel_read\<close>, \<open>kernel_alloc\<close> and \<open>kernel_print\<close> are what
  \<open>init_late\<close> calls when the first task runs \<open>task_init\<close>.\<close>

inductive machine_step :: "device \<Rightarrow> u32 \<Rightarrow> sched_pc \<times> 'a ata_scheme \<Rightarrow> sched_pc \<times> 'a ata_scheme \<Rightarrow> bool"
  for hw :: device and hk :: u32 where
  scheduler: "sched_step a b \<Longrightarrow> machine_step hw hk a b"
| task_code: "machine_step hw hk (In_Task i found, s) (In_Task i found, ata.more_update g (s\<lparr>cpu := c, eip := e, ram := m, eflags := fl\<rparr>))"
| syscall: "fresh_request a s \<Longrightarrow> syscall_irq a sector rg s = Some (Inr (rg', s')) \<Longrightarrow>
    machine_step hw hk (In_Task i found, s) (resume (In_Task i found) s')"
| kernel_read: "fresh_request a s \<Longrightarrow> 0 < n \<Longrightarrow> n < 256 \<Longrightarrow> ata_read a buf lba n s = Some (Inr s') \<Longrightarrow>
    machine_step hw hk (In_Task i found, s) (resume (In_Task i found) s')"
| kernel_alloc: "machine_step hw hk (In_Task i found, s) (In_Task i found, snd (kalloc s))"
| kernel_print: "machine_step hw hk (In_Task i found, s) (In_Task i found, terminal_write data color s)"
| page_fault: "pagefault_irq rg s = Inr s' \<Longrightarrow> machine_step hw hk (In_Task i found, s) (resume (In_Task i found) s')"
| timer: "irq_window pc s \<Longrightarrow> timer_irq s = Inr s' \<Longrightarrow> machine_step hw hk (pc, s) (resume pc s')"
| spurious: "irq_window pc s \<Longrightarrow> machine_step hw hk (pc, s) (resume pc (spurious_irq s))"
| keyboard: "irq_window pc s \<Longrightarrow> keyboard_irq (kernel_call hk) hw s = Inr s' \<Longrightarrow> machine_step hw hk (pc, s) (resume pc s')"
| disk_1: "irq_window pc s \<Longrightarrow> ide_irq1 hw s = Inr s' \<Longrightarrow> machine_step hw hk (pc, s) (resume pc s')"
| disk_2: "irq_window pc s \<Longrightarrow> machine_step hw hk (pc, s) (resume pc (ide_irq2 s))"

definition machine_init :: "device \<Rightarrow> linker \<Rightarrow> sched_pc \<times> 'a kernel_scheme \<Rightarrow> bool" where
  "machine_init hw ld k \<longleftrightarrow> (\<exists>st mbd s. fresh_kernel s \<and> kernel_main hw ld st mbd s = Some (Inr k))"

definition machine_inv :: "sched_pc \<times> 'a ata_scheme \<Rightarrow> bool" where
  "machine_inv k \<longleftrightarrow> sched_inv k \<and> disk_inv (snd k)"

section \<open>What the handlers leave alone\<close>

lemma sched_fields:
  assumes "kbd.more (t :: 'a ata_scheme) = kbd.more s"
  shows "tasks t = tasks s" "current t = current s" "gdts t = gdts s" "TSS t = TSS s" "reqs t = reqs s" "req_queue t = req_queue s"
  using assms by (cases s, cases t, simp)+

lemma resume_sched_inv:
  assumes "sched_inv (pc, s)" "tasks t = tasks s" "current t = current s" "gdts t = gdts s" "TSS t = TSS s"
  shows "sched_inv (resume pc t)"
  using assms by (auto simp: sched_inv_def pc_inv_def resume_def disable_irq_def split: sched_pc.splits)

lemma resume_disk_inv: "disk_inv s \<Longrightarrow> disk_inv (snd (resume pc s))"
  by (auto simp: resume_def disable_irq_def disk_inv_def waiters_def split: sched_pc.splits)

lemma same_sched_inv:
  assumes "machine_inv (pc, s)" "kbd.more (t :: 'a ata_scheme) = kbd.more s"
  shows "machine_inv (resume pc t)"
proof -
  note F = sched_fields [OF assms(2)]
  have "sched_inv (resume pc t)" using resume_sched_inv [OF _ F(1-4), of pc] assms(1) by (simp add: machine_inv_def)
  moreover have "disk_inv t" using assms(1) F by (simp add: machine_inv_def disk_inv_def waiters_def)
  ultimately show ?thesis by (simp add: machine_inv_def resume_disk_inv)
qed

lemma eoi_upper: "kbd.more (apic_eoi s) = kbd.more (s :: 'a kbd_scheme)"
  by (simp add: apic_eoi_def lapic_write_eq)

lemma terminal_upper: "kbd.more (terminal_write data color s) = kbd.more (s :: 'a kbd_scheme)"
  by (rule upper_console [OF terminal_write_rest(2)])

lemma keyboard_upper:
  fixes s :: "'a kbd_scheme"
  assumes "keyboard_irq (kernel_call hk) hw s = Inr t"
  shows "kbd.more t = kbd.more s"
proof -
  have call: "kbd.more (kernel_call hk cb ev a t) = kbd.more t" for cb ev a and t :: "'a kbd_scheme"
    by (simp add: kernel_call_def handle_keypress_eq terminal_upper del: terminal_write_Cons)
  have "kbd.more (fold (\<lambda>i w. let e = f i in if P e then kernel_call hk (callback e) ev (arg e) w else w) is t) = kbd.more t"
    for f P ev "is" and t :: "'a kbd_scheme"
    by (induction "is" arbitrary: t) (simp_all add: call Let_def)
  note calls = this
  obtain c l sh where "readcode hw s = Inr (c, s\<lparr>io_log := l, kbd_shift := sh\<rparr>)" by (rule readcode_result)
  then have "kbd.more t = kbd.more (s\<lparr>io_log := l, kbd_shift := sh\<rparr>)"
    using assms by (auto simp: keyboard_irq_def fire_event_def calls eoi_upper)
  then show ?thesis by simp
qed

text \<open>What the task calls while it stays current.\<close>

lemma stays_in_task:
  assumes "machine_inv (In_Task i found, s)" "kbd.more (t :: 'a ata_scheme) = kbd.more s"
  shows "machine_inv (In_Task i found, t)"
proof -
  have "current t = Some i" using assms sched_fields(2) [OF assms(2)] by (simp add: machine_inv_def sched_inv_def pc_inv_def)
  then show ?thesis using same_sched_inv [OF assms] by (simp add: resume_def)
qed

section \<open>Every step keeps both invariants\<close>

lemma scheduler_inv: "sched_step a b \<Longrightarrow> machine_inv a \<Longrightarrow> machine_inv b"
proof (induction rule: sched_step.induct)
  case (found_running i s s' found)
  have inv: "disk_inv s" "reload_tss (gdts s) = Inr (gdts s)"
    using found_running.prems by (simp_all add: machine_inv_def sched_inv_def)
  from switch_to_eq [OF inv(2), of i] found_running.hyps(3)
  have "reqs s' = reqs s" "req_queue s' = req_queue s" "tasks s' = tasks s" "current s' = Some i" by auto
  with found_running.hyps have "disk_inv s'" by (intro disk_inv_frame [OF inv(1)]) simp_all
  with sched_step_inv [OF sched_step.found_running [OF found_running.hyps]] found_running.prems
  show ?case by (simp add: machine_inv_def)
qed (simp_all add: machine_inv_def sched_inv_def pc_inv_def disk_inv_def waiters_def do_idle_def enable_irq_def)

lemma enqueue_fresh:
  assumes "disk_inv s" "fresh_request a s" "rq_next r = NULL"
  shows "\<exists>q rs. enqueue a (req_queue s, (reqs s)(a := r)) = Some (q, rs)"
proof -
  obtain as where "queued (req_queue s, reqs s) as" using assms(1) by (auto simp: disk_inv_def)
  moreover from this have "a \<noteq> NULL" "a \<notin> set as" using assms(2) by (auto simp: fresh_request_def)
  ultimately show ?thesis by (rule enqueue_new [OF _ _ _ assms(3)]) blast
qed

text \<open>A task that blocks: \<open>reschedule\<close> from a state in which only its own entry of the task table has changed.\<close>

lemma block_inv:
  assumes "machine_inv (In_Task i found, s)" and t: "tasks t = (tasks s)[i := e]" "gdts t = gdts s" "current t = Some i" "task_ok e"
    and r: "reschedule t = Inr s'" and d: "disk_inv s'"
  shows "machine_inv (resume (In_Task i found) s')"
proof -
  from assms(1) have s: "length (tasks s) = MAX_TASKS" "reload_tss (gdts s) = Inr (gdts s)" "\<forall>j<MAX_TASKS. task_ok (tasks s ! j)" "i < MAX_TASKS"
    by (auto simp: machine_inv_def sched_inv_def pc_inv_def)
  have "sched_inv (Scan (Suc i) True, s')"
    by (rule reschedule_inv [OF _ _ _ t(3) s(4) r]) (use s t in \<open>auto simp: nth_list_update\<close>)
  moreover from this have "current s' = None" by (simp add: sched_inv_def pc_inv_def)
  ultimately show ?thesis using d by (simp add: resume_def machine_inv_def)
qed

lemma read_shape:
  assumes inv: "machine_inv (In_Task i found, s)" and a: "fresh_request a s" and n: "n < 256"
  obtains q rs where "ata_read a buf lba n s = Some (reschedule (s\<lparr>
      io_log := (if req_queue s = NULL then issue_log (primary_master s) (new_req buf lba n i) else []) @ io_log s,
      tasks := (tasks s)[i := (tasks s ! i)\<lparr>state := TASK_DISK_READ\<rparr>], req_queue := q, reqs := rs\<rparr>))" "current s = Some i"
proof -
  have c: "current s = Some i" using inv by (simp add: machine_inv_def sched_inv_def pc_inv_def)
  obtain q rs where e: "enqueue a (req_queue s, (reqs s)(a := new_req buf lba n i)) = Some (q, rs)"
    using enqueue_fresh [OF _ a, of "new_req buf lba n i"] inv by (auto simp: machine_inv_def)
  show thesis using that c ata_read_eq [OF c e] small_not_sle [OF n] by simp
qed

lemma read_inv:
  assumes inv: "machine_inv (In_Task i found, s)" and a: "fresh_request a s" and n: "0 < n" "n < 256"
    and r: "ata_read a buf lba n s = Some (Inr s')"
  shows "machine_inv (resume (In_Task i found) s')"
proof -
  have d: "disk_inv s'"
    using disk_inv_submit [OF _ _ _ n r] inv a by (auto simp: machine_inv_def fresh_request_def)
  obtain q rs where t: "reschedule (s\<lparr>
      io_log := (if req_queue s = NULL then issue_log (primary_master s) (new_req buf lba n i) else []) @ io_log s,
      tasks := (tasks s)[i := (tasks s ! i)\<lparr>state := TASK_DISK_READ\<rparr>], req_queue := q, reqs := rs\<rparr>) = Inr s'" and c: "current s = Some i"
    using read_shape [OF inv a n(2), of buf lba] r by (metis option.inject)
  show ?thesis
    by (rule block_inv [OF inv _ _ _ _ t, where e = "(tasks s ! i)\<lparr>state := TASK_DISK_READ\<rparr>"]) (use c d in \<open>simp_all add: task_ok_def\<close>)
qed

lemma wait_inv:
  assumes inv: "machine_inv (In_Task i found, s)" and r: "syscall_wait rg s = Some (Inr (v, s'))"
  shows "machine_inv (resume (In_Task i found) s')"
proof (cases "r_ebx rg \<le>s 0")
  case True
  with r have "s' = s" by (simp add: syscall_wait_def)
  then show ?thesis using same_sched_inv [OF inv] by simp
next
  case False
  have c: "current s = Some i" "i < MAX_TASKS" "length (tasks s) = MAX_TASKS" "state (tasks s ! i) = TASK_RUNNING"
    using inv by (auto simp: machine_inv_def sched_inv_def pc_inv_def)
  have nz: "r_ebx rg \<noteq> 0" using False by auto
  let ?e = "(tasks s ! i)\<lparr>ticks_remaining := r_ebx rg, state := TASK_WAITING\<rparr>"
  let ?t = "upd_task i (\<lambda>t. t\<lparr>ticks_remaining := r_ebx rg, state := TASK_WAITING\<rparr>) s"
  have t: "reschedule ?t = Inr s'" using r False c by (auto simp: syscall_wait_def split: sum.splits)
  have "disk_step (\<lambda>_. 0) s s'" using disk_step.wait [OF c(1) t] by simp
  then have "disk_inv s'" using inv disk_step_inv by (auto simp: machine_inv_def)
  then show ?thesis
    by (intro block_inv [OF inv _ _ _ _ t, where e = ?e]) (use c nz in \<open>simp_all add: upd_task_def task_ok_def\<close>)
qed

lemma syscall_inv:
  assumes inv: "machine_inv (In_Task i found, s)" and a: "fresh_request a s" and r: "syscall_irq a sector rg s = Some (Inr (rg', s'))"
  shows "machine_inv (resume (In_Task i found) s')"
proof -
  have c: "current s = Some i" using inv by (simp add: machine_inv_def sched_inv_def pc_inv_def)
  have u: "is_userspace rg" using r by (simp add: syscall_irq_def split: if_splits)
  note eqs = syscall_irq_eqs [OF u c]
  consider "r_eax rg = 0" | "r_eax rg = 1" | "r_eax rg = 2" | "3 \<le> r_eax rg" using nr_cases [of "r_eax rg"] by force
  then show ?thesis
  proof cases
    case 1
    then show ?thesis using eqs(1) r wait_inv [OF inv] by (auto simp: bindk_def split: option.splits sum.splits)
  next
    case 2
    then have "\<exists>cs. s' = terminal_write cs 7 s" using eqs(2) r by (auto simp: syscall_print_def terminal_writestring_def vga_entry_color_def)
    then show ?thesis using same_sched_inv [OF inv] terminal_upper by metis
  next
    case 3
    then have "ata_read a sector 12 4 s = Some (Inr s')"
      using eqs(3) r by (auto simp: syscall_read_def bindk_def split: option.splits sum.splits)
    then show ?thesis by (rule read_inv [OF inv a, rotated 2]) simp_all
  next
    case 4
    then show ?thesis using eqs(4) r same_sched_inv [OF inv] by simp
  qed
qed

lemma timer_inv:
  assumes inv: "machine_inv (pc, s)" and r: "timer_irq s = Inr s'"
  shows "machine_inv (resume pc s')"
proof -
  have d: "disk_inv s'" using inv disk_inv_tick [OF _ r] by (simp add: machine_inv_def)
  have s: "sched_inv (pc, s)" using inv by (simp add: machine_inv_def)
  have "sched_inv (resume pc s')"
  proof (cases pc)
    case (In_Task i found)
    with tick_inv_task [of i found s s'] s r have "sched_inv (Scan (Suc i) True, s')" by simp
    then show ?thesis using In_Task by (auto simp: resume_def sched_inv_def pc_inv_def)
  qed (use s tick_inv_None [OF s _ r] in \<open>auto simp: resume_def sched_inv_def pc_inv_def disable_irq_def\<close>)
  then show ?thesis using d by (simp add: machine_inv_def resume_disk_inv)
qed

lemma process_descriptors: "ata_process_request hw s = Inr s' \<Longrightarrow> gdts s' = gdts s \<and> TSS s' = TSS s"
  unfolding ata_process_request_def Let_def read_loop [unfolded Let_def]
  by (auto simp: ata_wait_eq issue_eq upd_task_def split: if_splits)

lemma nth_updated: "xs[k := f (xs ! k)] ! i = xs ! i \<or> xs[k := f (xs ! k)] ! i = f (xs ! i)"
  by (cases "k < length xs") (auto simp: nth_list_update list_update_beyond not_less)

lemma disk_irq_inv:
  assumes inv: "machine_inv (pc, s)" and r: "ide_irq1 hw s = Inr s'"
  shows "machine_inv (resume pc s')"
proof -
  obtain t where t: "ata_process_request hw s = Inr t" "s' = apic_eoi t" using r by (auto simp: ide_irq1_def split: sum.splits)
  note sh = process_shape [OF t(1) refl refl] process_descriptors [OF t(1)]
  have s': "gdts s' = gdts s" "TSS s' = TSS s" "current s' = current s" "length (tasks s') = length (tasks s)"
    "\<And>i. tasks s' ! i = tasks s ! i \<or> tasks s' ! i = (tasks s ! i)\<lparr>state := TASK_RUNNING\<rparr>"
    using sh nth_updated [of "tasks s" _ "\<lambda>t. t\<lparr>state := TASK_RUNNING\<rparr>"] by (auto simp: t(2) eoi_eq split: if_splits)
  have "task_ok (tasks s' ! i)" if "task_ok (tasks s ! i)" for i using s'(5) [of i] that by (auto simp: task_ok_def)
  moreover have "kstack (tasks s' ! i) = kstack (tasks s ! i) \<and> (state (tasks s ! i) = TASK_RUNNING \<longrightarrow> state (tasks s' ! i) = TASK_RUNNING)" for i
    using s'(5) [of i] by auto
  ultimately have "sched_inv (resume pc s')"
    using inv s'(1-4) by (auto simp: machine_inv_def sched_inv_def pc_inv_def resume_def disable_irq_def split: sched_pc.splits)
  then show ?thesis using disk_inv_irq [OF _ r] inv by (simp add: machine_inv_def resume_disk_inv)
qed

lemma machine_step_inv: "machine_step hw hk a b \<Longrightarrow> machine_inv a \<Longrightarrow> machine_inv b"
proof (induction rule: machine_step.induct)
  case (task_code i found s g c e m fl)
  then show ?case by (simp add: machine_inv_def sched_inv_def pc_inv_def disk_inv_def waiters_def)
next
  case (kernel_alloc i found s)
  have "kbd.more (snd (kalloc s)) = kbd.more s" by (rule upper_kmem [OF kalloc_more])
  then show ?case by (rule stays_in_task [OF kernel_alloc.prems])
next
  case (kernel_print i found s data color)
  show ?case by (rule stays_in_task [OF kernel_print.prems terminal_upper])
next
  case (page_fault rg s s' i found)
  then have "s' = s" by (simp add: pagefault_irq_def split: if_splits)
  then show ?case using same_sched_inv [OF page_fault.prems] by simp
next
  case (spurious pc s)
  then show ?case by (intro same_sched_inv) (simp_all add: spurious_irq_def eoi_upper)
next
  case (disk_2 pc s)
  then show ?case by (intro same_sched_inv) (simp_all add: ide_irq2_def eoi_upper)
next
  case (keyboard pc s s')
  show ?case by (rule same_sched_inv [OF keyboard.prems keyboard_upper [OF keyboard.hyps(2)]])
qed (auto intro: scheduler_inv syscall_inv read_inv timer_inv disk_irq_inv)

lemma machine_init_inv: "machine_init hw ld k \<Longrightarrow> machine_inv k"
proof -
  assume "machine_init hw ld k"
  then obtain st mbd s where k: "fresh_kernel s" "kernel_main hw ld st mbd s = Some (Inr (fst k, snd k))"
    by (auto simp: machine_init_def)
  have "sched_init (jump_userspace ld) (task_init_ptr ld) (userspace_fn ld) (fst k, snd k)" "disk_init (snd k)"
    using kernel_main_lands(2,3) [OF _ _ _ _ k(2)] k(1) by (simp_all add: fresh_kernel_def)
  then show ?thesis using sched_init_inv [of _ _ _ k] disk.inv_init by (auto simp: machine_inv_def)
qed

interpretation machine: invariant_system "machine_init hw ld" "machine_step hw hk" machine_inv
  by unfold_locales (auto intro: machine_init_inv machine_step_inv)

section \<open>The running kernel\<close>

text \<open>C2. From power-on, whatever tasks do and in whatever order system calls, disk reads and the interrupts of all devices follow
  each other, in runs in which none of them arrives inside a system call, a handler, a disk read or a context switch: while a task runs it is the current one, its state is running and interrupts from user mode
  land on its own kernel stack; otherwise there is no current task; no waiting task has zero ticks left, so
  the countdown never passes zero; the TSS can always be reloaded; and a task is in the disk wait exactly
  if the driver's queue, a proper list, holds one request of it.\<close>

theorem machine_invariant:
  assumes "reach (machine_init hw ld) (machine_step hw hk) (pc, s)"
  shows "(case pc of
            In_Task i found \<Rightarrow> i < MAX_TASKS \<and> current s = Some i \<and> state (tasks s ! i) = TASK_RUNNING
              \<and> esp0 (TSS s) = kstack (tasks s ! i) + KERNEL_STACK_SIZE \<and> ss0 (TSS s) = 0x10
          | _ \<Rightarrow> current s = None)
    \<and> (\<forall>i<MAX_TASKS. state (tasks s ! i) = TASK_WAITING \<longrightarrow> ticks_remaining (tasks s ! i) \<noteq> 0)
    \<and> reload_tss (gdts s) = Inr (gdts s)
    \<and> (\<exists>as. queued (req_queue s, reqs s) as \<and> distinct as
        \<and> (\<forall>i<MAX_TASKS. state (tasks s ! i) = TASK_DISK_READ \<longleftrightarrow> (\<exists>!a. a \<in> set as \<and> rq_task (reqs s a) = i))
        \<and> (\<forall>a\<in>set as. rq_task (reqs s a) < MAX_TASKS \<and> rq_count (reqs s a) \<noteq> 0))"
proof -
  have inv: "sched_inv (pc, s)" "disk_inv s" using machine.reach_inv [OF assms] by (simp_all add: machine_inv_def)
  from inv(1) have "case pc of
      In_Task i found \<Rightarrow> i < MAX_TASKS \<and> current s = Some i \<and> state (tasks s ! i) = TASK_RUNNING
        \<and> esp0 (TSS s) = kstack (tasks s ! i) + KERNEL_STACK_SIZE \<and> ss0 (TSS s) = 0x10
    | _ \<Rightarrow> current s = None"
    by (auto simp: sched_inv_def pc_inv_def split: sched_pc.splits)
  with inv(1) disk_inv_waits [OF inv(2)] show ?thesis by (simp add: sched_inv_def task_ok_def)
qed

lemma scan_progress:
  assumes "sched_inv (Scan i found, s)"
  shows "\<exists>b. sched_step (Scan i found, s) b"
proof (cases "i < MAX_TASKS")
  case True
  moreover have "reload_tss (gdts s) = Inr (gdts s)" using assms by (simp add: sched_inv_def)
  ultimately show ?thesis
    using sched_step.found_running [of i s _ found, OF _ _ switch_to_eq] sched_step.not_running [of i s found] by blast
next
  case False
  then have "i = MAX_TASKS" using assms by (simp add: sched_inv_def pc_inv_def)
  then show ?thesis by (cases found) (auto intro: sched_step.next_pass sched_step.go_idle)
qed

lemma timer_returns: "length (tasks s) = MAX_TASKS \<Longrightarrow> \<exists>t. timer_irq s = Inr t"
  by (cases "current s") (simp_all add: timer_irq_eq scheduler_tick_eq reschedule_eq Let_def)

lemma syscall_returns:
  assumes inv: "machine_inv (In_Task i found, s)" and a: "fresh_request a s" and u: "is_userspace rg"
  shows "\<exists>rg' t. syscall_irq a sector rg s = Some (Inr (rg', t))"
proof -
  have c: "current s = Some i" "disk_inv s" using inv by (simp_all add: machine_inv_def sched_inv_def pc_inv_def)
  note eqs = syscall_irq_eqs [OF u c(1)]
  consider "r_eax rg = 0" | "r_eax rg = 1" | "r_eax rg = 2" | "3 \<le> r_eax rg" using nr_cases [of "r_eax rg"] by force
  then show ?thesis
  proof cases
    case 1
    then show ?thesis using eqs(1) c(1) by (simp add: syscall_wait_def reschedule_eq Let_def)
  next
    case 2
    then show ?thesis using eqs(2) by (simp add: syscall_print_def)
  next
    case 3
    obtain t where "ata_read a sector 12 4 s = Some (Inr t)"
      by (rule read_shape [OF inv a, of 4 sector 12]) (auto simp: reschedule_eq)
    with 3 show ?thesis using eqs(3) by (simp add: syscall_read_def)
  next
    case 4
    then show ?thesis using eqs(4) by simp
  qed
qed

text \<open>C8. In every state that the running kernel reaches by such steps, each completed before the next, the scheduler has a next step while it scans the task table, the
  timer interrupt returns without a panic, and so does every system call that the running task makes from
  user mode, whatever its registers hold; the call leaves the task current or goes back to the scheduler.\<close>

theorem machine_progress:
  assumes "reach (machine_init hw ld) (machine_step hw hk) (pc, s)"
  shows "(\<forall>i found. pc = Scan i found \<longrightarrow> (\<exists>b. sched_step (pc, s) b))
    \<and> (\<exists>t. timer_irq s = Inr t)
    \<and> (\<forall>i found a sector rg. pc = In_Task i found \<and> fresh_request a s \<and> unat (r_cs rg) mod 4 = 3 \<longrightarrow>
        (\<exists>rg' t. syscall_irq a sector rg s = Some (Inr (rg', t))
           \<and> reach (machine_init hw ld) (machine_step hw hk) (resume pc t)))"
proof -
  have inv: "machine_inv (pc, s)" by (rule machine.reach_inv [OF assms])
  then have s: "sched_inv (pc, s)" "length (tasks s) = MAX_TASKS" by (simp_all add: machine_inv_def sched_inv_def)
  have "\<exists>rg' t. syscall_irq a sector rg s = Some (Inr (rg', t)) \<and> reach (machine_init hw ld) (machine_step hw hk) (resume pc t)"
    if p: "pc = In_Task i found" "fresh_request a s" "unat (r_cs rg) mod 4 = 3" for i found a sector rg
  proof -
    obtain rg' t where t: "syscall_irq a sector rg s = Some (Inr (rg', t))"
      using syscall_returns [of i found s a rg sector] inv p by (auto simp: is_userspace_rpl)
    from machine_step.syscall [OF p(2) t] p(1) have "machine_step hw hk (pc, s) (resume pc t)" by simp
    with t reach_step [OF assms] show ?thesis by blast
  qed
  with s scan_progress [of _ _ s] timer_returns show ?thesis by auto
qed

section \<open>A concrete machine\<close>

lemma sched_init_running: "sched_init ju ti uf (pc, t) \<Longrightarrow> state (tasks t ! 0) = TASK_RUNNING"
proof -
  assume "sched_init ju ti uf (pc, t)"
  then obtain s where b: "boot_state s" and k: "scheduler_boot ju ti uf s = Inr (pc, t)" by (auto simp: sched_init_def)
  have "find (\<lambda>i. state (tasks s ! i) = TASK_NOT_ALLOCATED) [0..<MAX_TASKS] = Some 0"
    using b by (simp add: find_upt_Some boot_state_def MAX_TASKS_def)
  with k obtain u where u: "task_setup ju ti (Suc 0) s = (0, u)" "tasks t = tasks u"
    by (auto simp: scheduler_boot_def task_allocate_def split: prod.splits if_splits)
  have "0 < length (tasks s)" using b by (simp add: boot_state_def MAX_TASKS_def)
  from task_setup_tasks [OF u(1) this] show ?thesis unfolding u(2) by simp
qed

lemma machine1_runs:
  obtains s :: kernel where "reach (machine_init (\<lambda>_. 0) linker1) (machine_step (\<lambda>_. 0) hk) (In_Task 0 False, s)" "req_queue s = NULL"
proof -
  have "pit_answers (\<lambda>_. 0)" by (simp add: pit_answers_def)
  then obtain t where t: "kernel_main (\<lambda>_. 0) linker1 stubs0 0x10000 kernel1 = Some (Inr (Scan 0 False, t))"
    "sched_init (jump_userspace linker1) (task_init_ptr linker1) (userspace_fn linker1) (Scan 0 False, t)" "disk_init t"
    using kernel_main_reaches_scheduler [OF kernel1_fresh(1), where ld = linker1 and mbd = "0x10000" and root = "0x07fe0000"
        and h = "0x07fe0100" and ps = "[0x07fe012c]" and hw = "\<lambda>_. 0" and st = stubs0] kernel1_fresh(2) kernel1_firmware
    by (auto simp: linker1_def kernel1_def)
  have i: "machine_init (\<lambda>_. 0) linker1 (Scan 0 False, t)" using t(1) kernel1_fresh(1) by (auto simp: machine_init_def)
  have "reload_tss (gdts t) = Inr (gdts t)" using sched_init_inv [OF t(2)] by (simp add: sched_inv_def)
  from switch_to_eq [OF this, of 0] obtain s where s: "switch_to 0 t = Inr s" "req_queue s = req_queue t" by auto
  have "sched_step (Scan 0 False, t) (In_Task 0 False, s)"
    by (rule sched_step.found_running [OF _ sched_init_running [OF t(2)] s(1)]) (simp add: MAX_TASKS_def)
  then have "reach (machine_init (\<lambda>_. 0) linker1) (machine_step (\<lambda>_. 0) hk) (In_Task 0 False, s)"
    by (blast intro: reach_step [OF reach_init [where init = "machine_init (\<lambda>_. 0) linker1", OF i]] machine_step.scheduler)
  with that s(2) t(3) show ?thesis by (simp add: disk_init_def)
qed

theorem machine_invariant_witness:
  "\<exists>s :: kernel. reach (machine_init (\<lambda>_. 0) linker1) (machine_step (\<lambda>_. 0) 0) (In_Task 0 False, s) \<and> current s = Some 0
     \<and> esp0 (TSS s) = kstack (tasks s ! 0) + 4096 \<and> ss0 (TSS s) = 0x10"
proof -
  obtain s :: kernel where s: "reach (machine_init (\<lambda>_. 0) linker1) (machine_step (\<lambda>_. 0) 0) (In_Task 0 False, s)" by (rule machine1_runs)
  from s machine_invariant [OF s] show ?thesis by (auto simp: KERNEL_STACK_SIZE_def)
qed

theorem machine_progress_witness:
  "\<exists>(s :: kernel) rg t. reach (machine_init (\<lambda>_. 0) linker1) (machine_step (\<lambda>_. 0) 0) (In_Task 0 False, s)
     \<and> syscall_irq 0x1000 0x2000 (user_frame\<lparr>r_eax := 2\<rparr>) s = Some (Inr (rg, t))"
proof -
  obtain s :: kernel where s: "reach (machine_init (\<lambda>_. 0) linker1) (machine_step (\<lambda>_. 0) 0) (In_Task 0 False, s)" "req_queue s = NULL"
    by (rule machine1_runs)
  have "fresh_request 0x1000 s" using s(2) by (auto simp: fresh_request_def queued_def dest: chain_head)
  with machine_progress [OF s(1), THEN conjunct2, THEN conjunct2, rule_format, of 0 False "0x1000" "user_frame\<lparr>r_eax := 2\<rparr>" "0x2000"]
  obtain rg t where "syscall_irq 0x1000 0x2000 (user_frame\<lparr>r_eax := 2\<rparr>) s = Some (Inr (rg, t))" by (auto simp: user_frame_def)
  with s(1) show ?thesis by blast
qed

end
