(* ===== verification/Machine_Bounds.thy ===== *)
theory Machine_Bounds
  imports Machine
begin

text \<open>
  The state that the handlers of the console and the keyboard index arrays with, in the running kernel of
  \<open>Machine\<close>: the cursor, the modifier keys and the callback registry. Their components keep them in bounds
  one call at a time; here they stay in bounds from the boot on, through every step of the machine. That a call is one
  step matters: a key pressed in the middle of the output of a byte can put the cursor off the screen, which is the last
  lemma of this theory.
\<close>

definition bounds_inv :: "'a kbd_scheme \<Rightarrow> bool" where
  "bounds_inv s \<longleftrightarrow> terminal_inv s \<and> kbd_inv s \<and> bus_inv (ebus s)"

definition same_bounds :: "'a kbd_scheme \<Rightarrow> 'a kbd_scheme \<Rightarrow> bool" where
  "same_bounds s t \<longleftrightarrow> terminal_row t = terminal_row s \<and> terminal_column t = terminal_column s \<and> kbd_shift t = kbd_shift s
     \<and> ebus t = ebus s"

lemma bounds_same: "same_bounds s t \<Longrightarrow> bounds_inv t = bounds_inv s"
  by (simp add: same_bounds_def bounds_inv_def terminal_inv_def kbd_inv_def)

lemma bounds_console:
  assumes "console.more (t :: 'a kbd_scheme) = console.more s"
  shows "bounds_inv t \<longleftrightarrow> terminal_inv t \<and> kbd_inv s \<and> bus_inv (ebus s)"
  using assms by (cases s, cases t) (simp add: bounds_inv_def kbd_inv_def)

section \<open>The boot\<close>

lemma bounds_kmem: "kmem.more (t :: 'a kbd_scheme) = kmem.more s \<Longrightarrow> bounds_inv t = bounds_inv s"
  by (rule bounds_same) (cases s, cases t, simp add: same_bounds_def)

lemma printk_bounds: "printk f xs (s :: 'a kbd_scheme) = Inr t \<Longrightarrow> bounds_inv s \<Longrightarrow> bounds_inv t"
  using bounds_console [OF printk_more [of f xs s t]]
  by (auto simp: printk_def vprintk_eq tty.emit_def bounds_inv_def terminal_write_inv split: sum.splits)

lemma print_mmap_bounds: "print_mmap mbd (s :: 'a kbd_scheme) = Some (Inr t) \<Longrightarrow> bounds_inv s \<Longrightarrow> bounds_inv t"
  by (rule print_mmap_keeps [of bounds_inv]) (rule printk_bounds)

lemma scheduler_boot_bounds: "scheduler_boot ju ti uf s = Inr (pc, t) \<Longrightarrow> same_bounds s t"
  by (auto simp: same_bounds_def scheduler_boot_def task_allocate_def task_setup_def upd_task_def kalloc_def Let_def
      split: if_splits option.splits)

lemma log_bounds: "bounds_inv (s\<lparr>io_log := l\<rparr>) = bounds_inv s"
  by (rule bounds_same) (simp add: same_bounds_def)

lemma apic_init_bounds: "apic_init r (s :: 'a kbd_scheme) = Some (Inr t) \<Longrightarrow> bounds_inv t = bounds_inv s"
proof (erule apic_init_shape)
  fix h i and s1 s2 s3 :: "'a kbd_scheme"
  assume s1: "acpi_find_sdt r ''APIC'' s = Some (Inr (h, s1))"
    and s2: "identity_map (load32 (ram s1) (h + 36)) (2 * PAGE_SIZE) (s1\<lparr>lapic_ptr := load32 (ram s1) (h + 36), ioapic_ptr := i\<rparr>) = Some (Inr s2)"
    and s3: "identity_map (ioapic_ptr s2) (2 * PAGE_SIZE) s2 = Some (Inr s3)" "t = apic_setup s3"
  obtain l where "t = s3\<lparr>io_log := l\<rparr>" using s3(2) apic_setup_log [of s3] by auto
  then have "bounds_inv t = bounds_inv s2" using bounds_kmem [OF identity_map_more [OF s3(1)]] by (simp add: log_bounds)
  also have "\<dots> = bounds_inv (s1\<lparr>lapic_ptr := load32 (ram s1) (h + 36), ioapic_ptr := i\<rparr>)" by (rule bounds_kmem [OF identity_map_more [OF s2]])
  also have "\<dots> = bounds_inv s1" by (rule bounds_same) (simp add: same_bounds_def)
  also have "\<dots> = bounds_inv s" by (rule bounds_kmem [OF acpi_find_sdt_more [OF s1]])
  finally show ?thesis .
qed

lemma calibrate_bounds: "calibrate_apic_timer hw (s :: 'a kbd_scheme) = Some (Inr t) \<Longrightarrow> bounds_inv t = bounds_inv s"
  using calibrate_log [of hw s t] log_bounds by auto

lemma terminal_initialize_bounds:
  assumes "terminal_initialize hk (ebus s) (s :: 'a kbd_scheme) = Inr (bus, t)" "kbd_inv s" "bus_inv (ebus s)"
  shows "bounds_inv (t\<lparr>ebus := bus\<rparr>)"
proof -
  have "terminal_inv t" using assms(1)
    by (auto simp: terminal_initialize_def Let_def terminal_clear_cells split: sum.splits)
      (simp add: terminal_inv_def VGA_HEIGHT_def VGA_WIDTH_def)
  moreover have "bus_inv bus" using assms(1,3) register_inv [of "ebus s"]
    by (auto simp: terminal_initialize_def Let_def split: sum.splits)
  moreover have "kbd_inv t" using assms(2) terminal_initialize_more [OF assms(1)] by (cases s, cases t) (simp add: kbd_inv_def)
  ultimately show ?thesis by (simp add: bounds_inv_def kbd_inv_def terminal_inv_def)
qed

lemma kernel_main_bounds:
  assumes s: "kbd_inv s" "bus_inv (ebus s)" and k: "kernel_main hw ld st mbd s = Some (Inr (pc, t))"
  shows "bounds_inv t"
proof -
  obtain g where g: "init_gdt (TSS_addr ld) (GDT_addr ld) (gdts s) = Inr g" using k by (auto simp: kernel_main_def bindk_Some_Inr)
  define s0 where "s0 = init_kalloc_early (KERNEL_END ld) (s\<lparr>gdts := g, idts := init_idt st (IDT_addr ld) (idts s)\<rparr>)"
  have m: "kmem.more s0 = kmem.more (s\<lparr>gdts := g, idts := init_idt st (IDT_addr ld) (idts s)\<rparr>)"
    by (simp add: s0_def init_kalloc_early_def init_kalloc_loop_more)
  obtain s1 bus s2 where s1: "init_kernel_paging (USERSPACE_START ld) s0 = Some (Inr s1)"
    and s2: "terminal_initialize (handle_keypress_ptr ld) (ebus s1) s1 = Inr (bus, s2)"
    and rest: "\<exists>s3 s4 s5 s6 s7 s8 rsdt. print_mmap mbd (s2\<lparr>ebus := bus\<rparr>) = Some (Inr s3) \<and> acpi_find_rsdt s3 = Some (Inr (rsdt, s4))
      \<and> printk ''RSDT found at %x\<newline>'' [VWord rsdt] s4 = Inr s5 \<and> apic_init rsdt s5 = Some (Inr s6)
      \<and> calibrate_apic_timer hw s6 = Some (Inr s7) \<and> printk ''Hell OS is loaded\<newline>'' [] s7 = Inr s8
      \<and> scheduler_boot (jump_userspace ld) (task_init_ptr ld) (userspace_fn ld) s8 = Inr (pc, t)"
    using k g by (auto simp: kernel_main_def bindk_Some_Inr Let_def s0_def split: if_splits)
  have "kbd_inv s1" "bus_inv (ebus s1)" using s m init_kernel_paging_more [OF s1] by (cases s, cases s0, cases s1, simp add: kbd_inv_def)+
  from terminal_initialize_bounds [OF s2 this] rest show ?thesis
    by (auto dest!: bounds_kmem [OF acpi_find_rsdt_more] apic_init_bounds calibrate_bounds bounds_same [OF scheduler_boot_bounds]
        dest: print_mmap_bounds printk_bounds)
qed

section \<open>The running kernel\<close>

lemma resume_bounds: "bounds_inv (snd (resume pc s)) = bounds_inv s"
  by (rule bounds_same) (auto simp: same_bounds_def resume_def disable_irq_def split: sched_pc.splits)

lemma reschedule_bounds: "reschedule s = Inr t \<Longrightarrow> same_bounds s t"
  by (auto simp: reschedule_def asm_switch_to_def upd_task_def same_bounds_def Let_def split: option.splits)

lemma timer_bounds: "length (tasks s) = MAX_TASKS \<Longrightarrow> timer_irq s = Inr t \<Longrightarrow> same_bounds s t"
  by (cases "current s") (auto simp: timer_irq_eq scheduler_tick_eq reschedule_eq same_bounds_def Let_def)

lemma eoi_bounds: "bounds_inv (apic_eoi s) = bounds_inv s"
  by (simp add: eoi_eq log_bounds)

lemma process_bounds: "ata_process_request hw s = Inr t \<Longrightarrow> same_bounds s t"
  unfolding ata_process_request_def Let_def read_loop [unfolded Let_def]
  by (auto simp: ata_wait_eq issue_eq upd_task_def same_bounds_def split: if_splits)

lemma switch_bounds: "switch_to i s = Inr t \<Longrightarrow> same_bounds s t"
  by (auto simp: switch_to_def switch_prepare_def asm_switch_to_def same_bounds_def Let_def split: sum.splits)

lemma scheduler_bounds: "sched_step a b \<Longrightarrow> bounds_inv (snd a) = bounds_inv (snd b)"
proof (induction rule: sched_step.induct)
  case (found_running i s s' found)
  then show ?case using bounds_same [OF switch_bounds] by fastforce
next
  case (go_idle s)
  have "same_bounds s (do_idle (enable_irq s))" by (simp add: same_bounds_def do_idle_def enable_irq_def)
  then show ?case using bounds_same by auto
qed simp_all

lemma write_bounds: "bounds_inv s \<Longrightarrow> bounds_inv (terminal_write data c (s :: 'a kbd_scheme))"
  using bounds_console [OF terminal_write_rest(2), of data c s] by (simp add: bounds_inv_def terminal_write_inv)

lemma keyboard_bounds:
  fixes s :: "'a kbd_scheme"
  assumes "bounds_inv s" "keyboard_irq (kernel_call hk) hw s = Inr s'"
  shows "bounds_inv s'"
proof -
  have call: "bounds_inv (kernel_call hk cb ev a t)" if "bounds_inv t" for cb ev a and t :: "'a kbd_scheme"
    using that by (simp add: kernel_call_def handle_keypress_eq write_bounds del: terminal_write_Cons)
  have "bounds_inv t \<Longrightarrow> bounds_inv (fold (\<lambda>i w. let e = f i in if P e then kernel_call hk (callback e) ev (arg e) w else w) is t)"
    for f P ev "is" and t :: "'a kbd_scheme"
    by (induction "is" arbitrary: t) (simp_all add: call Let_def)
  note calls = this
  obtain c l sh where r: "readcode hw s = Inr (c, s\<lparr>io_log := l, kbd_shift := sh\<rparr>)" "kbd_inv s \<longrightarrow> sh < 128" by (rule readcode_result)
  then have b: "bounds_inv (s\<lparr>io_log := l, kbd_shift := sh\<rparr>)"
    using assms(1) by (simp add: bounds_inv_def kbd_inv_def terminal_inv_def)
  then have "bounds_inv (apic_eoi (s\<lparr>io_log := l, kbd_shift := sh\<rparr>))" by (simp only: eoi_bounds)
  from calls [OF this] r(1) assms(2) show ?thesis by (auto simp: keyboard_irq_def fire_event_def)
qed

lemma read_bounds:
  assumes "machine_inv (In_Task i found, s)" "fresh_request a s" "n < 256" "ata_read a buf lba n s = Some (Inr s')"
  shows "bounds_inv s' = bounds_inv s"
proof -
  obtain t where "reschedule t = Inr s'" "same_bounds s t"
    by (rule read_shape [OF assms(1-3), of buf lba]) (use assms(4) in \<open>auto simp: same_bounds_def\<close>)
  then show ?thesis using bounds_same reschedule_bounds by metis
qed

lemma syscall_bounds:
  assumes inv: "machine_inv (In_Task i found, s)" and a: "fresh_request a s" and b: "bounds_inv s"
    and r: "syscall_irq a sector rg s = Some (Inr (rg', s'))"
  shows "bounds_inv s'"
proof -
  have c: "current s = Some i" using inv by (simp add: machine_inv_def sched_inv_def pc_inv_def)
  have u: "is_userspace rg" using r by (simp add: syscall_irq_def split: if_splits)
  note eqs = syscall_irq_eqs [OF u c]
  consider "r_eax rg = 0" | "r_eax rg = 1" | "r_eax rg = 2" | "3 \<le> r_eax rg" using nr_cases [of "r_eax rg"] by force
  then show ?thesis
  proof cases
    case 1
    then have "s' = s \<or> (\<exists>f. reschedule (upd_task i f s) = Inr s')"
      using eqs(1) r c by (auto simp: syscall_wait_def Let_def split: if_splits sum.splits)
    moreover have "bounds_inv (upd_task i f s)" for f
      using b by (simp add: upd_task_def bounds_inv_def terminal_inv_def kbd_inv_def)
    ultimately show ?thesis using b bounds_same [OF reschedule_bounds] by metis
  next
    case 2
    then have "\<exists>cs. s' = terminal_write cs 7 s" using eqs(2) r by (auto simp: syscall_print_def terminal_writestring_def vga_entry_color_def)
    then show ?thesis using write_bounds [OF b] by blast
  next
    case 3
    then have "ata_read a sector 12 4 s = Some (Inr s')"
      using eqs(3) r by (auto simp: syscall_read_def bindk_def split: option.splits sum.splits)
    from read_bounds [OF inv a _ this] b show ?thesis by simp
  next
    case 4
    then show ?thesis using eqs(4) r b by simp
  qed
qed

lemma machine_step_bounds:
  "machine_step hw hk a b \<Longrightarrow> machine_inv a \<Longrightarrow> bounds_inv (snd a) \<Longrightarrow> bounds_inv (snd b)"
proof (induction rule: machine_step.induct)
  case (scheduler a b)
  then show ?case using scheduler_bounds by blast
next
  case (task_code i found s g c e m fl)
  then show ?case by (simp add: bounds_inv_def terminal_inv_def kbd_inv_def)
next
  case (kernel_alloc i found s)
  then show ?case using bounds_kmem [OF kalloc_more, of s] by simp
next
  case (keyboard pc s s')
  then show ?case using keyboard_bounds [of s hk hw s'] by (simp add: resume_bounds)
next
  case (timer pc s s')
  then have "length (tasks s) = MAX_TASKS" by (simp add: machine_inv_def sched_inv_def)
  from bounds_same [OF timer_bounds [OF this timer.hyps(2)]] timer.prems show ?case by (simp add: resume_bounds)
next
  case (disk_1 pc s s')
  then obtain t where "ata_process_request hw s = Inr t" "s' = apic_eoi t" by (auto simp: ide_irq1_def split: sum.splits)
  with disk_1.prems bounds_same [OF process_bounds [of hw s t]] show ?case by (simp add: resume_bounds eoi_bounds)
next
  case (page_fault rg s s' i found)
  then show ?case by (simp add: resume_bounds pagefault_irq_def split: if_splits)
qed (simp_all add: resume_bounds eoi_bounds spurious_irq_def ide_irq2_def write_bounds syscall_bounds read_bounds)

interpretation bounded: invariant_system "machine_init hw ld" "machine_step hw hk" "\<lambda>k. machine_inv k \<and> bounds_inv (snd k)"
proof
  fix k :: "sched_pc \<times> 'a kernel_scheme"
  assume i: "machine_init hw ld k"
  then obtain st mbd s where "fresh_kernel s" "kernel_main hw ld st mbd s = Some (Inr (fst k, snd k))"
    by (auto simp: machine_init_def)
  then show "machine_inv k \<and> bounds_inv (snd k)"
    using machine_init_inv [OF i] kernel_main_bounds [of s hw ld st mbd "fst k" "snd k"] by (simp add: fresh_kernel_def)
qed (auto intro: machine_step_inv machine_step_bounds)

text \<open>C27. What the console, the keyboard and the event bus index arrays with stays in range in every state that the
  running kernel reaches by completed steps, that is, in runs in which no interrupt arrives inside a handler, a system call or the
  output of a string: the cursor is on the screen of 25 rows and 80 columns, the modifier state is below 128, and the
  callback registry holds at most its 1024 entries; and the task table has its 256 entries.\<close>

theorem machine_bounds:
  assumes "reach (machine_init hw ld) (machine_step hw hk) (pc, s)"
  shows "length (tasks s) = 256 \<and> unat (terminal_row s) < 25 \<and> unat (terminal_column s) < 80 \<and> unat (kbd_shift s) < 128
    \<and> length (known_callbacks (ebus s)) = 1024 \<and> unat (callbacks_count (ebus s)) \<le> 1024"
proof -
  have inv: "length (tasks s) = MAX_TASKS" "bounds_inv s"
    using bounded.reach_inv [OF assms] by (simp_all add: machine_inv_def sched_inv_def)
  then show ?thesis
    by (simp add: bounds_inv_def terminal_inv_unat kbd_inv_def bus_inv_def MAX_TASKS_def CALLBACKS_MAX_COUNT_def word_less_nat_alt word_le_nat_alt)
qed

theorem machine_bounds_witness:
  "\<exists>s :: kernel. reach (machine_init (\<lambda>_. 0) linker1) (machine_step (\<lambda>_. 0) 0) (In_Task 0 False, s)
     \<and> unat (terminal_row s) < 25 \<and> unat (terminal_column s) < 80 \<and> unat (callbacks_count (ebus s)) \<le> 1024"
proof -
  obtain s :: kernel where s: "reach (machine_init (\<lambda>_. 0) linker1) (machine_step (\<lambda>_. 0) 0) (In_Task 0 False, s)" by (rule machine1_runs)
  from s machine_bounds [OF s] show ?thesis by blast
qed

section \<open>A key in the middle of the output of a byte\<close>

text \<open>The default case of \<open>terminal_putchar_color\<close> in two halves, up to the increment of the column and from its comparison
  on. \<open>syscall_print\<close> runs with interrupts on, so that the handler of the keyboard, which prints as well, may run in
  between: in the last column it finds the column 80, makes it 81, and neither of the two comparisons with 80 succeeds.\<close>

definition putchar_begin :: "u8 \<Rightarrow> u8 \<Rightarrow> 'a console_scheme \<Rightarrow> 'a console_scheme" where
  "putchar_begin c color s =
     (let s = terminal_putentryat c color (terminal_column s) (terminal_row s) s in s\<lparr>terminal_column := terminal_column s + 1\<rparr>)"

definition putchar_end :: "'a console_scheme \<Rightarrow> 'a console_scheme" where
  "putchar_end s =
     (if terminal_column s = VGA_WIDTH then
        let s = s\<lparr>terminal_column := 0, terminal_row := terminal_row s + 1\<rparr>
        in if terminal_row s = VGA_HEIGHT then terminal_shift_buffer s else s
      else s)"

lemma putchar_halves: "c \<noteq> 10 \<Longrightarrow> c \<noteq> 13 \<Longrightarrow> terminal_putchar_color c color s = putchar_end (putchar_begin c color s)"
  by (simp add: terminal_putchar_color_def putchar_begin_def putchar_end_def Let_def)

lemma key_inside_putchar:
  assumes "terminal_column s = 79" "ucast (keycode event) = (k :: u8)" "k \<noteq> 0" "k \<noteq> 10" "k \<noteq> 13"
  shows "terminal_column (putchar_end (handle_keypress event a (putchar_begin c color s))) = 81"
proof -
  have "terminal_column (putchar_begin c color s) = 80" using assms(1) by (simp add: putchar_begin_def terminal_putentryat_def)
  then have "terminal_column (terminal_putchar_color k 7 (putchar_begin c color s)) = 81"
    using assms(4,5) by (simp add: terminal_putchar_color_def terminal_putentryat_def VGA_WIDTH_def)
  then show ?thesis using assms(2,3) by (simp add: putchar_end_def handle_keypress_eq terminal_write_def VGA_WIDTH_def)
qed

end
