(* ===== verification/Ext2_Mount.thy ===== *)
theory Ext2_Mount
  imports Ext2
begin

text \<open>
  The mount of \<^verbatim>\<open>src/ext2.c\<close> from beginning to end: on a disk that holds a well-formed file system,
  \<open>init_ext2\<close> reads the superblock, the group descriptors, the root inode and the blocks of the root
  directory, and prints its entries. The disk is a map from offsets to bytes; what the
  file system format says is stated over that map, with the structures of the code as layouts.
\<close>

section \<open>Regions of memory\<close>

definition separate :: "u32 \<Rightarrow> nat \<Rightarrow> u32 \<Rightarrow> nat \<Rightarrow> bool" where
  "separate a n b m \<longleftrightarrow> unat a + n < 2 ^ 32 \<and> unat b + m < 2 ^ 32 \<and> (unat a + n \<le> unat b \<or> unat b + m \<le> unat a)"

lemma separate_sym: "separate a n b m \<longleftrightarrow> separate b m a n"
  by (auto simp: separate_def)

lemma separate_mono: "separate a n b m \<Longrightarrow> n' \<le> n \<Longrightarrow> m' \<le> m \<Longrightarrow> separate a n' b m'"
  by (auto simp: separate_def)

lemma separate_out:
  assumes "separate a n b m" "j < m"
  shows "n \<le> unat (b + of_nat j - a)"
proof -
  have s: "unat a + n < 2 ^ 32" "unat b + m < 2 ^ 32" "unat a + n \<le> unat b \<or> unat b + m \<le> unat a"
    using assms(1) by (auto simp: separate_def)
  have u: "unat (b + of_nat j) = unat b + j" using s(2) assms(2) by (subst unat_add_lt) (simp_all add: of_nat_less_u32)
  have "unat (b + of_nat j - a) = (if unat a \<le> unat b + j then unat b + j - unat a else unat b + j + 2 ^ 32 - unat a)"
    by (simp add: unat_sub_if_size u word_size)
  with s assms(2) show ?thesis by (auto split: if_splits)
qed

lemma disk_bytes_separate: "separate a n b m \<Longrightarrow> j < m \<Longrightarrow> disk_bytes D o0 a n r (b + of_nat j) = r (b + of_nat j)"
  using separate_out by (auto simp: disk_bytes_def not_less [symmetric])

lemma separate_not_in_range: "separate a n b m \<Longrightarrow> j < m \<Longrightarrow> k \<le> n \<Longrightarrow> \<not> in_range a (of_nat k) (b + of_nat j)"
proof -
  assume a: "separate a n b m" "j < m" "k \<le> n"
  then have "unat (of_nat k :: u32) = k" by (intro of_nat_less_u32) (auto simp: separate_def)
  with separate_out [OF a(1,2)] a(3) show ?thesis by (simp add: in_range_def word_less_nat_alt)
qed

section \<open>Images\<close>

definition image :: "(nat \<Rightarrow> u8) \<Rightarrow> nat \<Rightarrow> mem" where
  "image D o0 = (\<lambda>a. D (o0 + unat a))"

definition holds :: "mem \<Rightarrow> u32 \<Rightarrow> (nat \<Rightarrow> u8) \<Rightarrow> nat \<Rightarrow> nat \<Rightarrow> bool" where
  "holds m p D o0 n \<longleftrightarrow> (\<forall>k<n. m (p + of_nat k) = D (o0 + k))"

lemma holds_load:
  assumes "holds m p D o0 n" "n < 4294967296"
  shows "j + 4 \<le> n \<Longrightarrow> load32 m (p + of_nat j) = load32 (image D o0) (of_nat j)"
    and "j + 2 \<le> n \<Longrightarrow> load16 m (p + of_nat j) = load16 (image D o0) (of_nat j)"
proof -
  have b: "m (p + of_nat j + of_nat k) = image D o0 (of_nat j + of_nat k)" if "j + k < n" for k
  proof -
    have "unat (of_nat (j + k) :: u32) = j + k" using that assms(2) by (intro of_nat_less_u32) simp
    moreover have "m (p + of_nat (j + k)) = D (o0 + (j + k))" using assms(1) that by (simp only: holds_def)
    ultimately show ?thesis by (simp add: image_def add.assoc)
  qed
  show "load32 m (p + of_nat j) = load32 (image D o0) (of_nat j)" if "j + 4 \<le> n"
    using b [of 0] b [of 1] b [of 2] b [of 3] that by (simp add: load32_def)
  show "load16 m (p + of_nat j) = load16 (image D o0) (of_nat j)" if "j + 2 \<le> n"
    using b [of 0] b [of 1] that by (simp add: load16_def)
qed

lemma holds_disk_bytes: "n \<le> 4294967296 \<Longrightarrow> holds (disk_bytes D o0 b n r) b D o0 n"
  by (simp add: holds_def disk_bytes_in)

lemma holds_cong: "holds m p D o0 n \<Longrightarrow> (\<And>k. k < n \<Longrightarrow> m' (p + of_nat k) = m (p + of_nat k)) \<Longrightarrow> holds m' p D o0 n"
  by (simp add: holds_def)

text \<open>The fields of the superblock that the mount uses, and where the root inode is.\<close>

definition sb :: "(nat \<Rightarrow> u8) \<Rightarrow> string \<Rightarrow> u32" where
  "sb D f = field32 (image D 1024) 0 ext2_superblock f"

definition image_block :: "(nat \<Rightarrow> u8) \<Rightarrow> u32" where
  "image_block D = shl 1024 (sb D ''block_size_log'')"

definition root_index :: "(nat \<Rightarrow> u8) \<Rightarrow> nat" where
  "root_index D = unat (1 mod sb D ''inodes_per_block_group'') * unat (inode_size (image D 1024) 0)"

definition root_table :: "(nat \<Rightarrow> u8) \<Rightarrow> u32" where
  "root_table D = load32 (image D (unat (image_block D))) (32 * (1 div sb D ''inodes_per_block_group'') + 8)"

definition root_place :: "(nat \<Rightarrow> u8) \<Rightarrow> nat" where
  "root_place D = unat (image_block D) * unat (root_table D) + root_index D"

definition root_blocks :: "(nat \<Rightarrow> u8) \<Rightarrow> nat" where
  "root_blocks D = unat (field32 (image D (root_place D)) 0 ext2_inode ''i_blocks'' div shl 2 (sb D ''block_size_log''))"

definition root_ptr :: "(nat \<Rightarrow> u8) \<Rightarrow> nat \<Rightarrow> u32" where
  "root_ptr D i = load32 (image D (root_place D)) (of_nat (40 + 4 * i))"

text \<open>A file system with blocks of 2 or 4 KiB whose root directory has the entries \<open>ess\<close>, block by block.\<close>

definition ext2_image :: "(nat \<Rightarrow> u8) \<Rightarrow> (u32 \<times> u8 list) list list \<Rightarrow> bool" where
  "ext2_image D ess \<longleftrightarrow>
     field16 (image D 1024) 0 ext2_superblock ''signature'' = EXT2_SIGNATURE
     \<and> (image_block D = 2048 \<or> image_block D = 4096)
     \<and> sb D ''blocks_per_group'' \<noteq> 0 \<and> sb D ''total_blocks'' div sb D ''blocks_per_group'' \<le> 128
     \<and> sb D ''inodes_per_block_group'' \<noteq> 0
     \<and> 128 \<le> unat (inode_size (image D 1024) 0) \<and> unat (inode_size (image D 1024) 0) dvd unat (image_block D)
     \<and> root_place D < 2 ^ 37 \<and> root_blocks D = length ess \<and> length ess \<le> 12
     \<and> (\<forall>i < length ess. unat (image_block D) * unat (root_ptr D i) < 2 ^ 37
          \<and> dir_at (image D (unat (image_block D) * unat (root_ptr D i))) 0 (unat (image_block D)) 0 (ess ! i))"

lemma shl_2_nz: "shl 1024 n \<noteq> 0 \<Longrightarrow> shl 2 n \<noteq> 0"
proof
  assume "shl 1024 n \<noteq> 0" "shl 2 n = 0"
  moreover have "shl 1024 n = push_bit 9 (shl 2 n)"
    using push_bit_push_bit [of 9 "unat (n AND 31)" "2 :: u32"] push_bit_push_bit [of "unat (n AND 31)" 9 "2 :: u32"]
    by (simp add: shl_def add.commute)
  ultimately show False by simp
qed

section \<open>The state during the mount\<close>

definition mounted ::
  "(nat \<Rightarrow> u8) \<Rightarrow> device \<Rightarrow> nat \<Rightarrow> u32 \<Rightarrow> u32 \<Rightarrow> screen \<Rightarrow> u8 list \<Rightarrow> 'a ext2_scheme \<Rightarrow> bool" where
  "mounted D hw cur fs b sc log s \<longleftrightarrow>
     ata_disk D (io_base (primary_master s)) hw \<and> disk_ready cur s \<and> terminal_inv s \<and> terminal_buffer s = b
     \<and> screen_of s = fold (\<lambda>c. screen_put c 7) log sc \<and> holds (ram s) fs D 1024 1024"

lemma mountedD:
  assumes "mounted D hw cur fs b sc log s"
  shows "ata_disk D (io_base (primary_master s)) hw" "disk_ready cur s" "terminal_inv s" "terminal_buffer s = b"
    "screen_of s = fold (\<lambda>c. screen_put c 7) log sc" "holds (ram s) fs D 1024 1024"
  using assms by (auto simp: mounted_def)

lemma superblock_fields:
  assumes "holds (ram s) fs D 1024 1024"
  shows "field32 (ram s) fs ext2_superblock f = sb D f \<or> 1020 < offset_of f ext2_superblock"
    and "field16 (ram s) fs ext2_superblock f = field16 (image D 1024) 0 ext2_superblock f \<or> 1022 < offset_of f ext2_superblock"
  using holds_load [OF assms, of "offset_of f ext2_superblock"] by (auto simp: field32_def field16_def sb_def)

lemma superblock_sizes:
  assumes "holds (ram s) fs D 1024 1024"
  shows "ext2_block_size fs s = image_block D" "inode_size (ram s) fs = inode_size (image D 1024) 0"
  using superblock_fields [OF assms, of "''block_size_log''"] superblock_fields [OF assms, of "''rev''"]
    superblock_fields(2) [OF assms, of "''inode_size_bytes''"]
  by (simp_all add: ext2_block_size_def image_block_def inode_size_def sb_def)

lemma mounted_write:
  assumes m: "mounted D hw cur fs b sc log s" and sep: "separate b 4160 fs 1024"
  shows "mounted D hw cur fs b sc (log @ out) (terminal_write out 7 s)"
proof -
  note M = mountedD [OF m]
  let ?t = "terminal_write out 7 s"
  have up: "disk_ready cur ?t" "primary_master ?t = primary_master s"
    using M(2) terminal_write_rest(2) [of out 7 s] by (cases s, cases ?t, simp add: disk_ready_def)+
  have "holds (ram ?t) fs D 1024 1024"
    using separate_not_in_range [OF sep, of _ 4000] M(3,4) by (intro holds_cong [OF M(6)] terminal_write_outside) simp_all
  then show ?thesis using M up by (simp add: mounted_def terminal_write_inv terminal_write_buffer terminal_write_screen)
qed

lemma mounted_ram:
  assumes m: "mounted D hw cur fs b sc log s" and t: "disk_ready cur t" "same_kernel s t"
    and same: "\<And>k. k < 1024 \<Longrightarrow> ram t (fs + of_nat k) = ram s (fs + of_nat k)" "\<And>k. k < 4160 \<Longrightarrow> ram t (b + of_nat k) = ram s (b + of_nat k)"
  shows "mounted D hw cur fs b sc log t"
proof -
  note M = mountedD [OF m]
  have k: "primary_master t = primary_master s" "terminal_row t = terminal_row s" "terminal_column t = terminal_column s"
    "terminal_buffer t = terminal_buffer s" using t(2) by (simp_all add: same_kernel_def)
  have "screen_of t = screen_of s" using same(2) M(4) by (intro screen_cong k) simp
  then show ?thesis using M k t(1) holds_cong [OF M(6) same(1)] by (simp add: mounted_def terminal_inv_def)
qed

lemma mounted_read_block:
  assumes m: "mounted D hw cur fs b sc log s" and r: "req_addr \<noteq> NULL"
    and bs: "valid_block_size (image_block D)" "unat (image_block D) * unat block < 2 ^ 37"
    and buf: "buf \<noteq> NULL" "separate buf 4096 fs 1024" "separate buf 4096 b 4160"
  obtains t where "ext2_read_block hw req_addr fs block buf s = Some (Inr (0, t))" "mounted D hw cur fs b sc log t" "same_kernel s t"
    "ram t = disk_bytes D (unat (image_block D) * unat block) buf (unat (image_block D)) (ram s)"
proof -
  note M = mountedD [OF m]
  let ?n = "unat (image_block D)"
  have n: "?n \<le> 4096" using bs(1) by (auto simp: valid_block_size_def)
  then have "unat buf + ?n \<le> 2 ^ 32" using buf(2) by (simp add: separate_def)
  then obtain t where t: "ext2_read_block hw req_addr fs block buf s = Some (Inr (0, t))" "disk_ready cur t" "same_kernel s t"
    "ram t = disk_bytes D (?n * unat block) buf ?n (ram s)"
    using ext2_read_block_reads [OF M(1,2) r superblock_sizes(1) [OF M(6)] bs buf(1)] by blast
  have "mounted D hw cur fs b sc log t"
    using disk_bytes_separate [OF separate_mono [OF buf(2) n order_refl]] disk_bytes_separate [OF separate_mono [OF buf(3) n order_refl]]
    by (intro mounted_ram [OF m t(2,3)]) (simp_all add: t(4))
  with t that show ?thesis by blast
qed

text \<open>The memory the mount works in: the superblock at \<open>fs\<close>, the root inode at \<open>ino\<close>, the pages \<open>p\<close> and \<open>q\<close> of
  the descriptors and of the temporary block, and the screen at \<open>b\<close> are separate.\<close>

definition mount_regions :: "u32 \<Rightarrow> u32 \<Rightarrow> u32 \<Rightarrow> u32 \<Rightarrow> u32 \<Rightarrow> bool" where
  "mount_regions fs ino p q b \<longleftrightarrow> fs \<noteq> NULL \<and> p \<noteq> NULL \<and> q \<noteq> NULL
     \<and> separate p 4096 fs 1024 \<and> separate q 4096 fs 1024 \<and> separate ino 128 fs 1024 \<and> separate b 4160 fs 1024
     \<and> separate p 4096 b 4160 \<and> separate q 4096 b 4160 \<and> separate ino 128 b 4160
     \<and> separate q 4096 p 4096 \<and> separate ino 128 p 4096 \<and> separate q 4096 ino 128"

lemma image_facts:
  assumes "ext2_image D ess"
  shows "valid_block_size (image_block D)" "unat (image_block D) \<le> 4096" "2048 \<le> unat (image_block D)"
    "sb D ''inodes_per_block_group'' \<noteq> 0" "root_index D < 2 ^ 32"
proof -
  show "valid_block_size (image_block D)" "unat (image_block D) \<le> 4096" "2048 \<le> unat (image_block D)"
    "sb D ''inodes_per_block_group'' \<noteq> 0"
    using assms by (auto simp: ext2_image_def valid_block_size_def)
  have "unat (1 mod sb D ''inodes_per_block_group'') \<le> 1" by (simp add: unat_mod)
  moreover have "unat (inode_size (image D 1024) 0) \<le> unat (image_block D)"
    using assms by (auto simp: ext2_image_def intro: dvd_imp_le)
  ultimately have "root_index D \<le> 1 * unat (image_block D)" unfolding root_index_def by (intro mult_le_mono) auto
  then show "root_index D < 2 ^ 32" using \<open>unat (image_block D) \<le> 4096\<close> by simp
qed

lemma mounted_read_inode:
  assumes m: "mounted D hw cur fs b sc log s" and r: "req_addr \<noteq> NULL" and im: "ext2_image D ess"
    and R: "mount_regions fs ino p q b" and pq: "bgd s = p" "tmp s = q"
    and d: "holds (ram s) p D (unat (image_block D)) (unat (image_block D))"
  obtains t where "ext2_read_inode hw req_addr fs 2 ino s = Some (Inr (0, t))" "mounted D hw cur fs b sc log t" "same_kernel s t"
    "holds (ram t) ino D (root_place D) 128"
proof -
  let ?n = "unat (image_block D)"
  note M = mountedD [OF m] and I = image_facts [OF im] and S = superblock_sizes [OF mountedD(6) [OF m]]
  have sp: "separate q ?n fs 1024" "separate q ?n ino 128" "separate q ?n b 4160" "separate ino 128 fs 1024" "separate ino 128 b 4160" "q \<noteq> NULL"
    using R separate_mono [OF _ I(2) order_refl] by (auto simp: mount_regions_def)
  have per: "field32 (ram s) fs ext2_superblock ''inodes_per_block_group'' = sb D ''inodes_per_block_group''"
    using superblock_fields(1) [OF M(6), of "''inodes_per_block_group''"] by simp
  have off: "inode_offset fs 2 s = root_index D" by (simp add: inode_offset_def root_index_def per S)
  have g: "group_table fs 2 s = root_table D"
  proof -
    have "unat (1 div sb D ''inodes_per_block_group'') \<le> 1" by (simp add: unat_div)
    then have "32 * unat (1 div sb D ''inodes_per_block_group'') + 8 + 4 \<le> ?n" using I(3) by linarith
    from holds_load(1) [OF d _ this] I(2) show ?thesis by (simp add: group_table_def root_table_def per pq add.assoc)
  qed
  have "inode_ok fs 2 ino s"
  proof -
    have "?n \<le> unat (fs + k - q)" if "k < 1024" for k
      using separate_out [OF sp(1), of "unat k"] that by (simp add: word_less_nat_alt)
    then show ?thesis
      using im I(4,5) sp(6) separate_out [OF sp(2), of 0] sp(2) I(1)
      by (simp add: inode_ok_def S per pq Let_def ext2_image_def root_index_def separate_def)
  qed
  moreover have "?n * unat (group_table fs 2 s) + inode_offset fs 2 s < 2 ^ 37"
    using im by (simp add: g off ext2_image_def root_place_def)
  ultimately obtain t where t: "ext2_read_inode hw req_addr fs 2 ino s = Some (Inr (0, t))"
    "\<forall>k<128. ram t (ino + of_nat k) = D (root_place D + k)" "disk_ready cur t" "same_kernel s t"
    "\<forall>a. ?n \<le> unat (a - q) \<longrightarrow> 128 \<le> unat (a - ino) \<longrightarrow> ram t a = ram s a"
    using ext2_read_inode_result [OF M(1,2) r, of fs 2 ino] unfolding S(1) g off pq root_place_def [symmetric] by blast
  have "mounted D hw cur fs b sc log t"
    using separate_out [OF sp(1)] separate_out [OF sp(3)] separate_out [OF sp(4)] separate_out [OF sp(5)] t(5)
    by (intro mounted_ram [OF m t(3,4)]) simp_all
  with t that show ?thesis by (simp add: holds_def)
qed

section \<open>Listing the root directory\<close>

definition dir_text :: "(u32 \<times> u8 list) list \<Rightarrow> u8 list" where
  "dir_text es = concat (map dir_line es)"

lemma dir_at_image:
  assumes "dir_at (image D o0) 0 N 0 es" "holds m q D o0 N" "N \<le> 4294967296"
  shows "dir_at m q N 0 es"
proof (rule dir_at_cong [OF _ assms(1)])
  show "\<forall>k<N. m (q + of_nat k) = image D o0 (0 + of_nat k)"
    using assms(2,3) by (simp add: holds_def image_def of_nat_less_u32)
qed

lemma same_kernel_ext2: "same_kernel s (t :: 'a ext2_scheme) \<Longrightarrow> tmp t = tmp s \<and> bgd t = bgd s"
  by (cases s, cases t) (simp add: same_kernel_def)

lemma mounted_list_block:
  assumes m: "mounted D hw cur fs b sc log s" and r: "req_addr \<noteq> NULL" and im: "ext2_image D ess"
    and R: "mount_regions fs ino p q b" and q: "tmp s = q" and i: "i < length ess" and h: "holds (ram s) ino D (root_place D) 128"
  obtains t u where "ext2_read_block hw req_addr fs (load32 (ram s) (ino + of_nat (offset_of ''direct_ptr'' ext2_inode + 4 * i))) q s = Some (Inr (0, t))"
    "tmp t = q" "dir_loop q (q + ext2_block_size fs t) t = Some (Inr u)" "mounted D hw cur fs b sc (log @ dir_text (ess ! i)) u" "tmp u = q"
    "holds (ram u) ino D (root_place D) 128"
proof -
  let ?n = "unat (image_block D)" and ?blk = "root_ptr D i"
  note I = image_facts [OF im]
  have L: "length ess \<le> 12" "?n * unat ?blk < 2 ^ 37" "dir_at (image D (?n * unat ?blk)) 0 ?n 0 (ess ! i)"
    using im i by (auto simp: ext2_image_def)
  have R': "q \<noteq> NULL" "separate q 4096 fs 1024" "separate q 4096 b 4160" "separate b 4160 fs 1024" "separate q 4096 ino 128"
    "separate ino 128 b 4160" using R by (simp_all add: mount_regions_def)
  note sp = R'(1-4) separate_mono [OF R'(5) I(2) order_refl] R'(6) [THEN separate_sym [THEN iffD1]]
    separate_mono [OF R'(3) [THEN separate_sym [THEN iffD1]] order_refl I(2)]
  have qn: "unat q + ?n < 2 ^ 32" using sp(5) by (simp add: separate_def)
  have ptr: "load32 (ram s) (ino + of_nat (offset_of ''direct_ptr'' ext2_inode + 4 * i)) = ?blk"
    using holds_load(1) [OF h, of "40 + 4 * i"] i L(1) by (simp add: root_ptr_def)
  obtain t where t: "ext2_read_block hw req_addr fs ?blk q s = Some (Inr (0, t))" "mounted D hw cur fs b sc log t" "same_kernel s t"
    "ram t = disk_bytes D (?n * unat ?blk) q ?n (ram s)"
    by (rule mounted_read_block [OF m r I(1) L(2) sp(1-3)])
  note T = mountedD [OF t(2)]
  let ?u = "terminal_write (dir_text (ess ! i)) 7 t"
  have "dir_at (ram t) q ?n 0 (ess ! i)" unfolding t(4) using I(2) by (intro dir_at_image [OF L(3) holds_disk_bytes]) simp_all
  moreover have "\<forall>k<?n. \<not> in_range (terminal_buffer t) 4000 (q + of_nat k)"
    using separate_not_in_range [OF sp(7), of _ 4000] T(4) by simp
  ultimately have "dir_loop q (q + ext2_block_size fs t) t = Some (Inr ?u)"
    using dir_loop_lists [OF T(3), of q ?n 0] qn superblock_sizes(1) [OF T(6)] by (simp add: dir_text_def)
  moreover have "holds (ram ?u) ino D (root_place D) 128"
  proof (rule holds_cong [OF h])
    fix k :: nat assume k: "k < 128"
    show "ram ?u (ino + of_nat k) = ram s (ino + of_nat k)"
      using terminal_write_outside [OF T(3)] separate_not_in_range [OF sp(6) k, of 4000] T(4) disk_bytes_separate [OF sp(5) k] by (simp add: t(4))
  qed
  moreover have "tmp ?u = tmp t" using terminal_write_rest(2) [of "dir_text (ess ! i)" 7 t] by (cases t, cases ?u) simp
  ultimately show ?thesis
    using that [of t ?u] t(1) same_kernel_ext2 [OF t(3)] q mounted_write [OF t(2) sp(4)] ptr by simp
qed

lemma block_loop_lists:
  assumes "mounted D hw cur fs b sc log s" and r: "req_addr \<noteq> NULL" and im: "ext2_image D ess" and R: "mount_regions fs ino p q b"
    and "tmp s = q" "holds (ram s) ino D (root_place D) 128" "i + k = length ess"
  shows "\<exists>t. block_loop hw req_addr fs ino i k s = Some (Inr (0, t))
    \<and> mounted D hw cur fs b sc (log @ concat (map dir_text (drop i ess))) t"
  using assms(1,5-7)
proof (induction k arbitrary: i s log)
  case 0
  then show ?case by simp
next
  case (Suc k)
  then have i: "i < length ess" by simp
  moreover have "length ess \<le> 12" using im by (simp add: ext2_image_def)
  ultimately have i12: "\<not> 12 \<le> i" by simp
  obtain t u where t: "ext2_read_block hw req_addr fs (load32 (ram s) (ino + of_nat (offset_of ''direct_ptr'' ext2_inode + 4 * i))) q s = Some (Inr (0, t))"
    "tmp t = q" "dir_loop q (q + ext2_block_size fs t) t = Some (Inr u)"
    and u: "mounted D hw cur fs b sc (log @ dir_text (ess ! i)) u" "tmp u = q" "holds (ram u) ino D (root_place D) 128"
    by (rule mounted_list_block [OF Suc.prems(1) r im R Suc.prems(2) i Suc.prems(3)])
  have step: "block_loop hw req_addr fs ino i (Suc k) s = block_loop hw req_addr fs ino (Suc i) k u"
    using t i12 Suc.prems(2) by (simp del: ext2_offsets)
  have "Suc i + k = length ess" using Suc.prems(4) by simp
  from Suc.IH [OF u this] show ?case unfolding step using Cons_nth_drop_Suc [OF i] by (simp flip: Cons_nth_drop_Suc [OF i])
qed

section \<open>The mount\<close>

definition mount_text :: "(nat \<Rightarrow> u8) \<Rightarrow> u8 list" where
  "mount_text D = bytes ''found valid ext2, rev='' @ snum (sb D ''rev'') @ [46] @ snum (ucast (field16 (image D 1024) 0 ext2_superblock ''rev_minor''))
     @ bytes '', sectors_per_block='' @ snum (image_block D div 512) @ bytes '', groups=''
     @ snum (sb D ''total_blocks'' div sb D ''blocks_per_group'') @ [10]"

lemma printk_mount:
  "printk ''found valid ext2, rev=%d.%d, sectors_per_block=%d, groups=%d\<newline>'' [VWord a, VWord c, VWord d, VWord e] s =
    Inr (terminal_write (bytes ''found valid ext2, rev='' @ snum a @ [46] @ snum c @ bytes '', sectors_per_block='' @ snum d
      @ bytes '', groups='' @ snum e @ [10]) 7 s)"
proof -
  have "format (c_string (bytes ''found valid ext2, rev=%d.%d, sectors_per_block=%d, groups=%d\<newline>'')) [VWord a, VWord c, VWord d, VWord e] =
    Inr (bytes ''found valid ext2, rev='' @ snum a @ [46] @ snum c @ bytes '', sectors_per_block='' @ snum d
      @ bytes '', groups='' @ snum e @ [10])"
    by (simp add: bytes_def c_string_def spec_directive_def spec_word_def)
  then show ?thesis by (simp add: printk_def vprintk_eq tty.emit_def del: terminal_write_append)
qed

text \<open>The read of the superblock and the two pages the mount takes.\<close>

lemma mount_superblock:
  assumes disk: "ata_disk D (io_base (primary_master s)) hw" and r: "disk_ready cur s" "req_addr \<noteq> NULL" and t: "terminal_inv s" "terminal_buffer s = b"
    and R: "mount_regions fs ino p q b" and fl: "freelist_head s = p" "load32 (ram s) p = q"
  obtains s1 u1 u2 where "ata_read_wait hw req_addr fs 2 2 s = Some (Inr (0, s1))" "mounted D hw cur fs b (screen_of s) [] s1"
    "kalloc s1 = (p, u1)" "kalloc (u1\<lparr>bgd := p\<rparr>) = (q, u2)" "mounted D hw cur fs b (screen_of s) [] (u2\<lparr>tmp := q\<rparr>)" "bgd u2 = p"
proof -
  have R': "fs \<noteq> NULL" "p \<noteq> NULL" "q \<noteq> NULL" "separate p 4096 fs 1024" "separate b 4160 fs 1024" using R by (simp_all add: mount_regions_def)
  note S = R'(4,5) [THEN separate_sym [THEN iffD1]]
  have "unat fs + 512 * unat (2 :: u32) \<le> 2 ^ 32" using R'(4) by (simp add: separate_def)
  from ata_read_wait_reads [OF disk r _ _ R'(1) this, of 2] obtain s1 where
    s1: "ata_read_wait hw req_addr fs 2 2 s = Some (Inr (0, s1))" "disk_ready cur s1" "same_kernel s s1"
    "ram s1 = disk_bytes D 1024 fs 1024 (ram s)" by auto
  have k: "freelist_head s1 = p" "primary_master s1 = primary_master s" "terminal_row s1 = terminal_row s"
    "terminal_column s1 = terminal_column s" "terminal_buffer s1 = b" using s1(3) fl(1) t(2) by (simp_all add: same_kernel_def)
  have "screen_of s1 = screen_of s"
    using disk_bytes_separate [OF S(2)] k t(2) by (intro screen_cong) (simp_all add: s1(4))
  moreover have "holds (ram s1) fs D 1024 1024" unfolding s1(4) by (rule holds_disk_bytes) simp
  ultimately have m: "mounted D hw cur fs b (screen_of s) [] s1" using disk s1(2) t k by (simp add: mounted_def terminal_inv_def)
  have "ram s1 (p + of_nat j) = ram s (p + of_nat j)" if "j < 4096" for j unfolding s1(4) by (rule disk_bytes_separate [OF S(1) that])
  from this [of 0] this [of 1] this [of 2] this [of 3] have "load32 (ram s1) p = q" using fl(2) by (simp add: load32_def)
  then have k1: "kalloc s1 = (p, s1\<lparr>freelist_head := q\<rparr>)" using k(1) R'(2) by (simp add: kalloc_def)
  let ?u = "s1\<lparr>freelist_head := load32 (ram s1) q, bgd := p\<rparr>"
  have k2: "kalloc (s1\<lparr>freelist_head := q\<rparr>\<lparr>bgd := p\<rparr>) = (q, ?u)" using R'(3) by (simp add: kalloc_def)
  have "mounted D hw cur fs b (screen_of s) [] (?u\<lparr>tmp := q\<rparr>)"
  proof -
    have "screen_of (?u\<lparr>tmp := q\<rparr>) = screen_of s1" by (simp add: screen_of_def cursor_def)
    then show ?thesis using m by (simp add: mounted_def disk_ready_def terminal_inv_def)
  qed
  then show ?thesis using that [OF s1(1) m k1 k2] by simp
qed

lemma image_checks:
  assumes im: "ext2_image D ess" and m: "mounted D hw cur fs b sc log s"
  shows "field16 (ram s) fs ext2_superblock ''signature'' = EXT2_SIGNATURE"
    "field32 (ram s) fs ext2_superblock ''blocks_per_group'' = sb D ''blocks_per_group''" "sb D ''blocks_per_group'' \<noteq> 0"
    "field32 (ram s) fs ext2_superblock ''total_blocks'' = sb D ''total_blocks''"
    "field32 (ram s) fs ext2_superblock ''block_size_log'' = sb D ''block_size_log''" "field32 (ram s) fs ext2_superblock ''rev'' = sb D ''rev''"
    "field16 (ram s) fs ext2_superblock ''rev_minor'' = field16 (image D 1024) 0 ext2_superblock ''rev_minor''"
    "ext2_block_size fs s = image_block D" "\<not> PAGE_SIZE < image_block D"
    "\<not> PAGE_SIZE div of_nat (sizeof ext2_block_group_descriptor) < sb D ''total_blocks'' div sb D ''blocks_per_group''"
    "shl 2 (sb D ''block_size_log'') \<noteq> 0"
proof -
  note H = mountedD(6) [OF m]
  show "field16 (ram s) fs ext2_superblock ''signature'' = EXT2_SIGNATURE"
    using superblock_fields(2) [OF H, of "''signature''"] im by (simp add: ext2_image_def)
  show "field32 (ram s) fs ext2_superblock ''blocks_per_group'' = sb D ''blocks_per_group''"
    "field32 (ram s) fs ext2_superblock ''total_blocks'' = sb D ''total_blocks''"
    "field32 (ram s) fs ext2_superblock ''block_size_log'' = sb D ''block_size_log''" "field32 (ram s) fs ext2_superblock ''rev'' = sb D ''rev''"
    "field16 (ram s) fs ext2_superblock ''rev_minor'' = field16 (image D 1024) 0 ext2_superblock ''rev_minor''"
    using superblock_fields [OF H, of "''blocks_per_group''"] superblock_fields [OF H, of "''total_blocks''"]
      superblock_fields [OF H, of "''block_size_log''"] superblock_fields [OF H, of "''rev''"] superblock_fields(2) [OF H, of "''rev_minor''"]
    by simp_all
  show "ext2_block_size fs s = image_block D" by (rule superblock_sizes(1) [OF H])
  have b: "image_block D = 2048 \<or> image_block D = 4096" using im by (simp add: ext2_image_def)
  then show "\<not> PAGE_SIZE < image_block D" by (auto simp: PAGE_SIZE_def)
  show "sb D ''blocks_per_group'' \<noteq> 0"
    "\<not> PAGE_SIZE div of_nat (sizeof ext2_block_group_descriptor) < sb D ''total_blocks'' div sb D ''blocks_per_group''"
    using im by (auto simp: ext2_image_def PAGE_SIZE_def not_less)
  show "shl 2 (sb D ''block_size_log'') \<noteq> 0" using b by (intro shl_2_nz) (auto simp: image_block_def)
qed

text \<open>The read of the group descriptors, and the line that reports the file system.\<close>

lemma mount_descriptors:
  assumes m: "mounted D hw cur fs b sc [] s" and r: "req_addr \<noteq> NULL" and im: "ext2_image D ess"
    and R: "mount_regions fs ino p q b" and pq: "bgd s = p" "tmp s = q"
  obtains t where "ext2_read_block hw req_addr fs 1 p s = Some (Inr (0, t))" "mounted D hw cur fs b sc [] t"
    "mounted D hw cur fs b sc (mount_text D) (terminal_write (mount_text D) 7 t)"
    "bgd (terminal_write (mount_text D) 7 t) = p" "tmp (terminal_write (mount_text D) 7 t) = q"
    "holds (ram (terminal_write (mount_text D) 7 t)) p D (unat (image_block D)) (unat (image_block D))"
proof -
  let ?n = "unat (image_block D)"
  note I = image_facts [OF im]
  have R': "p \<noteq> NULL" "separate p 4096 fs 1024" "separate p 4096 b 4160" "separate b 4160 fs 1024" using R by (simp_all add: mount_regions_def)
  have b1: "?n * unat (1 :: u32) < 2 ^ 37" using I(2) by simp
  obtain t where t: "ext2_read_block hw req_addr fs 1 p s = Some (Inr (0, t))" "mounted D hw cur fs b sc [] t"
    "same_kernel s t" "ram t = disk_bytes D (?n * unat (1 :: u32)) p ?n (ram s)"
    by (rule mounted_read_block [OF m r I(1) b1 R'(1-3)])
  let ?u = "terminal_write (mount_text D) 7 t"
  have u: "bgd ?u = p" "tmp ?u = q"
    using same_kernel_ext2 [OF t(3)] pq terminal_write_rest(2) [of "mount_text D" 7 t] by (cases t, cases ?u, simp)+
  have "holds (ram ?u) p D ?n ?n"
  proof (rule holds_cong)
    show "holds (ram t) p D ?n ?n" unfolding t(4) using holds_disk_bytes [of ?n D ?n p] I(2) by simp
    show "ram ?u (p + of_nat k) = ram t (p + of_nat k)" if "k < ?n" for k
      using terminal_write_outside [OF mountedD(3) [OF t(2)]] mountedD(4) [OF t(2)] that I(2)
        separate_not_in_range [OF R'(3) [THEN separate_sym [THEN iffD1]], of k 4000] by simp
  qed
  then show ?thesis using that [OF t(1,2) _ u] mounted_write [OF t(2) R'(4), of "mount_text D"] by simp
qed

text \<open>C6. On a disk with a well-formed file system of 2 or 4 KiB blocks, at most 128 block groups and a root directory of at most
  12 blocks, \<open>init_ext2\<close> returns; it has printed the
  revision, the number of sectors of a block and the number of block groups, and then one line for every
  entry of every block of the root directory, in the order of the disk.\<close>

theorem init_ext2_lists_root:
  assumes disk: "ata_disk D (io_base (primary_master s)) hw" and r: "disk_ready cur s" "req_addr \<noteq> NULL" and t: "terminal_inv s"
    and R: "mount_regions fs ino p q (terminal_buffer s)" and fl: "freelist_head s = p" "load32 (ram s) p = q" and im: "ext2_image D ess"
  shows "\<exists>t. init_ext2 hw req_addr fs ino s = Some (Inr t)
    \<and> screen_of t = fold (\<lambda>c. screen_put c 7) (mount_text D @ concat (map dir_text ess)) (screen_of s)"
proof -
  let ?b = "terminal_buffer s" and ?sc = "screen_of s" and ?n = "unat (image_block D)"
  obtain s1 u1 u2 where s1: "ata_read_wait hw req_addr fs 2 2 s = Some (Inr (0, s1))" "mounted D hw cur fs ?b ?sc [] s1"
    "kalloc s1 = (p, u1)" "kalloc (u1\<lparr>bgd := p\<rparr>) = (q, u2)" and s2: "mounted D hw cur fs ?b ?sc [] (u2\<lparr>tmp := q\<rparr>)" "bgd u2 = p"
    by (rule mount_superblock [OF disk r t refl R fl])
  note C1 = image_checks [OF im s1(2)]
  obtain s3 where s3: "ext2_read_block hw req_addr fs 1 p (u2\<lparr>tmp := q\<rparr>) = Some (Inr (0, s3))" "mounted D hw cur fs ?b ?sc [] s3"
    and s4: "mounted D hw cur fs ?b ?sc (mount_text D) (terminal_write (mount_text D) 7 s3)"
    and pq: "bgd (terminal_write (mount_text D) 7 s3) = p" "tmp (terminal_write (mount_text D) 7 s3) = q"
    and h: "holds (ram (terminal_write (mount_text D) 7 s3)) p D ?n ?n"
    by (rule mount_descriptors [OF s2(1) r(2) im R]) (use s2(2) in simp_all)
  note C3 = image_checks [OF im s3(2)]
  let ?s4 = "terminal_write (mount_text D) 7 s3"
  obtain s5 where s5: "ext2_read_inode hw req_addr fs 2 ino ?s4 = Some (Inr (0, s5))" "mounted D hw cur fs ?b ?sc (mount_text D) s5"
    "same_kernel ?s4 s5" "holds (ram s5) ino D (root_place D) 128"
    by (rule mounted_read_inode [OF s4 r(2) im R pq h])
  note C5 = image_checks [OF im s5(2)]
  have n: "unat (field32 (ram s5) ino ext2_inode ''i_blocks'' div shl 2 (sb D ''block_size_log'')) = length ess"
    using holds_load(1) [OF s5(4), of 28] im by (simp add: field32_def root_blocks_def ext2_image_def)
  have "tmp s5 = q" using same_kernel_ext2 [OF s5(3)] pq by simp
  then obtain s6 where s6: "block_loop hw req_addr fs ino 0 (length ess) s5 = Some (Inr (0, s6))"
    "mounted D hw cur fs ?b ?sc (mount_text D @ concat (map dir_text ess)) s6"
    using block_loop_lists [OF s5(2) r(2) im R _ s5(4), of 0 "length ess"] by auto
  have pr: "printk ''found valid ext2, rev=%d.%d, sectors_per_block=%d, groups=%d\<newline>''
      [VWord (sb D ''rev''), VWord (ucast (field16 (image D 1024) 0 ext2_superblock ''rev_minor'')),
       VWord (image_block D div 512), VWord (sb D ''total_blocks'' div sb D ''blocks_per_group'')] s3 = Inr ?s4"
    by (simp only: printk_mount mount_text_def)
  have "ext2_init hw req_addr fs ino s = Some (Inr (0, s6))"
    using s1(1,3,4) s2(2) s3(1) s5(1) s6(1) C1 C3(6,7) C5(5,11) pr n
    by (simp add: ext2_init_def ext2_load_groups_def Let_def image_block_def [symmetric] del: ext2_sizes)
  then show ?thesis using mountedD(5) [OF s6(2)] by (simp add: init_ext2_def)
qed

section \<open>The group descriptors of a file system with small blocks\<close>

text \<open>A superblock that the mount accepts, of a file system with blocks of 1 KiB.\<close>

definition small_blocks :: "(nat \<Rightarrow> u8) \<Rightarrow> bool" where
  "small_blocks D \<longleftrightarrow> field16 (image D 1024) 0 ext2_superblock ''signature'' = EXT2_SIGNATURE \<and> image_block D = 1024
     \<and> sb D ''blocks_per_group'' \<noteq> 0 \<and> sb D ''total_blocks'' div sb D ''blocks_per_group'' \<le> 128
     \<and> 2 \<le> sb D ''inodes_per_block_group''"

text \<open>C40. With blocks of 1 KiB the superblock is block 1 and the block group descriptors are in block 2, at offset
  2048 of the disk. \<open>ext2_init\<close> accepts such a file system, but reads block 1: what it takes for the group
  descriptors are the bytes of the superblock, and the inode table in which it then looks for the root
  inode is the superblock's number of reserved blocks, whatever the descriptors on the disk say.\<close>

theorem ext2_small_blocks_misread:
  assumes disk: "ata_disk D (io_base (primary_master s)) hw" and r: "disk_ready cur s" "req_addr \<noteq> NULL" and t: "terminal_inv s"
    and R: "mount_regions fs ino p q (terminal_buffer s)" and fl: "freelist_head s = p" "load32 (ram s) p = q" and im: "small_blocks D"
  shows "\<exists>t. ext2_load_groups hw req_addr fs s = Some (Inr ((0, 2, sb D ''total_blocks'' div sb D ''blocks_per_group''), t))
    \<and> bgd t = p \<and> (\<forall>k<1024. ram t (bgd t + of_nat k) = D (1024 + k))
    \<and> group_table fs 2 t = sb D ''root_reserved_blocks''"
proof -
  let ?b = "terminal_buffer s" and ?sc = "screen_of s"
  obtain s1 u1 u2 where s1: "ata_read_wait hw req_addr fs 2 2 s = Some (Inr (0, s1))" "mounted D hw cur fs ?b ?sc [] s1"
    "kalloc s1 = (p, u1)" "kalloc (u1\<lparr>bgd := p\<rparr>) = (q, u2)" and s2: "mounted D hw cur fs ?b ?sc [] (u2\<lparr>tmp := q\<rparr>)" "bgd u2 = p"
    by (rule mount_superblock [OF disk r t refl R fl])
  have R': "p \<noteq> NULL" "separate p 4096 fs 1024" "separate p 4096 ?b 4160" using R by (simp_all add: mount_regions_def)
  have bs: "image_block D = 1024" "valid_block_size (image_block D)" "unat (image_block D) * unat (1 :: u32) < 2 ^ 37"
    using im by (simp_all add: small_blocks_def valid_block_size_def)
  obtain t where t: "ext2_read_block hw req_addr fs 1 p (u2\<lparr>tmp := q\<rparr>) = Some (Inr (0, t))" "mounted D hw cur fs ?b ?sc [] t"
    "same_kernel (u2\<lparr>tmp := q\<rparr>) t" "ram t = disk_bytes D 1024 p 1024 (ram (u2\<lparr>tmp := q\<rparr>))"
    by (rule mounted_read_block [OF s2(1) r(2) bs(2,3) R']) (simp add: bs(1))
  note H = mountedD(6) [OF s1(2)] and K = mountedD(6) [OF t(2)]
  have C: "field16 (ram s1) fs ext2_superblock ''signature'' = EXT2_SIGNATURE" "field32 (ram s1) fs ext2_superblock ''block_size_log'' = sb D ''block_size_log''"
    "field32 (ram s1) fs ext2_superblock ''blocks_per_group'' = sb D ''blocks_per_group''" "sb D ''blocks_per_group'' \<noteq> 0"
    "field32 (ram s1) fs ext2_superblock ''total_blocks'' = sb D ''total_blocks''" "ext2_block_size fs s1 = 1024"
    "\<not> PAGE_SIZE div of_nat (sizeof ext2_block_group_descriptor) < sb D ''total_blocks'' div sb D ''blocks_per_group''"
    using superblock_fields(2) [OF H, of "''signature''"] superblock_fields [OF H, of "''block_size_log''"] superblock_fields [OF H, of "''blocks_per_group''"]
      superblock_fields [OF H, of "''total_blocks''"] superblock_sizes(1) [OF H] im
    by (simp_all add: small_blocks_def PAGE_SIZE_def not_less)
  have "shl 1024 (sb D ''block_size_log'') = 1024" using bs(1) by (simp add: image_block_def)
  then have load: "ext2_load_groups hw req_addr fs s = Some (Inr ((0, 2, sb D ''total_blocks'' div sb D ''blocks_per_group''), t))"
    using s1(1,3,4) s2(2) t(1) C by (simp add: ext2_load_groups_def Let_def PAGE_SIZE_def del: ext2_sizes)
  have g: "bgd t = p" using same_kernel_ext2 [OF t(3)] s2(2) by simp
  have h: "holds (ram t) p D 1024 1024" unfolding t(4) by (rule holds_disk_bytes) simp
  have "field32 (ram t) fs ext2_superblock ''inodes_per_block_group'' = sb D ''inodes_per_block_group''"
    using superblock_fields(1) [OF K, of "''inodes_per_block_group''"] by simp
  moreover have "1 div sb D ''inodes_per_block_group'' = 0"
    using im by (simp add: small_blocks_def word_unat_eq_iff unat_div word_le_nat_alt)
  ultimately have "group_table fs 2 t = sb D ''root_reserved_blocks''"
    using holds_load(1) [OF h, of 8] g by (simp add: group_table_def sb_def field32_def)
  with load g h show ?thesis by (auto simp: holds_def)
qed

section \<open>A small file system\<close>

definition disk1 :: "nat \<Rightarrow> u8" where
  "disk1 = (\<lambda>_. 0)(1028 := 64, 1048 := 1, 1056 := 64, 1064 := 32, 1080 := 0x53, 1081 := 0xef, 2056 := 5, 10396 := 4, 10408 := 6,
     12288 := 2, 12293 := 8, 12294 := 1, 12295 := 2, 12296 := 46)"

lemma disk1_superblock:
  "field16 (image disk1 1024) 0 ext2_superblock ''signature'' = EXT2_SIGNATURE"
  "sb disk1 ''block_size_log'' = 1" "sb disk1 ''blocks_per_group'' = 64" "sb disk1 ''total_blocks'' = 64" "sb disk1 ''inodes_per_block_group'' = 32"
  "inode_size (image disk1 1024) 0 = 128"
  by (simp_all add: sb_def inode_size_def field32_def field16_def load32_def load16_def image_def disk1_def EXT2_SIGNATURE_def)

lemma disk1_root:
  "image_block disk1 = 2048" "root_place disk1 = 10368" "root_blocks disk1 = 1" "root_ptr disk1 0 = 6"
proof -
  show b: "image_block disk1 = 2048" by (simp add: image_block_def disk1_superblock shl_def)
  have d: "(1 :: u32) div 32 = 0" "(1 :: u32) mod 32 = 1" by (simp_all add: word_unat_eq_iff unat_div unat_mod)
  have "root_table disk1 = 5"
    by (simp add: root_table_def b disk1_superblock d load32_def image_def) (simp add: disk1_def)
  then show r: "root_place disk1 = 10368" by (simp add: root_place_def root_index_def b d disk1_superblock)
  show "root_blocks disk1 = 1"
    by (simp add: root_blocks_def r disk1_superblock shl_def field32_def load32_def image_def) (simp add: disk1_def)
  show "root_ptr disk1 0 = 6" by (simp add: root_ptr_def r load32_def image_def) (simp add: disk1_def)
qed

lemma disk1_image: "ext2_image disk1 [[(2, [46])]]"
proof -
  have "dir_at (image disk1 12288) 0 2048 0 [(2, [46])]" by (simp add: load32_def load16_def image_def disk1_def)
  then show ?thesis by (simp add: ext2_image_def disk1_superblock disk1_root)
qed

definition mount0 :: ext2 where
  "mount0 = ext20 1\<lparr>ram := store32 (\<lambda>_. 0) 0xc0300000 0xc0301000, freelist_head := 0xc0300000,
     terminal_row := 0, terminal_column := 0, terminal_buffer := 0xc00b8000\<rparr>"

theorem init_ext2_lists_root_witness:
  "\<exists>t. init_ext2 (disk_hw disk1 0x1f0) 0x1000 0xc0200000 0xc0400000 mount0 = Some (Inr t)
    \<and> screen_of t = fold (\<lambda>c. screen_put c 7) (mount_text disk1 @ dir_line (2, [46])) (screen_of mount0)"
proof -
  have r: "disk_ready 0 mount0" using ext20_ready [of 1] by (simp add: disk_ready_def mount0_def)
  have "mount_regions 0xc0200000 0xc0400000 0xc0300000 0xc0301000 (terminal_buffer mount0)"
    by (simp add: mount_regions_def separate_def mount0_def)
  moreover have "ata_disk disk1 (io_base (primary_master mount0)) (disk_hw disk1 0x1f0)" using disk_hw_disk by (simp add: mount0_def)
  moreover have "terminal_inv mount0" by (simp add: mount0_def terminal_inv_def VGA_WIDTH_def VGA_HEIGHT_def)
  moreover have "freelist_head mount0 = 0xc0300000" "load32 (ram mount0) 0xc0300000 = 0xc0301000" by (simp_all add: mount0_def)
  ultimately show ?thesis
    using init_ext2_lists_root [OF _ r _ _ _ _ _ disk1_image, of "disk_hw disk1 0x1f0" "0x1000"] by (simp add: dir_text_def)
qed

text \<open>The same disk with blocks of 1 KiB, seven reserved blocks, and the inode table of the first group in block 5.\<close>

definition disk2 :: "nat \<Rightarrow> u8" where
  "disk2 = disk1(1048 := 0, 1032 := 7)"

theorem ext2_small_blocks_misread_witness:
  "\<exists>t. ext2_load_groups (disk_hw disk2 0x1f0) 0x1000 0xc0200000 mount0 = Some (Inr ((0, 2, 1), t))
    \<and> group_table 0xc0200000 2 t = 7 \<and> load32 (image disk2 2048) 8 = 5"
proof -
  have r: "disk_ready 0 mount0" using ext20_ready [of 1] by (simp add: disk_ready_def mount0_def)
  have "mount_regions 0xc0200000 0xc0400000 0xc0300000 0xc0301000 (terminal_buffer mount0)"
    by (simp add: mount_regions_def separate_def mount0_def)
  moreover have "ata_disk disk2 (io_base (primary_master mount0)) (disk_hw disk2 0x1f0)" using disk_hw_disk by (simp add: mount0_def)
  moreover have "terminal_inv mount0" by (simp add: mount0_def terminal_inv_def VGA_WIDTH_def VGA_HEIGHT_def)
  moreover have "freelist_head mount0 = 0xc0300000" "load32 (ram mount0) 0xc0300000 = 0xc0301000" by (simp_all add: mount0_def)
  moreover have d: "sb disk2 ''blocks_per_group'' = 64" "sb disk2 ''total_blocks'' = 64" "sb disk2 ''inodes_per_block_group'' = 32"
    "sb disk2 ''root_reserved_blocks'' = 7" "sb disk2 ''block_size_log'' = 0"
    "field16 (image disk2 1024) 0 ext2_superblock ''signature'' = EXT2_SIGNATURE"
    by (simp_all add: sb_def field32_def field16_def load32_def load16_def image_def disk2_def disk1_def EXT2_SIGNATURE_def)
  then have "small_blocks disk2" by (simp add: small_blocks_def image_block_def shl_def word_le_nat_alt)
  moreover have "load32 (image disk2 2048) 8 = 5" by (simp add: load32_def image_def disk2_def disk1_def)
  ultimately show ?thesis
    using ext2_small_blocks_misread [OF _ r, of disk2 "disk_hw disk2 0x1f0" "0x1000" "0xc0200000" "0xc0400000" "0xc0300000" "0xc0301000"] d by auto
qed

end
