(* ===== verification/Spinlock.thy ===== *)
theory Spinlock
  imports Memory
begin

text \<open>
  Spin locks: \<^verbatim>\<open>src/spinlock.h\<close>.

  The lock is a word in memory. \<open>spin_lock\<close> alone is a loop that may not end; with several threads each
  attempt of its loop is one atomic step of a transition system, and so is the store of
  \<open>spin_unlock\<close> (its compiler barrier keeps the critical section before it). The locale
  \<open>invariant_system\<close> gives mutual exclusion in every reachable state.
\<close>

section \<open>The operations\<close>

text \<open>\<^verbatim>\<open>__sync_bool_compare_and_swap\<close>, a full barrier that runs atomically.\<close>

definition bool_compare_and_swap :: "u32 \<Rightarrow> u32 \<Rightarrow> u32 \<Rightarrow> mem \<Rightarrow> bool \<times> mem" where
  "bool_compare_and_swap p old new m = (if load32 m p = old then (True, store32 m p new) else (False, m))"

partial_function (option) spin_lock :: "u32 \<Rightarrow> mem \<Rightarrow> mem option" where
  "spin_lock p m = (let r = bool_compare_and_swap p 0 1 m in if fst r then Some (snd r) else spin_lock p (snd r))"

definition spin_unlock :: "u32 \<Rightarrow> mem \<Rightarrow> mem" where
  "spin_unlock p m = store32 m p 0"

text \<open>Without another thread a lock is taken at once or never: taking it twice does not return.\<close>

lemma spin_lock_free: "load32 m p = 0 \<Longrightarrow> spin_lock p m = Some (store32 m p 1)"
  by (subst spin_lock.simps) (simp add: bool_compare_and_swap_def)

lemma spin_lock_held: "load32 m p \<noteq> 0 \<Longrightarrow> spin_lock p m = None"
proof -
  have "spin_lock p m = Some r \<Longrightarrow> load32 m p = 0" for r
  proof (erule spin_lock.raw_induct [where P = "\<lambda>p m r. load32 m p = 0", rotated])
    fix f p m r
    assume IH: "\<And>p m r. f p m = Some r \<Longrightarrow> load32 m p = 0"
      and eq: "(let r = bool_compare_and_swap p 0 1 m in if fst r then Some (snd r) else f p (snd r)) = Some r"
    show "load32 m p = 0"
      using eq IH [of p m r] by (cases "load32 m p = 0") (auto simp: bool_compare_and_swap_def)
  qed
  then show "load32 m p \<noteq> 0 \<Longrightarrow> spin_lock p m = None" by (cases "spin_lock p m") auto
qed

lemma unlock_lock: "spin_lock p (spin_unlock p m) = Some (store32 m p 1)"
  by (simp add: spin_lock_free spin_unlock_def)

section \<open>Several threads\<close>

text \<open>Each thread runs outside, spins in the loop of \<open>spin_lock\<close>, or is in its critical section, where it may write
  any memory but the lock.\<close>

datatype thread_pc = Outside | Spinning | Critical

inductive spin_step :: "u32 \<Rightarrow> (nat \<Rightarrow> thread_pc) \<times> mem \<Rightarrow> (nat \<Rightarrow> thread_pc) \<times> mem \<Rightarrow> bool" for p :: u32 where
  call_lock: "pc i = Outside \<Longrightarrow> spin_step p (pc, m) (pc(i := Spinning), m)"
| attempt: "pc i = Spinning \<Longrightarrow> bool_compare_and_swap p 0 1 m = (ok, m') \<Longrightarrow>
    spin_step p (pc, m) (if ok then pc(i := Critical) else pc, m')"
| access: "(\<And>a. in_range p 4 a \<Longrightarrow> m' a = m a) \<Longrightarrow> spin_step p (pc, m) (pc, m')"
| unlock: "pc i = Critical \<Longrightarrow> spin_step p (pc, m) (pc(i := Outside), spin_unlock p m)"

definition spin_init :: "u32 \<Rightarrow> (nat \<Rightarrow> thread_pc) \<times> mem \<Rightarrow> bool" where
  "spin_init p k \<longleftrightarrow> (\<forall>i. fst k i = Outside) \<and> load32 (snd k) p = 0"

text \<open>The lock word says whether a thread is in its critical section, and there is at most one.\<close>

definition spin_inv :: "u32 \<Rightarrow> (nat \<Rightarrow> thread_pc) \<times> mem \<Rightarrow> bool" where
  "spin_inv p k \<longleftrightarrow> load32 (snd k) p = (if \<exists>i. fst k i = Critical then 1 else 0)
     \<and> (\<forall>i j. fst k i = Critical \<and> fst k j = Critical \<longrightarrow> i = j)"

lemma spin_step_inv: "spin_step p a b \<Longrightarrow> spin_inv p a \<Longrightarrow> spin_inv p b"
proof (induction rule: spin_step.induct)
  case (call_lock pc i m)
  have "(pc(i := Spinning)) j = Critical \<longleftrightarrow> pc j = Critical" for j using call_lock.hyps by simp
  with call_lock.prems show ?case by (simp add: spin_inv_def)
next
  case (attempt pc i m ok m')
  show ?case
  proof (cases "load32 m p = 0")
    case True
    then have "\<forall>j. pc j \<noteq> Critical" using attempt.prems by (simp add: spin_inv_def split: if_splits)
    then have "(pc(i := Critical)) j = Critical \<longleftrightarrow> j = i" for j by simp
    moreover have "ok" "m' = store32 m p 1" using attempt.hyps(2) True by (simp_all add: bool_compare_and_swap_def)
    ultimately show ?thesis by (simp add: spin_inv_def)
  next
    case False
    with attempt show ?thesis by (simp add: bool_compare_and_swap_def)
  qed
next
  case (access m' m pc)
  have "load32 m' p = load32 m p" by (rule load32_cong) (simp add: access.hyps)
  with access.prems show ?case by (simp add: spin_inv_def)
next
  case (unlock pc i m)
  then have "\<forall>j. (pc(i := Outside)) j \<noteq> Critical" by (auto simp: spin_inv_def)
  then show ?case by (simp add: spin_inv_def spin_unlock_def)
qed

interpretation spin: invariant_system "spin_init p" "spin_step p" "spin_inv p"
proof
  fix s show "spin_init p s \<Longrightarrow> spin_inv p s" by (simp add: spin_init_def spin_inv_def)
qed (rule spin_step_inv)

text \<open>C18. Mutual exclusion: however any number of threads interleave, at most one of them is between its
  \<open>spin_lock\<close> and its \<open>spin_unlock\<close>, the lock word is 1 exactly while there is one, and a thread that
  tries the lock then does not get it.\<close>

theorem spin_mutual_exclusion:
  assumes "reach (spin_init p) (spin_step p) (pc, m)"
  shows "(pc i = Critical \<and> pc j = Critical \<longrightarrow> i = j)
    \<and> load32 m p = (if \<exists>i. pc i = Critical then 1 else 0)
    \<and> (pc i = Critical \<longrightarrow> bool_compare_and_swap p 0 1 m = (False, m) \<and> spin_lock p m = None)"
proof -
  have inv: "spin_inv p (pc, m)" by (rule spin.reach_inv [OF assms])
  have held: "bool_compare_and_swap p 0 1 m = (False, m) \<and> spin_lock p m = None" if "pc i = Critical"
  proof -
    have "load32 m p = 1" using inv that by (auto simp: spin_inv_def)
    then show ?thesis by (simp add: bool_compare_and_swap_def spin_lock_held)
  qed
  with inv show ?thesis unfolding spin_inv_def fst_conv snd_conv by blast
qed

theorem spin_mutual_exclusion_witness:
  "\<exists>pc m. reach (spin_init 0x1000) (spin_step 0x1000) (pc, m) \<and> pc 2 = Critical \<and> pc 5 = Spinning
     \<and> load32 m 0x1000 = 1 \<and> bool_compare_and_swap 0x1000 0 1 m = (False, m)"
proof -
  let ?R = "reach (spin_init 0x1000) (spin_step 0x1000)"
  let ?m = "\<lambda>_. 0 :: u8" and ?pc = "\<lambda>_. Outside"
  have "?R (?pc, ?m)" by (rule reach_init) (simp add: spin_init_def load32_def)
  then have "?R (?pc(2 := Spinning), ?m)" by (rule reach_step) (rule call_lock, simp)
  then have "?R (?pc(2 := Spinning, 5 := Spinning), ?m)" by (rule reach_step) (rule call_lock, simp)
  moreover have "bool_compare_and_swap 0x1000 0 1 ?m = (True, store32 ?m 0x1000 1)"
    by (simp add: bool_compare_and_swap_def load32_def)
  ultimately have r: "?R ((?pc(2 := Spinning, 5 := Spinning))(2 := Critical), store32 ?m 0x1000 1)"
    using attempt [of "?pc(2 := Spinning, 5 := Spinning)" 2 "0x1000" ?m True] by (auto intro: reach_step)
  show ?thesis
    using spin_mutual_exclusion [OF r, of 2 2]
    by (intro exI [of _ "(?pc(2 := Spinning, 5 := Spinning))(2 := Critical)"] exI [of _ "store32 ?m 0x1000 1"]) (use r in simp)
qed

end
