(* ===== verification/Start.thy ===== *)
theory Start
  imports Page_Tables Multiboot "HOL-Library.Monad_Syntax"
begin

text \<open>
  From the boot loader to \<open>kernel_main\<close>: \<^verbatim>\<open>src/boot.S\<close>.

  The processor starts with paging off. Its state is a record of the registers that \<^verbatim>\<open>boot.S\<close> uses, the boot
  page directory and physical memory; every access to the stack goes through \<open>mmu\<close>, which is the identity
  until paging is on and the page walk of \<open>early_translate\<close> afterwards, and a walk that fails is \<open>None\<close>.
  Addresses that the linker fixes, and the return addresses that calls push, are arguments.
\<close>

section \<open>The multiboot header\<close>

text \<open>The section \<^verbatim>\<open>.multiboot\<close> of \<^verbatim>\<open>boot.S\<close>, at the address \<open>p\<close>.\<close>

definition boot_flags :: u32 where
  "boot_flags = push_bit 0 1 OR push_bit 1 1"

definition put_header :: "u32 \<Rightarrow> mem \<Rightarrow> mem" where
  "put_header p m = store32 (store32 (store32 m p 0x1BADB002) (p + 4) boot_flags) (p + 8) (- (0x1BADB002 + boot_flags))"

text \<open>What the boot loader checks, and what it takes the flags to ask for.\<close>

lemma header_accepted:
  fixes p :: u32 and m :: mem
  defines "h \<equiv> field32 (put_header p m) p multiboot_header"
  shows "h ''magic'' = MULTIBOOT_HEADER_MAGIC" "h ''magic'' + h ''flags'' + h ''checksum'' = 0"
    "h ''flags'' = MULTIBOOT_PAGE_ALIGN OR MULTIBOOT_MEMORY_INFO"
    "h ''flags'' AND (MULTIBOOT_VIDEO_MODE OR MULTIBOOT_AOUT_KLUDGE) = 0"
  unfolding h_def
  by (simp_all add: field32_def multiboot_header_def put_header_def boot_flags_def mem_simps multiboot_consts)

section \<open>Turning paging on\<close>

record boot_cpu =
  b_eax :: u32
  b_ebx :: u32
  b_esp :: u32
  b_ebp :: u32
  b_eip :: u32
  b_cr0 :: u32
  b_cr3 :: u32
  b_cr4 :: u32
  early_pgdir :: "u32 list"
  phys :: mem

definition mmu :: "boot_cpu \<Rightarrow> u32 \<Rightarrow> u32 option" where
  "mmu b va =
     (if \<not> bit (b_cr0 b) 31 then Some va
      else if bit (b_cr4 b) 4 then early_translate (early_pgdir b) va else None)"

definition push :: "u32 \<Rightarrow> boot_cpu \<Rightarrow> boot_cpu option" where
  "push v b = do {
     let b = b\<lparr>b_esp := b_esp b - 4\<rparr>;
     pa \<leftarrow> mmu b (b_esp b);
     Some (b\<lparr>phys := store32 (phys b) pa v\<rparr>)
   }"

definition pop_ebx :: "boot_cpu \<Rightarrow> boot_cpu option" where
  "pop_ebx b = do {
     pa \<leftarrow> mmu b (b_esp b);
     Some (b\<lparr>b_ebx := load32 (phys b) pa, b_esp := b_esp b + 4\<rparr>)
   }"

text \<open>A call of a C function that returns: it pushes the return address and pops it again. What the function keeps on the
  stack below that is not modelled.\<close>

definition call_setup_paging :: "u32 \<Rightarrow> boot_cpu \<Rightarrow> boot_cpu option" where
  "call_setup_paging ret b = do {
     b \<leftarrow> push ret b;
     let b = b\<lparr>early_pgdir := setup_paging_early (early_pgdir b)\<rparr>;
     Some (b\<lparr>b_esp := b_esp b + 4\<rparr>)
   }"

definition start_early :: "u32 \<Rightarrow> u32 \<Rightarrow> u32 \<Rightarrow> u32 \<Rightarrow> u32 \<Rightarrow> boot_cpu \<Rightarrow> boot_cpu option" where
  "start_early stack_top pgdir_addr kernel_main_ptr ret1 ret2 b = do {
     let b = b\<lparr>b_esp := stack_top\<rparr>;
     b \<leftarrow> push (b_ebx b) b;
     b \<leftarrow> call_setup_paging ret1 b;
     b \<leftarrow> pop_ebx b;
     let b = b\<lparr>b_eax := pgdir_addr\<rparr>;
     let b = b\<lparr>b_cr3 := b_eax b\<rparr>;
     let b = b\<lparr>b_eax := b_cr4 b\<rparr>;
     let b = b\<lparr>b_eax := b_eax b OR push_bit 4 1\<rparr>;
     let b = b\<lparr>b_cr4 := b_eax b\<rparr>;
     let b = b\<lparr>b_eax := b_cr0 b\<rparr>;
     let b = b\<lparr>b_eax := b_eax b OR push_bit 31 1\<rparr>;
     let b = b\<lparr>b_cr0 := b_eax b\<rparr>;
     let b = b\<lparr>b_esp := stack_top + KERNEL_HIGH\<rparr>;
     let b = b\<lparr>b_ebp := stack_top + KERNEL_HIGH\<rparr>;
     b \<leftarrow> push (b_ebx b) b;
     let b = b\<lparr>b_eax := kernel_main_ptr\<rparr>;
     b \<leftarrow> push ret2 b;
     Some (b\<lparr>b_eip := b_eax b\<rparr>)
   }"

section \<open>What kernel\_main finds\<close>

lemma stack_steps:
  "mmu b (b_esp b - 4) = Some pa \<Longrightarrow> push v b = Some (b\<lparr>b_esp := b_esp b - 4, phys := store32 (phys b) pa v\<rparr>)"
  "mmu b (b_esp b) = Some pa \<Longrightarrow> pop_ebx b = Some (b\<lparr>b_ebx := load32 (phys b) pa, b_esp := b_esp b + 4\<rparr>)"
proof -
  have "mmu (b\<lparr>b_esp := e\<rparr>) va = mmu b va" for e va by (simp add: mmu_def)
  then show "mmu b (b_esp b - 4) = Some pa \<Longrightarrow> push v b = Some (b\<lparr>b_esp := b_esp b - 4, phys := store32 (phys b) pa v\<rparr>)"
    "mmu b (b_esp b) = Some pa \<Longrightarrow> pop_ebx b = Some (b\<lparr>b_ebx := load32 (phys b) pa, b_esp := b_esp b + 4\<rparr>)"
    by (simp_all add: push_def pop_ebx_def Let_def)
qed

lemma mmu_eqs:
  "\<not> bit (b_cr0 b) 31 \<Longrightarrow> mmu b va = Some va"
  "b_cr0 b = x OR push_bit 31 1 \<Longrightarrow> b_cr4 b = y OR push_bit 4 1 \<Longrightarrow> mmu b va = early_translate (early_pgdir b) va"
  by (simp_all add: mmu_def bit_simps)

text \<open>The addresses of the boot stack, seen from the low mapping and from the high one.\<close>

lemma stack_translates:
  assumes "8 \<le> unat sp" "unat sp \<le> 0x400000" "k = 4 \<or> k = 8"
  shows "early_translate (setup_paging_early (replicate 1024 0)) (sp + KERNEL_HIGH - k) = Some (sp - k)"
proof -
  have k: "unat k \<le> unat sp" using assms by auto
  then have u: "unat (sp - k) = unat sp - unat k" by (simp add: unat_sub word_le_nat_alt)
  have e: "sp + KERNEL_HIGH - k = KERNEL_HIGH + (sp - k)" by simp
  have lt: "unat (sp - k) < 0x400000" using assms u by auto
  have "in_range KERNEL_HIGH 0x400000 (KERNEL_HIGH + (sp - k))" using lt by (simp add: in_range_def word_less_nat_alt)
  moreover have "\<not> KERNEL_HIGH + (sp - k) < 0x400000"
  proof -
    have "unat (KERNEL_HIGH + (sp - k)) = 0xC0000000 + unat (sp - k)"
      using lt by (subst unat_add_lem [THEN iffD1]) (auto simp: KERNEL_HIGH_def)
    then show ?thesis by (simp add: word_less_nat_alt)
  qed
  ultimately show ?thesis
    unfolding e by (simp add: setup_paging_early_translates virt2phys_def)
qed

text \<open>C22. The boot code, started by the boot loader with paging off and the address of the boot information in \<^verbatim>\<open>ebx\<close>,
  reaches \<open>kernel_main\<close> without a fault: large pages and paging are on, the first 4 MiB of memory are mapped at 0
  and at \<open>KERNEL_HIGH\<close> and nothing else is, the stack is the boot stack seen through the high mapping, and the
  argument of \<open>kernel_main\<close>, the word above the return address, is the \<^verbatim>\<open>ebx\<close> of the boot loader.\<close>

theorem start_early_enters_kernel_main:
  assumes "\<not> bit (b_cr0 b) 31" "early_pgdir b = replicate 1024 0" "8 \<le> unat stack_top" "unat stack_top \<le> 0x400000"
  shows "\<exists>b'. start_early stack_top pgdir_addr kernel_main_ptr ret1 ret2 b = Some b'
    \<and> b_eip b' = kernel_main_ptr \<and> b_esp b' = stack_top + KERNEL_HIGH - 8
    \<and> bit (b_cr0 b') 31 \<and> bit (b_cr4 b') 4 \<and> b_cr3 b' = pgdir_addr
    \<and> map_option (load32 (phys b')) (mmu b' (b_esp b' + 4)) = Some (b_ebx b)
    \<and> (\<forall>va. mmu b' va = (if va < 0x400000 then Some va
         else if in_range KERNEL_HIGH 0x400000 va then Some (virt2phys va) else None))"
proof -
  define pg where "pg = setup_paging_early (replicate 1024 0)"
  note tr = stack_translates [OF assms(3,4), folded pg_def, simplified]
  define b' where "b' = b\<lparr>b_eax := kernel_main_ptr, b_esp := stack_top + KERNEL_HIGH - 8, b_ebp := stack_top + KERNEL_HIGH,
    b_eip := kernel_main_ptr, b_cr0 := b_cr0 b OR push_bit 31 1, b_cr3 := pgdir_addr, b_cr4 := b_cr4 b OR push_bit 4 1, early_pgdir := pg,
    phys := store32 (store32 (store32 (store32 (phys b) (stack_top - 4) (b_ebx b)) (stack_top - 8) ret1) (stack_top - 4) (b_ebx b))
      (stack_top - 8) ret2\<rparr>"
  have run: "start_early stack_top pgdir_addr kernel_main_ptr ret1 ret2 b = Some b'"
    unfolding start_early_def call_setup_paging_def Let_def
    using assms(1,2) tr [of 4] tr [of 8]
    by (simp add: stack_steps mmu_eqs b'_def mem_simps flip: pg_def del: push_bit_of_1)
  have "mmu b' va = early_translate pg va" for va by (subst mmu_eqs(2)) (simp_all add: b'_def)
  moreover have "b_esp b' + 4 = stack_top + KERNEL_HIGH - 4" by (simp add: b'_def)
  moreover have "load32 (phys b') (stack_top - 4) = b_ebx b" by (simp add: b'_def mem_simps)
  moreover have "b_eip b' = kernel_main_ptr" "b_esp b' = stack_top + KERNEL_HIGH - 8" "bit (b_cr0 b') 31" "bit (b_cr4 b') 4"
    "b_cr3 b' = pgdir_addr" by (simp_all add: b'_def bit_simps)
  ultimately show ?thesis
    using run tr [of 4] setup_paging_early_translates unfolding pg_def by simp
qed

definition boot0 :: boot_cpu where
  "boot0 = \<lparr>b_eax = 0x2BADB002, b_ebx = 0x9500, b_esp = 0, b_ebp = 0, b_eip = 0x100000, b_cr0 = 1, b_cr3 = 0, b_cr4 = 0,
     early_pgdir = replicate 1024 0, phys = (\<lambda>a. 0)\<rparr>"

theorem start_early_enters_kernel_main_witness:
  "\<exists>b'. start_early 0x105000 0x106000 0xc0110000 0x10000f 0x10004b boot0 = Some b' \<and> b_eip b' = 0xc0110000
     \<and> b_esp b' = 0xc0104ff8 \<and> mmu b' 0xc0104ffc = Some 0x104ffc \<and> mmu b' 0x80000000 = None
     \<and> load32 (phys b') 0x104ffc = 0x9500"
proof -
  have "\<not> bit (b_cr0 boot0) 31" "early_pgdir boot0 = replicate 1024 0" by (simp_all add: boot0_def)
  then obtain b' where "start_early 0x105000 0x106000 0xc0110000 0x10000f 0x10004b boot0 = Some b'" "b_eip b' = 0xc0110000"
    "b_esp b' = 0x105000 + KERNEL_HIGH - 8"
    and l: "map_option (load32 (phys b')) (mmu b' (b_esp b' + 4)) = Some (b_ebx boot0)"
    and m: "\<And>va. mmu b' va = (if va < 0x400000 then Some va
         else if in_range KERNEL_HIGH 0x400000 va then Some (virt2phys va) else None)"
    using start_early_enters_kernel_main [of boot0 "0x105000" "0x106000" "0xc0110000" "0x10000f" "0x10004b"] by auto
  moreover have "mmu b' 0xc0104ffc = Some 0x104ffc" "mmu b' 0x80000000 = None"
    by (simp_all add: m in_range_def KERNEL_HIGH_def virt2phys_def)
  ultimately show ?thesis by (simp add: KERNEL_HIGH_def boot0_def)
qed

end
