(* ===== verification/Entry.thy ===== *)
theory Entry
  imports Syscall
begin

text \<open>
  Entry into the kernel and return from it: \<^verbatim>\<open>src/irq.S\<close>.

  The processor state is a record \<open>x86\<close> of the registers that this code handles; instructions are a datatype with
  one equation each in \<open>exec_instr\<close>, and the two macros of \<^verbatim>\<open>irq.S\<close> are lists of them. \<open>deliver_irq\<close> and \<open>iret\<close> are
  what the processor does on an interrupt and on its return, with the change of stack if the privilege
  level changes; the gates are those of \<open>Descriptors\<close>. Checks of segment descriptors are not modelled.
\<close>

section \<open>Processor and instructions\<close>

record x86 =
  x_eax :: u32  x_ebx :: u32  x_ecx :: u32  x_edx :: u32  x_esi :: u32  x_edi :: u32  x_ebp :: u32  x_esp :: u32
  x_eip :: u32  x_eflags :: u32
  x_cs :: u16  x_ss :: u16  x_ds :: u16  x_es :: u16  x_fs :: u16  x_gs :: u16

datatype reg32 = EAX | EBX | ECX | EDX | ESI | EDI | EBP | ESP

datatype sreg = DS | ES | FS | GS

fun get_reg :: "reg32 \<Rightarrow> x86 \<Rightarrow> u32" where
  "get_reg EAX c = x_eax c"
| "get_reg EBX c = x_ebx c"
| "get_reg ECX c = x_ecx c"
| "get_reg EDX c = x_edx c"
| "get_reg ESI c = x_esi c"
| "get_reg EDI c = x_edi c"
| "get_reg EBP c = x_ebp c"
| "get_reg ESP c = x_esp c"

fun set_reg :: "reg32 \<Rightarrow> u32 \<Rightarrow> x86 \<Rightarrow> x86" where
  "set_reg EAX v c = c\<lparr>x_eax := v\<rparr>"
| "set_reg EBX v c = c\<lparr>x_ebx := v\<rparr>"
| "set_reg ECX v c = c\<lparr>x_ecx := v\<rparr>"
| "set_reg EDX v c = c\<lparr>x_edx := v\<rparr>"
| "set_reg ESI v c = c\<lparr>x_esi := v\<rparr>"
| "set_reg EDI v c = c\<lparr>x_edi := v\<rparr>"
| "set_reg EBP v c = c\<lparr>x_ebp := v\<rparr>"
| "set_reg ESP v c = c\<lparr>x_esp := v\<rparr>"

fun get_sreg :: "sreg \<Rightarrow> x86 \<Rightarrow> u16" where
  "get_sreg DS c = x_ds c"
| "get_sreg ES c = x_es c"
| "get_sreg FS c = x_fs c"
| "get_sreg GS c = x_gs c"

fun set_sreg :: "sreg \<Rightarrow> u16 \<Rightarrow> x86 \<Rightarrow> x86" where
  "set_sreg DS v c = c\<lparr>x_ds := v\<rparr>"
| "set_sreg ES v c = c\<lparr>x_es := v\<rparr>"
| "set_sreg FS v c = c\<lparr>x_fs := v\<rparr>"
| "set_sreg GS v c = c\<lparr>x_gs := v\<rparr>"

text \<open>\<open>Movw_ax\<close> loads the low half of \<^verbatim>\<open>eax\<close>, \<open>Movw_sreg\<close> copies it to a segment register.\<close>

datatype instr =
  Pushl_imm u32 | Pushl reg32 | Popl reg32 | Pushw sreg | Popw sreg
| Movw_ax u16 | Movw_sreg sreg | Addl_esp u32

fun exec_instr :: "instr \<Rightarrow> x86 \<times> mem \<Rightarrow> x86 \<times> mem" where
  "exec_instr (Pushl_imm v) (c, m) = (c\<lparr>x_esp := x_esp c - 4\<rparr>, store32 m (x_esp c - 4) v)"
| "exec_instr (Pushl r) (c, m) = (c\<lparr>x_esp := x_esp c - 4\<rparr>, store32 m (x_esp c - 4) (get_reg r c))"
| "exec_instr (Popl r) (c, m) = (set_reg r (load32 m (x_esp c)) (c\<lparr>x_esp := x_esp c + 4\<rparr>), m)"
| "exec_instr (Pushw r) (c, m) = (c\<lparr>x_esp := x_esp c - 2\<rparr>, store16 m (x_esp c - 2) (get_sreg r c))"
| "exec_instr (Popw r) (c, m) = (set_sreg r (load16 m (x_esp c)) (c\<lparr>x_esp := x_esp c + 2\<rparr>), m)"
| "exec_instr (Movw_ax v) (c, m) = (c\<lparr>x_eax := (x_eax c AND 0xffff0000) OR ucast v\<rparr>, m)"
| "exec_instr (Movw_sreg r) (c, m) = (set_sreg r (ucast (x_eax c)) c, m)"
| "exec_instr (Addl_esp v) (c, m) = (c\<lparr>x_esp := x_esp c + v\<rparr>, m)"

definition exec_code :: "instr list \<Rightarrow> x86 \<times> mem \<Rightarrow> x86 \<times> mem" where
  "exec_code = fold exec_instr"

section \<open>Interrupts\<close>

text \<open>The gate decides the target and whether interrupts stay enabled; an interrupt of user code goes to the stack
  of the task state segment, one of kernel code stays on its own.\<close>

definition deliver_irq :: "idt_entry list \<Rightarrow> tss \<Rightarrow> nat \<Rightarrow> u32 option \<Rightarrow> x86 \<times> mem \<Rightarrow> x86 \<times> mem" where
  "deliver_irq idt t v err cm =
     (case cm of (c, m) \<Rightarrow>
        let (target, sel, fl) = gate_of (idt ! v);
            user = x_cs c AND 3 = 3;
            (sp, m) = (if user then (esp0 t - 8, store32 (store32 m (esp0 t - 4) (ucast (x_ss c))) (esp0 t - 8) (x_esp c))
                       else (x_esp c, m));
            m = store32 m (sp - 4) (x_eflags c);
            m = store32 m (sp - 8) (ucast (x_cs c));
            m = store32 m (sp - 12) (x_eip c);
            (sp, m) = (case err of None \<Rightarrow> (sp - 12, m) | Some e \<Rightarrow> (sp - 16, store32 m (sp - 16) e))
        in (c\<lparr>x_esp := sp, x_ss := (if user then ss0 t else x_ss c), x_cs := sel, x_eip := target,
              x_eflags := x_eflags c AND NOT (if fl AND 1 = 0 then 0x34300 else 0x34100)\<rparr>, m))"

definition iret :: "x86 \<times> mem \<Rightarrow> x86 \<times> mem" where
  "iret cm =
     (case cm of (c, m) \<Rightarrow>
        let sp = x_esp c;
            cs = ucast (load32 m (sp + 4));
            d = c\<lparr>x_eip := load32 m sp, x_cs := cs, x_eflags := load32 m (sp + 8)\<rparr>
        in (if cs AND 3 \<noteq> x_cs c AND 3 then d\<lparr>x_esp := load32 m (sp + 12), x_ss := ucast (load32 m (sp + 16))\<rparr>
            else d\<lparr>x_esp := sp + 12\<rparr>, m))"

section \<open>The code of irq.S\<close>

definition RESTORE_CTX :: "instr list" where
  "RESTORE_CTX = [Popl EBP, Popl EDI, Popl ESI, Popl EDX, Popl ECX, Popl EBX, Popl EAX, Popw GS, Popw FS, Popw ES, Popw DS, Addl_esp 4]"

definition RESTORE_CTX_AND_IRET :: "x86 \<times> mem \<Rightarrow> x86 \<times> mem" where
  "RESTORE_CTX_AND_IRET cm = iret (exec_code RESTORE_CTX cm)"

text \<open>\<^verbatim>\<open>IRQ_ENTRY\<close> up to the call; \<open>noerr\<close> is the macro's first argument, \<^verbatim>\<open>NOERRCODE\<close> or \<^verbatim>\<open>ERRCODE\<close>.\<close>

definition SAVE_CTX :: "bool \<Rightarrow> instr list" where
  "SAVE_CTX noerr = (if noerr then [Pushl_imm 0] else [])
     @ [Pushw DS, Pushw ES, Pushw FS, Pushw GS, Pushl EAX, Pushl EBX, Pushl ECX, Pushl EDX, Pushl ESI, Pushl EDI, Pushl EBP,
        Movw_ax 0x10, Movw_sreg DS, Movw_sreg ES, Movw_sreg FS, Movw_sreg GS, Pushl ESP]"

text \<open>The C function gets the pointer that was pushed last and runs on the stack below it; \<open>ret\<close> is the address
  that \<^verbatim>\<open>call\<close> pushes.\<close>

definition IRQ_ENTRY :: "bool \<Rightarrow> u32 \<Rightarrow> (u32 \<Rightarrow> x86 \<times> mem \<Rightarrow> x86 \<times> mem) \<Rightarrow> x86 \<times> mem \<Rightarrow> x86 \<times> mem" where
  "IRQ_ENTRY noerr ret handler cm =
     (let (c, m) = exec_code (SAVE_CTX noerr) cm;
          (c, m) = handler (load32 m (x_esp c)) (c, store32 m (x_esp c - 4) ret)
      in RESTORE_CTX_AND_IRET (exec_instr (Addl_esp 4) (c, m)))"

definition jump_userspace_code :: "x86 \<times> mem \<Rightarrow> x86 \<times> mem" where
  "jump_userspace_code cm = RESTORE_CTX_AND_IRET cm"

section \<open>What entry saves and return restores\<close>

lemma exec_code_simps [simp]:
  "exec_code [] cm = cm" "exec_code (i # is) cm = exec_code is (exec_instr i cm)"
  by (simp_all add: exec_code_def)

lemma exec_code_append: "exec_code (is @ js) cm = exec_code js (exec_code is cm)"
  by (simp add: exec_code_def)

text \<open>The registers of the interrupted code as the handler sees them.\<close>

definition saved_regs :: "x86 \<Rightarrow> u32 \<Rightarrow> regs \<Rightarrow> bool" where
  "saved_regs c err rg \<longleftrightarrow> r_eax rg = x_eax c \<and> r_ebx rg = x_ebx c \<and> r_ecx rg = x_ecx c \<and> r_edx rg = x_edx c
     \<and> r_esi rg = x_esi c \<and> r_edi rg = x_edi c \<and> r_ebp rg = x_ebp c
     \<and> r_ds rg = x_ds c \<and> r_es rg = x_es c \<and> r_fs rg = x_fs c \<and> r_gs rg = x_gs c
     \<and> r_error_code rg = err \<and> r_eip rg = x_eip c \<and> r_cs rg = ucast (x_cs c) \<and> r_eflags rg = x_eflags c
     \<and> (x_cs c AND 3 = 3 \<longrightarrow> r_esp rg = x_esp c \<and> r_ss rg = ucast (x_ss c))"

text \<open>The registers that a return through a frame loads; \<open>sp\<close> and \<open>ss\<close> are those of a return without a change of
  privilege.\<close>

definition loaded_regs :: "regs \<Rightarrow> bool \<Rightarrow> u32 \<Rightarrow> u16 \<Rightarrow> x86" where
  "loaded_regs rg outer sp ss =
     \<lparr>x_eax = r_eax rg, x_ebx = r_ebx rg, x_ecx = r_ecx rg, x_edx = r_edx rg, x_esi = r_esi rg, x_edi = r_edi rg, x_ebp = r_ebp rg,
      x_esp = (if outer then r_esp rg else sp), x_eip = r_eip rg, x_eflags = r_eflags rg, x_cs = ucast (r_cs rg),
      x_ss = (if outer then ucast (r_ss rg) else ss), x_ds = r_ds rg, x_es = r_es rg, x_fs = r_fs rg, x_gs = r_gs rg\<rparr>"

lemma leave_eq:
  "RESTORE_CTX_AND_IRET (c, m) =
     (let rg = load_regs m (x_esp c)
      in (loaded_regs rg (ucast (r_cs rg) AND 3 \<noteq> x_cs c AND 3) (x_esp c + 52) (x_ss c), m))"
  by (simp add: RESTORE_CTX_AND_IRET_def RESTORE_CTX_def iret_def load_regs_def loaded_regs_def Let_def add.assoc)

text \<open>Where the frame of an interrupt lies.\<close>

definition frame_at :: "tss \<Rightarrow> x86 \<Rightarrow> u32" where
  "frame_at t c = (if x_cs c AND 3 = 3 then esp0 t - 60 else x_esp c - 52)"

lemma enter_eq:
  assumes "gate_of (idt ! v) = (target, sel, fl)"
  obtains d m' where "exec_code (SAVE_CTX (err = None)) (deliver_irq idt t v err (c, m)) = (d, m')"
    "x_esp d = frame_at t c - 4" "x_cs d = sel" "x_ss d = (if x_cs c AND 3 = 3 then ss0 t else x_ss c)"
    "load32 m' (frame_at t c - 4) = frame_at t c"
    "saved_regs c (case err of None \<Rightarrow> 0 | Some e \<Rightarrow> e) (load_regs m' (frame_at t c))"
  using assms
  by (cases err; cases "x_cs c AND 3 = 3")
     (auto simp: deliver_irq_def SAVE_CTX_def frame_at_def saved_regs_def load_regs_def Let_def mem_simps)

lemma push_frame:
  assumes "\<not> in_range q 64 a" "unat k + 4 \<le> 64"
  shows "store32 m (k + q) w a = m a" "store16 m (k + q) h a = m a"
proof -
  have "\<not> in_range (q + k) 4 a" "\<not> in_range (q + k) 2 a"
    using in_range_sub [of q k 4 a 64] in_range_sub [of q k 2 a 64] assms by auto
  then show "store32 m (k + q) w a = m a" "store16 m (k + q) h a = m a"
    by (simp_all add: store32_frame store16_frame add.commute [of k])
qed

lemma enter_outside:
  assumes "exec_code (SAVE_CTX (err = None)) (deliver_irq idt t v err (c, m)) = (d, m')" "\<not> in_range (frame_at t c - 4) 64 a"
  shows "m' a = m a"
proof (cases "x_cs c AND 3 = 3")
  case True
  define q where "q = esp0 t - 64"
  have e: "esp0 t = q + 64" by (simp add: q_def)
  have "\<not> in_range q 64 a" using assms(2) True by (simp add: frame_at_def e)
  note p = push_frame [OF this]
  show ?thesis using assms(1) True p(1) [of 0]
    by (cases err) (auto simp: deliver_irq_def SAVE_CTX_def Let_def e p split: prod.splits)
next
  case False
  define q where "q = x_esp c - 56"
  have e: "x_esp c = q + 56" by (simp add: q_def)
  have "\<not> in_range q 64 a" using assms(2) False by (simp add: frame_at_def e)
  note p = push_frame [OF this]
  show ?thesis using assms(1) False p(1) [of 0]
    by (cases err) (auto simp: deliver_irq_def SAVE_CTX_def Let_def e p split: prod.splits)
qed

lemma load_regs_cong:
  assumes "\<And>a. in_range p 60 a \<Longrightarrow> m' a = m a"
  shows "load_regs m' p = load_regs m p"
proof -
  have r: "m' (p + k + j) = m (p + k + j)" if "unat k + 4 \<le> 60" "j < 4" for k j :: u32
    using assms in_range_sub [of p k 4 "p + k + j" 60] that by (auto simp: in_range_def)
  have l: "load32 m' (p + k) = load32 m (p + k)" "load16 m' (p + k) = load16 m (p + k)" if "unat k + 4 \<le> 60" for k
    using r [OF that] by (auto intro!: load32_cong load16_cong simp: word_less_nat_alt)
  show ?thesis using l [of 0] by (simp add: load_regs_def l)
qed

lemma ucast_16_32 [simp]: "ucast (ucast w :: u32) = (w :: u16)"
  by (rule bit_word_eqI) (auto simp: bit_simps)

lemma loaded_saved:
  assumes "saved_regs c e rg" "x_cs c AND 3 \<noteq> 3 \<Longrightarrow> sp = x_esp c \<and> ss = x_ss c"
  shows "loaded_regs rg (x_cs c AND 3 = 3) sp ss = c"
  using assms by (intro x86.equality) (auto simp: loaded_regs_def saved_regs_def)

text \<open>What a C function called from \<^verbatim>\<open>irq.S\<close> does to the registers that the exit code needs, and to the frame.\<close>

definition c_handler :: "(u32 \<Rightarrow> x86 \<times> mem \<Rightarrow> x86 \<times> mem) \<Rightarrow> bool" where
  "c_handler handler \<longleftrightarrow> (\<forall>p d m d' m'. handler p (d, m) = (d', m') \<longrightarrow>
     x_esp d' = x_esp d \<and> x_ss d' = x_ss d \<and> x_cs d' = x_cs d \<and> (\<forall>a. in_range p 60 a \<longrightarrow> m' a = m a))"

lemma return_eq:
  assumes "x_esp d = p - 4"
  shows "RESTORE_CTX_AND_IRET (exec_instr (Addl_esp 4) (d, m)) =
    (let rg = load_regs m p in (loaded_regs rg (ucast (r_cs rg) AND 3 \<noteq> x_cs d AND 3) (p + 52) (x_ss d), m))"
  using assms by (simp add: leave_eq)

text \<open>The call of the handler pushes a return address below the frame.\<close>

lemma call_frame:
  assumes "exec_code (SAVE_CTX (err = None)) (deliver_irq idt t v err (c, m)) = (d, m0)"
  defines "p \<equiv> frame_at t c"
  shows "load_regs (store32 m0 (p - 8) ret) p = load_regs m0 p"
    and "\<not> in_range (p - 8) 68 a \<Longrightarrow> store32 m0 (p - 8) ret a = m a"
proof -
  have "store32 m0 (p - 8) ret a = m0 a" if "in_range p 60 a" for a
    using that range_sep [of 4 p "p - 8" 60 "a - p"] by (intro store32_frame) (simp add: in_range_def)
  then show "load_regs (store32 m0 (p - 8) ret) p = load_regs m0 p" by (rule load_regs_cong)
  assume a: "\<not> in_range (p - 8) 68 a"
  have "\<not> in_range (p - 4) 64 a" "\<not> in_range (p - 8) 4 a"
    using in_range_sub [of "p - 8" 4 64 a 68] in_range_sub [of "p - 8" 0 4 a 68] a by auto
  then show "store32 m0 (p - 8) ret a = m a" using enter_outside [OF assms(1)] by (simp add: p_def store32_frame)
qed

text \<open>C19. An interrupt of user or kernel code: the handler is called with a pointer to a \<^verbatim>\<open>struct regs\<close> that holds the
  registers of the interrupted code and the error code (0 if the processor pushes none), on the kernel stack
  of the task if user code was interrupted; and when the handler returns, every register, the flags, the
  segment registers and the stack of the interrupted code are what they were. Entry writes no memory but the
  frame and the 8 bytes below it.\<close>

theorem irq_entry_roundtrip:
  assumes gate: "gate_of (idt ! v) = (target, sel, fl)" "sel AND 3 = 0" and ring: "x_cs c AND 3 = 0 \<or> x_cs c AND 3 = 3"
    and h: "c_handler handler"
  shows "\<exists>d m1 d2 m2. handler (frame_at t c) (d, m1) = (d2, m2)
    \<and> IRQ_ENTRY (err = None) ret handler (deliver_irq idt t v err (c, m)) = (c, m2)
    \<and> saved_regs c (case err of None \<Rightarrow> 0 | Some e \<Rightarrow> e) (load_regs m1 (frame_at t c))
    \<and> (\<forall>a. \<not> in_range (frame_at t c - 8) 68 a \<longrightarrow> m1 a = m a)"
proof -
  let ?p = "frame_at t c" and ?e = "case err of None \<Rightarrow> 0 | Some e \<Rightarrow> e"
  obtain d m0 where d: "exec_code (SAVE_CTX (err = None)) (deliver_irq idt t v err (c, m)) = (d, m0)"
    "x_esp d = ?p - 4" "x_cs d = sel" "x_ss d = (if x_cs c AND 3 = 3 then ss0 t else x_ss c)"
    "load32 m0 (?p - 4) = ?p" "saved_regs c ?e (load_regs m0 ?p)"
    by (rule enter_eq [OF gate(1)])
  define m1 where "m1 = store32 m0 (?p - 8) ret"
  obtain d2 m2 where h2: "handler ?p (d, m1) = (d2, m2)" by fastforce
  with h have k: "x_esp d2 = ?p - 4" "x_ss d2 = x_ss d" "x_cs d2 = sel" "\<And>a. in_range ?p 60 a \<Longrightarrow> m2 a = m1 a"
    using d(2,3) by (auto simp: c_handler_def)
  note cf = call_frame [OF d(1), where ret = ret, folded m1_def]
  have sv: "saved_regs c ?e (load_regs m1 ?p)" "load_regs m2 ?p = load_regs m1 ?p"
    using d(6) cf(1) load_regs_cong [of ?p m2 m1] k(4) by simp_all
  have cs: "r_cs (load_regs m1 ?p) = ucast (x_cs c)" using sv(1) by (simp add: saved_regs_def)
  have "IRQ_ENTRY (err = None) ret handler (deliver_irq idt t v err (c, m)) =
      (loaded_regs (load_regs m1 ?p) (x_cs c AND 3 = 3) (?p + 52) (x_ss d), m2)"
    using d(1,2,5) h2 return_eq [OF k(1)] sv(2) cs k(2,3) gate(2) ring by (auto simp: IRQ_ENTRY_def m1_def Let_def)
  moreover have "loaded_regs (load_regs m1 ?p) (x_cs c AND 3 = 3) (?p + 52) (x_ss d) = c"
    by (rule loaded_saved [OF sv(1)]) (simp add: d(4) frame_at_def)
  ultimately show ?thesis using h2 sv(1) cf(2) by auto
qed

section \<open>System calls from user code\<close>

text \<open>The instruction \<^verbatim>\<open>int $0x80\<close> in user mode up to the first line of \<open>syscall_irq\<close>: the processor and the entry code.
  The result is the processor, the address of the frame and the memory; \<open>c\<close> has its \<^verbatim>\<open>eip\<close> after the
  instruction.\<close>

definition enter80 :: "idt_entry list \<Rightarrow> u32 \<Rightarrow> x86 \<Rightarrow> 'a ata_scheme \<Rightarrow> x86 \<times> u32 \<times> mem" where
  "enter80 idt ret c s =
     (let (d, m) = exec_code (SAVE_CTX True) (deliver_irq idt (TSS s) 128 None (c, ram s))
      in (d, load32 m (x_esp d), store32 m (x_esp d - 4) ret))"

text \<open>The whole call: \<open>syscall_irq\<close> gets the frame as its \<^verbatim>\<open>regs\<close>, whose \<^verbatim>\<open>eax\<close> it overwrites in memory, and the exit
  code returns through it, for a call that does not block.\<close>

definition int80 :: "idt_entry list \<Rightarrow> u32 \<Rightarrow> u32 \<Rightarrow> u32 \<Rightarrow> x86 \<Rightarrow> 'a ata_scheme \<Rightarrow> (x86 \<times> 'a ata_scheme) result option" where
  "int80 idt ret req_addr sector c s =
     (let (d, p, m) = enter80 idt ret c s
      in bindk (syscall_irq req_addr sector (load_regs m p) (s\<lparr>ram := m\<rparr>)) (\<lambda>(rg, s).
           let (c, m) = RESTORE_CTX_AND_IRET (exec_instr (Addl_esp 4) (d, store32 (ram s) (p + 24) (r_eax rg)))
           in Some (Inr (c, s\<lparr>ram := m\<rparr>))))"

text \<open>The calls that are answered at once: the result and the characters they print.\<close>

definition syscall_reply :: "u32 \<Rightarrow> u32 \<Rightarrow> (u32 \<times> u8 list) option" where
  "syscall_reply nr x =
     (if 3 \<le> nr then Some (- 1, [])
      else if nr = 0 \<and> sint x \<le> 0 then Some (- 4, [])
      else if nr = 1 then Some (0, [if unat x \<in> {1..4} then 0x30 + ucast x else 0x78])
      else None)"

lemma syscall_replies:
  assumes "is_userspace rg" "current s = Some cur" "syscall_reply (r_eax rg) (r_ebx rg) = Some (v, out)"
  shows "syscall_irq a b rg s = Some (Inr (rg\<lparr>r_eax := v\<rparr>, terminal_write out 7 s))"
proof -
  note eqs = syscall_irq_eqs [OF assms(1,2), of a b]
  consider "3 \<le> r_eax rg" "v = - 1" "out = []" | "r_eax rg = 0" "sint (r_ebx rg) \<le> 0" "v = - 4" "out = []"
    | "r_eax rg = 1" "v = 0" "out = [if unat (r_ebx rg) \<in> {1..4} then 0x30 + ucast (r_ebx rg) else 0x78]"
    using assms(3) by (auto simp: syscall_reply_def split: if_splits)
  then show ?thesis
  proof cases
    case 1
    then show ?thesis using eqs(4) by (simp add: ENOSYS_def)
  next
    case 2
    then show ?thesis using eqs(1) by (simp add: syscall_wait_def sle_0 EINVAL_def)
  next
    case 3
    then show ?thesis using eqs(2) print_char [of "r_ebx rg"]
      by (simp add: syscall_print_def terminal_writestring_def vga_entry_color_def)
  qed
qed

lemma enter80_frame:
  assumes gate: "gate_of (idt ! 128) = (target, sel, fl)" and u: "x_cs c AND 3 = 3"
  obtains d m1 where "enter80 idt ret c s = (d, esp0 (TSS s) - 60, m1)" "x_esp d = esp0 (TSS s) - 64" "x_cs d = sel"
    "saved_regs c 0 (load_regs m1 (esp0 (TSS s) - 60))" "\<forall>q. \<not> in_range (esp0 (TSS s) - 68) 68 q \<longrightarrow> m1 q = ram s q"
proof -
  define p where "p = frame_at (TSS s) c"
  have p: "p = esp0 (TSS s) - 60" using u by (simp add: p_def frame_at_def)
  obtain d m0 where d: "exec_code (SAVE_CTX True) (deliver_irq idt (TSS s) 128 None (c, ram s)) = (d, m0)"
    "x_esp d = p - 4" "x_cs d = sel" "load32 m0 (p - 4) = p" "saved_regs c 0 (load_regs m0 p)"
    by (rule enter_eq [OF gate(1), where err = None and t = "TSS s" and c = c and m = "ram s", folded p_def, simplified])
  define m1 where "m1 = store32 m0 (p - 8) ret"
  have e: "exec_code (SAVE_CTX ((None :: u32 option) = None)) (deliver_irq idt (TSS s) 128 None (c, ram s)) = (d, m0)" using d(1) by simp
  note cf = call_frame [OF e, where ret = ret, folded p_def, folded m1_def]
  have "enter80 idt ret c s = (d, p, m1)" using d by (simp add: enter80_def m1_def)
  then show thesis using that [of d m1] d(2,3,5) cf by (simp add: p)
qed

lemma int80_shape:
  assumes gate: "gate_of (idt ! 128) = (target, sel, fl)" "sel AND 3 = 0" and u: "x_cs c AND 3 = 3"
  obtains m1 ss where "int80 idt ret a b c s =
      bindk (syscall_irq a b (load_regs m1 (esp0 (TSS s) - 60)) (s\<lparr>ram := m1\<rparr>)) (\<lambda>(rg, t).
        let m = store32 (ram t) (esp0 (TSS s) - 36) (r_eax rg); rg = load_regs m (esp0 (TSS s) - 60)
        in Some (Inr (loaded_regs rg (ucast (r_cs rg) AND 3 \<noteq> (0 :: u16)) (esp0 (TSS s) - 8) ss, t\<lparr>ram := m\<rparr>)))"
    "saved_regs c 0 (load_regs m1 (esp0 (TSS s) - 60))" "\<forall>q. \<not> in_range (esp0 (TSS s) - 68) 68 q \<longrightarrow> m1 q = ram s q"
proof -
  obtain d m1 where d: "enter80 idt ret c s = (d, esp0 (TSS s) - 60, m1)" "x_esp d = esp0 (TSS s) - 60 - 4" "x_cs d = sel"
    "saved_regs c 0 (load_regs m1 (esp0 (TSS s) - 60))" "\<forall>q. \<not> in_range (esp0 (TSS s) - 68) 68 q \<longrightarrow> m1 q = ram s q"
    by (rule enter80_frame [OF gate(1) u, where ret = ret and s = s]) simp
  show thesis using that [of m1 "x_ss d"] d(1,4,5) return_eq [OF d(2)] d(3) gate(2) by (simp add: int80_def Let_def split_def)
qed

lemma ucast_rpl: "(ucast (w :: u16) :: u32) AND 3 = 3 \<longleftrightarrow> w AND 3 = 3"
proof -
  have "unat (ucast w :: u32) = unat w" using unsigned_less [of w] by (simp add: unsigned_ucast_eq take_bit_nat_eq_self)
  then have "unat ((ucast w :: u32) AND mask 2) = unat (w AND mask 2)" by (simp only: and_mask_unat)
  then show ?thesis by (simp add: mask_eq_exp_minus_1 word_unat_eq_iff)
qed

lemma load_regs_eax: "load_regs (store32 m (p + 24) v) p = (load_regs m p)\<lparr>r_eax := v\<rparr>"
  by (simp add: load_regs_def mem_simps)

text \<open>The top of the kernel stack, where the frame is built, is not part of the video memory.\<close>

definition stack_apart :: "'a sched_scheme \<Rightarrow> bool" where
  "stack_apart s \<longleftrightarrow> (\<forall>k<4160. \<not> in_range (esp0 (TSS s) - 68) 68 (terminal_buffer s + of_nat k))"

lemma apart_buffer:
  assumes "stack_apart s" "in_range (esp0 (TSS s) - 68) 68 q"
  shows "\<not> in_range (terminal_buffer s) 4000 q"
proof
  assume "in_range (terminal_buffer s) 4000 q"
  then have "unat (q - terminal_buffer s) < 4160" "terminal_buffer s + of_nat (unat (q - terminal_buffer s)) = q"
    by (simp_all add: in_range_def word_less_nat_alt)
  with assms show False unfolding stack_apart_def by metis
qed

text \<open>C20. A system call that is answered at once, from the instruction in the user program and back: the program goes
  on after the instruction with the result in \<^verbatim>\<open>eax\<close> and every other register as it was, the characters of
  the call are on the screen, and no other memory has changed but the top of the task's kernel stack.\<close>

theorem int80_returns:
  assumes gate: "gate_of (idt ! 128) = (target, sel, fl)" "sel AND 3 = 0" and u: "x_cs c AND 3 = 3" and cur: "current s = Some cur"
    and r: "syscall_reply (x_eax c) (x_ebx c) = Some (v, out)" and k: "terminal_inv s" "stack_apart s"
  shows "\<exists>t. int80 idt ret a b c s = Some (Inr (c\<lparr>x_eax := v\<rparr>, t))
    \<and> screen_of t = fold (\<lambda>ch. screen_put ch 7) out (screen_of s) \<and> console.more t = console.more s
    \<and> (\<forall>p. \<not> in_range (esp0 (TSS s) - 68) 68 p \<and> \<not> in_range (terminal_buffer s) 4000 p \<longrightarrow> ram t p = ram s p)"
proof -
  let ?p = "esp0 (TSS s) - 60" and ?q = "esp0 (TSS s) - 68"
  obtain m1 ss where sh: "int80 idt ret a b c s = bindk (syscall_irq a b (load_regs m1 ?p) (s\<lparr>ram := m1\<rparr>)) (\<lambda>(rg, t).
      let m = store32 (ram t) (esp0 (TSS s) - 36) (r_eax rg); rg = load_regs m ?p
      in Some (Inr (loaded_regs rg (ucast (r_cs rg) AND 3 \<noteq> (0 :: u16)) (esp0 (TSS s) - 8) ss, t\<lparr>ram := m\<rparr>)))"
    and rg: "saved_regs c 0 (load_regs m1 ?p)" and out1: "\<forall>q. \<not> in_range ?q 68 q \<longrightarrow> m1 q = ram s q"
    by (rule int80_shape [OF gate u, where ret = ret and a = a and b = b and s = s])
  define s1 where "s1 = s\<lparr>ram := m1\<rparr>"
  let ?t = "terminal_write out 7 s1"
  let ?m = "store32 (ram ?t) (esp0 (TSS s) - 36) v"
  have inv1: "terminal_inv s1" "terminal_buffer s1 = terminal_buffer s" using k(1) by (simp_all add: s1_def terminal_inv_def)
  have "is_userspace (load_regs m1 ?p)" "syscall_reply (r_eax (load_regs m1 ?p)) (r_ebx (load_regs m1 ?p)) = Some (v, out)"
    using rg u r by (simp_all add: is_userspace_def saved_regs_def ucast_rpl)
  from syscall_replies [OF this(1) _ this(2), of s1 cur a b]
  have call: "syscall_irq a b (load_regs m1 ?p) s1 = Some (Inr ((load_regs m1 ?p)\<lparr>r_eax := v\<rparr>, ?t))" using cur by (simp add: s1_def)
  have "ram ?t q = m1 q" if "in_range ?p 60 q" for q
    using in_range_sub [of ?q 8 60 q 68] that apart_buffer [OF k(2), of q] terminal_write_outside [OF inv1(1), of q out 7] inv1(2)
    by (simp add: s1_def)
  then have fr: "load_regs ?m ?p = (load_regs m1 ?p)\<lparr>r_eax := v\<rparr>"
    using load_regs_eax [of "ram ?t" ?p v] load_regs_cong [of ?p "ram ?t" m1] by simp
  have ld: "loaded_regs (load_regs ?m ?p) True sp ss = c\<lparr>x_eax := v\<rparr>" "ucast (r_cs (load_regs ?m ?p)) AND 3 \<noteq> (0 :: u16)" for sp
    using loaded_saved [of "c\<lparr>x_eax := v\<rparr>" 0 "load_regs ?m ?p" sp ss] rg u by (simp_all add: fr saved_regs_def)
  have res: "int80 idt ret a b c s = Some (Inr (c\<lparr>x_eax := v\<rparr>, ?t\<lparr>ram := ?m\<rparr>))"
    using call ld by (simp add: sh s1_def [symmetric] Let_def)
  have sub: "\<not> in_range (esp0 (TSS s) - 36) 4 q" if "\<not> in_range ?q 68 q" for q
    using that in_range_sub [of ?q 32 4 q 68] by auto
  have scr: "\<not> in_range ?q 68 (terminal_buffer s + of_nat j)" if "j < 4160" for j using k(2) that by (simp add: stack_apart_def)
  have "screen_of (?t\<lparr>ram := ?m\<rparr>) = screen_of ?t"
    using terminal_write_buffer [OF inv1(1), of out 7] inv1(2) sub [OF scr] by (intro screen_cong) (simp_all add: store32_frame)
  also have "\<dots> = fold (\<lambda>ch. screen_put ch 7) out (screen_of s1)" by (rule terminal_write_screen [OF inv1(1)])
  also have "screen_of s1 = screen_of s" using out1 scr by (intro screen_cong) (simp_all add: s1_def)
  finally have "screen_of (?t\<lparr>ram := ?m\<rparr>) = fold (\<lambda>ch. screen_put ch 7) out (screen_of s)" .
  moreover have "?m q = ram s q" if "\<not> in_range ?q 68 q" "\<not> in_range (terminal_buffer s) 4000 q" for q
    using that sub out1 terminal_write_outside [OF inv1(1), of q out 7] inv1(2) by (simp add: store32_frame s1_def)
  moreover have "console.more (?t\<lparr>ram := ?m\<rparr>) = console.more s" using terminal_write_rest(2) [of out 7 s1] by (simp add: s1_def)
  ultimately show ?thesis using res by auto
qed

section \<open>The first entry into user mode\<close>

definition user_start :: "u32 \<Rightarrow> x86" where
  "user_start fn = \<lparr>x_eax = 0, x_ebx = 0, x_ecx = 0, x_edx = 0, x_esi = 0, x_edi = 0, x_ebp = 0, x_esp = 0, x_eip = fn, x_eflags = 0x200,
     x_cs = 0x1b, x_ss = 0x23, x_ds = 0x23, x_es = 0x23, x_fs = 0x23, x_gs = 0x23\<rparr>"

lemma load_regs_eip: "load_regs (store32 m (p + 40) v) p = (load_regs m p)\<lparr>r_eip := v\<rparr>"
  by (simp add: load_regs_def mem_simps)

lemma scheduler_boot_eq:
  assumes "boot_state s" "kalloc s = (p, s1)" "p \<noteq> NULL"
  shows "scheduler_boot ju ti uf s = Inr (Scan 0 False, s1\<lparr>
      ram := store32 (setup_frame ju ti (p + 4036) (ram s1)) (p + 4076) uf,
      tasks := (tasks s)[0 := (tasks s ! 0)\<lparr>pid := 1, state := TASK_RUNNING, kstack := p, regs_ptr := p + 4036,
        ctx := zero_ctx\<lparr>c_esp := p + 4028, c_ebp := p + 4028\<rparr>\<rparr>]\<rparr>)"
proof -
  have l: "0 < length (tasks s)" using assms(1) by (simp add: boot_state_def MAX_TASKS_def)
  have "find (\<lambda>i. state (tasks s ! i) = TASK_NOT_ALLOCATED) [0..<MAX_TASKS] = Some 0"
    using assms(1) by (simp add: find_upt_Some boot_state_def MAX_TASKS_def)
  with task_setup_ok [OF l assms(2,3), of ju ti] l show ?thesis
    by (simp add: scheduler_boot_def task_allocate_def add.commute [of _ p])
qed

text \<open>C21. The first entry into user mode: the scheduler that \<open>scheduler_start\<close> starts switches to the first task, the
  switch returns into \<open>task_init\<close> with \<^verbatim>\<open>__jump_userspace\<close> as its return address, and that code leaves the kernel:
  as long as the frame has not been overwritten it starts \<^verbatim>\<open>userspace_fn\<close> in ring 3 with interrupts enabled and
  all general registers zero.\<close>

theorem first_task_enters_user_mode:
  assumes "boot_state s" "kalloc s = (p, s1)" "p \<noteq> NULL"
  shows "\<exists>t u. scheduler_boot ju ti uf s = Inr (Scan 0 False, t) \<and> sched_step (Scan 0 False, t) (In_Task 0 False, u)
    \<and> eip u = ti \<and> load32 (ram u) (c_esp (cpu u)) = ju
    \<and> (\<forall>d m. x_esp d = c_esp (cpu u) + 4 \<and> x_cs d AND 3 = 0 \<and> (\<forall>a. in_range (c_esp (cpu u) + 4) 60 a \<longrightarrow> m a = ram u a) \<longrightarrow>
         jump_userspace_code (d, m) = (user_start uf, m))"
proof -
  let ?m = "store32 (setup_frame ju ti (p + 4036) (ram s1)) (p + 4076) uf"
  define t where "t = s1\<lparr>ram := ?m, tasks := (tasks s)[0 := (tasks s ! 0)\<lparr>pid := 1, state := TASK_RUNNING, kstack := p,
      regs_ptr := p + 4036, ctx := zero_ctx\<lparr>c_esp := p + 4028, c_ebp := p + 4028\<rparr>\<rparr>]\<rparr>"
  have b: "scheduler_boot ju ti uf s = Inr (Scan 0 False, t)" using scheduler_boot_eq [OF assms] by (simp add: t_def)
  have l: "0 < length (tasks s)" "reload_tss (gdts t) = Inr (gdts t)" using assms(1) kalloc_fst_snd [OF assms(2)]
    by (simp_all add: boot_state_def MAX_TASKS_def t_def)
  obtain u where u: "switch_to 0 t = Inr u" "ram u = ?m" "cpu u = zero_ctx\<lparr>c_esp := p + 4032, c_ebp := p + 4028\<rparr>"
    "eip u = load32 ?m (p + 4028)"
    using switch_to_eq [OF l(2), of 0] l(1) by (simp add: t_def)
  have "sched_step (Scan 0 False, t) (In_Task 0 False, u)"
    by (rule sched_step.found_running [OF _ _ u(1)]) (use l(1) in \<open>simp_all add: MAX_TASKS_def t_def\<close>)
  moreover have "load32 ?m (p + 4028) = ti" "load32 ?m (p + 4032) = ju"
    using setup_frame_returns [of ju ti "p + 4036" "ram s1"] by (simp_all add: mem_simps add.commute [of _ p])
  moreover have "jump_userspace_code (d, m) = (user_start uf, m)"
    if d: "x_esp d = p + 4036" "x_cs d AND 3 = 0" "\<forall>a. in_range (p + 4036) 60 a \<longrightarrow> m a = ?m a" for d m
  proof -
    have "load_regs m (p + 4036) = load_regs ?m (p + 4036)" by (rule load_regs_cong) (use d(3) in blast)
    also have "\<dots> = (load_regs (setup_frame ju ti (p + 4036) (ram s1)) (p + 4036))\<lparr>r_eip := uf\<rparr>"
      using load_regs_eip [of _ "p + 4036"] by (simp add: add.commute [of _ p])
    finally show ?thesis using d(1,2)
      by (simp add: jump_userspace_code_def leave_eq setup_frame_regs loaded_regs_def user_start_def Let_def)
  qed
  ultimately show ?thesis using b u by (auto simp: add.commute [of _ p])
qed

section \<open>Concrete entries\<close>

lemma kernel_gates:
  assumes "length (IDT i) = 256"
  shows "gate_of (IDT (init_idt st p i) ! 32) = (timer_stub st, 0x08, 0x8e)" "gate_of (IDT (init_idt st p i) ! 128) = (syscall_stub st, 0x08, 0xef)"
  using assms by (simp_all add: init_idt_def REGISTER_IRQ_def Let_def idt_register_gate GATE_INTERRUPT_def GATE_TRAP_def DPL_USER_def)

abbreviation "idt1 \<equiv> IDT (init_idt stubs0 0xc0110000 idt0)"

lemmas idt1_gates = kernel_gates [of idt0 stubs0 "0xc0110000", unfolded idt0_def idt_state.simps length_replicate, OF refl, folded idt0_def]

theorem irq_entry_roundtrip_witness:
  "\<exists>m. IRQ_ENTRY True 0xc0101150 (\<lambda>p (d, m). (d\<lparr>x_eax := 5, x_edx := 9\<rparr>, m))
      (deliver_irq idt1 \<lparr>esp0 = 0xc0301000, ss0 = 0x10, iopb = 0xffff\<rparr> 32 None ((user_start 0xc0540000)\<lparr>x_eax := 7\<rparr>, \<lambda>_. 0))
    = ((user_start 0xc0540000)\<lparr>x_eax := 7\<rparr>, m)"
proof -
  have "c_handler (\<lambda>p (d, m). (d\<lparr>x_eax := 5, x_edx := 9\<rparr>, m))" by (auto simp: c_handler_def)
  from irq_entry_roundtrip [OF idt1_gates(1) _ _ this, where c = "(user_start 0xc0540000)\<lparr>x_eax := 7\<rparr>" and err = None
      and t = "\<lparr>esp0 = 0xc0301000, ss0 = 0x10, iopb = 0xffff\<rparr>" and ret = "0xc0101150" and m = "\<lambda>_. 0"]
  show ?thesis by (auto simp: user_start_def)
qed

definition user1 :: ata where
  "user1 = ata0\<lparr>current := Some 0, TSS := \<lparr>esp0 = 0xc0301000, ss0 = 0x10, iopb = 0xffff\<rparr>, terminal_row := 0, terminal_column := 0,
     terminal_buffer := 0xc00b8000\<rparr>"

lemma user1_apart: "stack_apart user1"
  unfolding stack_apart_def
proof (intro allI impI)
  fix k :: nat assume k: "k < 4160"
  show "\<not> in_range (esp0 (TSS user1) - 68) 68 (terminal_buffer user1 + of_nat k)"
    using k of_nat_less_u32 [of k] by (simp add: user1_def in_range_def word_less_nat_alt unat_sub_if_size word_size)
qed

theorem int80_returns_witness:
  "\<exists>t. int80 idt1 0xc0101650 0x1000 0x2000 ((user_start 0xc0540000)\<lparr>x_eax := 1, x_ebx := 3\<rparr>) user1
      = Some (Inr ((user_start 0xc0540000)\<lparr>x_eax := 0, x_ebx := 3\<rparr>, t)) \<and> screen_of t = screen_put 0x33 7 (screen_of user1)"
proof -
  have "terminal_inv user1" "current user1 = Some 0" "syscall_reply 1 3 = Some (0, [0x33])"
    by (simp_all add: user1_def terminal_inv_def VGA_HEIGHT_def VGA_WIDTH_def syscall_reply_def word_le_nat_alt)
  with int80_returns [OF idt1_gates(2), where c = "(user_start 0xc0540000)\<lparr>x_eax := 1, x_ebx := 3\<rparr>" and s = user1 and cur = 0
      and v = 0 and out = "[0x33]" and ret = "0xc0101650" and a = "0x1000" and b = "0x2000"] user1_apart
  show ?thesis by (auto simp: user_start_def)
qed

theorem first_task_enters_user_mode_witness:
  "\<exists>t u. scheduler_boot 0xc0101700 0xc0102000 0xc0540000 sched0 = Inr (Scan 0 False, t)
     \<and> sched_step (Scan 0 False, t) (In_Task 0 False, u) \<and> eip u = 0xc0102000
     \<and> jump_userspace_code ((user_start 0)\<lparr>x_cs := 8, x_esp := c_esp (cpu u) + 4\<rparr>, ram u) = (user_start 0xc0540000, ram u)"
proof -
  have "kalloc sched0 = (0xc0300000, sched0\<lparr>freelist_head := 0\<rparr>)" by (simp add: kalloc_def)
  moreover have "boot_state sched0" by (simp add: boot_state_def sched0_gdt MAX_TASKS_def)
  ultimately obtain t u where "scheduler_boot 0xc0101700 0xc0102000 0xc0540000 sched0 = Inr (Scan 0 False, t)"
    "sched_step (Scan 0 False, t) (In_Task 0 False, u)" "eip u = 0xc0102000"
    and j: "\<forall>d m. x_esp d = c_esp (cpu u) + 4 \<and> x_cs d AND 3 = 0 \<and> (\<forall>a. in_range (c_esp (cpu u) + 4) 60 a \<longrightarrow> m a = ram u a) \<longrightarrow>
      jump_userspace_code (d, m) = (user_start 0xc0540000, m)"
    using first_task_enters_user_mode [of sched0 "0xc0300000" _ "0xc0101700" "0xc0102000" "0xc0540000"] by (simp, blast)
  moreover from j [rule_format, of "(user_start 0)\<lparr>x_cs := 8, x_esp := c_esp (cpu u) + 4\<rparr>" "ram u"]
  have "jump_userspace_code ((user_start 0)\<lparr>x_cs := 8, x_esp := c_esp (cpu u) + 4\<rparr>, ram u) = (user_start 0xc0540000, ram u)" by simp
  ultimately show ?thesis by blast
qed

end
