(* ===== verification/User_Program.thy ===== *)
theory User_Program
  imports Machine Entry
begin

text \<open>
  The user program: \<^verbatim>\<open>src/syscall.S\<close>, running on the kernel of \<open>Machine\<close>.

  The program is the list \<open>userspace_code\<close>; an index of the list stands for an address in it. The composed system has
  the state of the program (position, registers, log of its system calls) and the state of the machine. It starts when the
  first task enters user mode; what that task does before, in \<open>task_init\<close> and \<open>init_late\<close>, are steps of
  the machine, so that it starts in any state of the machine in which that task runs. Its
  steps are the instructions of the program, of which \<^verbatim>\<open>int $0x80\<close> goes through the entry code of \<open>Entry\<close> into
  \<open>syscall_irq\<close>, and the steps that the kernel and the devices make by themselves. As in \<open>Machine\<close>, a system call,
  a handler and a context switch are one step each.
\<close>

section \<open>The program\<close>

datatype user_instr = Mov_imm u32 reg32 | Int_0x80 | Jmp nat

definition userspace_code :: "user_instr list" where
  "userspace_code =
     [Mov_imm 0x1 EAX, Mov_imm 0x1 EBX, Int_0x80,
      Mov_imm 0x0 EAX, Mov_imm 5 EBX, Int_0x80,
      Mov_imm 0x1 EAX, Mov_imm 0x2 EBX, Int_0x80,
      Mov_imm 0x2 EAX, Int_0x80,
      Mov_imm 0x1 EAX, Mov_imm 0x3 EBX, Int_0x80,
      Jmp 0]"

record user =
  u_pos :: nat
  u_regs :: x86
  u_calls :: "((u32 \<times> u32) \<times> u32) list"   \<comment> \<open>number and argument, result\<close>

fun exec_user :: "user_instr \<Rightarrow> user \<Rightarrow> user option" where
  "exec_user (Mov_imm v r) u = Some (u\<lparr>u_regs := set_reg r v (u_regs u), u_pos := Suc (u_pos u)\<rparr>)"
| "exec_user Int_0x80 u = None"
| "exec_user (Jmp n) u = Some (u\<lparr>u_pos := n\<rparr>)"

text \<open>The state after a call: the result is in \<^verbatim>\<open>eax\<close>, the other registers are those of the frame.\<close>

definition answer :: "u32 \<Rightarrow> user \<Rightarrow> user" where
  "answer v u = u\<lparr>u_pos := Suc (u_pos u), u_regs := (u_regs u)\<lparr>x_eax := v\<rparr>,
     u_calls := u_calls u @ [((x_eax (u_regs u), x_ebx (u_regs u)), v)]\<rparr>"

section \<open>The program on the kernel\<close>

text \<open>What happens without the program: the scheduler and the interrupts of the devices.\<close>

inductive background_step :: "device \<Rightarrow> u32 \<Rightarrow> sched_pc \<times> 'a ata_scheme \<Rightarrow> sched_pc \<times> 'a ata_scheme \<Rightarrow> bool"
  for hw :: device and hk :: u32 where
  scheduler: "sched_step a b \<Longrightarrow> background_step hw hk a b"
| timer: "irq_window pc s \<Longrightarrow> timer_irq s = Inr s' \<Longrightarrow> background_step hw hk (pc, s) (resume pc s')"
| spurious: "irq_window pc s \<Longrightarrow> background_step hw hk (pc, s) (resume pc (spurious_irq s))"
| keyboard: "irq_window pc s \<Longrightarrow> keyboard_irq (kernel_call hk) hw s = Inr s' \<Longrightarrow> background_step hw hk (pc, s) (resume pc s')"
| disk_1: "irq_window pc s \<Longrightarrow> ide_irq1 hw s = Inr s' \<Longrightarrow> background_step hw hk (pc, s) (resume pc s')"
| disk_2: "irq_window pc s \<Longrightarrow> background_step hw hk (pc, s) (resume pc (ide_irq2 s))"

text \<open>A call that blocks is entered in the log, with the value that its C function returns, when it is made; the program goes
  on with the next instruction when the scheduler runs its task again, since its instructions need \<open>In_Task\<close>.\<close>

inductive user_step ::
  "device \<Rightarrow> u32 \<Rightarrow> idt_entry list \<Rightarrow> user \<times> sched_pc \<times> 'a ata_scheme \<Rightarrow> user \<times> sched_pc \<times> 'a ata_scheme \<Rightarrow> bool"
  for hw :: device and hk :: u32 and idt :: "idt_entry list" where
  instr: "exec_user (userspace_code ! u_pos u) u = Some u' \<Longrightarrow>
    user_step hw hk idt (u, In_Task i found, s) (u', In_Task i found, s)"
| call: "userspace_code ! u_pos u = Int_0x80 \<Longrightarrow> enter80 idt ret (u_regs u) s = (d, p, m) \<Longrightarrow> fresh_request a s \<Longrightarrow>
    syscall_irq a sector (load_regs m p) (s\<lparr>ram := m\<rparr>) = Some (Inr (rg, s')) \<Longrightarrow>
    user_step hw hk idt (u, In_Task i found, s) (answer (r_eax rg) u, resume (In_Task i found) s')"
| background: "background_step hw hk k k' \<Longrightarrow> user_step hw hk idt (u, k) (u, k')"

definition user_init :: "device \<Rightarrow> u32 \<Rightarrow> linker \<Rightarrow> user \<times> sched_pc \<times> 'a kernel_scheme \<Rightarrow> bool" where
  "user_init hw hk ld uk \<longleftrightarrow> reach (machine_init hw ld) (machine_step hw hk) (snd uk) \<and> (\<exists>found s. snd uk = (In_Task 0 found, s))
     \<and> fst uk = \<lparr>u_pos = 0, u_regs = user_start (userspace_fn ld), u_calls = []\<rparr>"

section \<open>The composed system is a run of the machine\<close>

lemma background_machine: "background_step hw hk k k' \<Longrightarrow> machine_step hw hk k k'"
  by (induction rule: background_step.induct) (auto intro: machine_step.intros)

lemma more_same: "ata.more_update (\<lambda>x. x) (s :: 'a ata_scheme) = s"
  by (cases s) simp

lemma user_machine: "user_step hw hk idt uk uk' \<Longrightarrow> (machine_step hw hk)\<^sup>*\<^sup>* (snd uk) (snd uk')"
proof (induction rule: user_step.induct)
  case (call u ret s d p m a sector rg s' i found)
  have "machine_step hw hk (In_Task i found, s) (In_Task i found, s\<lparr>ram := m\<rparr>)"
    using machine_step.task_code [where s = s and c = "cpu s" and e = "eip s" and m = m and fl = "eflags s" and g = "\<lambda>x. x"] by (simp add: more_same)
  moreover have "fresh_request a (s\<lparr>ram := m\<rparr>)" using call.hyps(3) by (simp add: fresh_request_def)
  from machine_step.syscall [OF this call.hyps(4)]
  have "machine_step hw hk (In_Task i found, s\<lparr>ram := m\<rparr>) (resume (In_Task i found) s')" .
  ultimately show ?case by (simp add: converse_rtranclp_into_rtranclp)
qed (auto intro: background_machine)

lemma reach_runs: "step\<^sup>*\<^sup>* a b \<Longrightarrow> reach init step a \<Longrightarrow> reach init step b"
  by (induction rule: rtranclp_induct) (auto intro: reach_step)

section \<open>The calls of the program\<close>

text \<open>One round of calls: number and argument. The argument of the fourth is what the third left in \<^verbatim>\<open>ebx\<close>.\<close>

definition call_cycle :: "(u32 \<times> u32) list" where
  "call_cycle = [(1, 1), (0, 5), (1, 2), (2, 2), (1, 3)]"

text \<open>What is known at each position: the calls made in this round and the registers.\<close>

definition user_known :: "(nat \<times> u32 option \<times> u32 option) list" where
  "user_known =
     [(0, None, None), (0, Some 1, None), (0, Some 1, Some 1),
      (1, None, None), (1, Some 0, None), (1, Some 0, Some 5),
      (2, None, None), (2, Some 1, None), (2, Some 1, Some 2),
      (3, None, Some 2), (3, Some 2, Some 2),
      (4, None, None), (4, Some 1, None), (4, Some 1, Some 3),
      (0, None, None)]"

definition user_inv :: "user \<Rightarrow> bool" where
  "user_inv u \<longleftrightarrow> u_pos u < 15 \<and> x_cs (u_regs u) AND 3 = 3
     \<and> (case user_known ! u_pos u of (n, a, b) \<Rightarrow> length (u_calls u) mod 5 = n
          \<and> (\<forall>v. a = Some v \<longrightarrow> x_eax (u_regs u) = v) \<and> (\<forall>v. b = Some v \<longrightarrow> x_ebx (u_regs u) = v))
     \<and> u_calls u = map (\<lambda>k. (call_cycle ! (k mod 5), 0)) [0..<length (u_calls u)]"

lemma pos_cases:
  "(p :: nat) < 15 \<longleftrightarrow> p = 14 \<or> p = 13 \<or> p = 12 \<or> p = 11 \<or> p = 10 \<or> p = 9 \<or> p = 8 \<or> p = 7 \<or> p = 6 \<or> p = 5 \<or> p = 4 \<or> p = 3
     \<or> p = 2 \<or> p = 1 \<or> p = 0"
  by presburger

lemmas user_tables = userspace_code_def user_known_def call_cycle_def

lemma exec_user_inv:
  assumes "user_inv u" "exec_user (userspace_code ! u_pos u) u = Some u'"
  shows "user_inv u'"
  using assms unfolding user_inv_def pos_cases by (auto simp: user_tables)

text \<open>The call that the program makes next.\<close>

lemma next_call:
  assumes "user_inv u" "userspace_code ! u_pos u = Int_0x80"
  shows "(x_eax (u_regs u), x_ebx (u_regs u)) = call_cycle ! (length (u_calls u) mod 5)"
  using assms unfolding user_inv_def pos_cases by (auto simp: user_tables)

lemma answer_inv:
  assumes "user_inv u" "userspace_code ! u_pos u = Int_0x80"
  shows "user_inv (answer 0 u)"
proof -
  let ?n = "length (u_calls u)"
  have m: "Suc ?n mod 5 = (if ?n mod 5 = 4 then 0 else Suc (?n mod 5))" by (simp add: mod_Suc)
  have "fst (user_known ! Suc (u_pos u)) = (if ?n mod 5 = 4 then 0 else Suc (?n mod 5))" "Suc (u_pos u) < 15"
    "fst (snd (user_known ! Suc (u_pos u))) = None"
    "\<forall>v. snd (snd (user_known ! Suc (u_pos u))) = Some v \<longrightarrow> x_ebx (u_regs u) = v"
    using assms unfolding user_inv_def pos_cases by (auto simp: user_tables)
  with assms(1) m next_call [OF assms] show ?thesis
    by (simp add: user_inv_def answer_def split_def)
qed

section \<open>The only task\<close>

text \<open>The program is the only task: the kernel allocates one when it starts the scheduler, and no step allocates or frees one.\<close>

definition lone_task :: "'a sched_scheme \<Rightarrow> bool" where
  "lone_task s \<longleftrightarrow> (\<forall>i<MAX_TASKS. state (tasks s ! i) = TASK_NOT_ALLOCATED \<longleftrightarrow> 0 < i)"

lemma lone_same: "tasks t = tasks s \<Longrightarrow> lone_task t = lone_task s"
  by (simp add: lone_task_def)

lemma lone_upd:
  assumes "lone_task s" "length (tasks s) = MAX_TASKS" "tasks t = (tasks s)[0 := e]" "state e \<noteq> TASK_NOT_ALLOCATED"
  shows "lone_task t"
proof -
  have "state (tasks t ! i) = TASK_NOT_ALLOCATED \<longleftrightarrow> 0 < i" if "i < MAX_TASKS" for i
    using assms that by (cases "i = 0") (auto simp: lone_task_def)
  then show ?thesis by (simp add: lone_task_def)
qed

lemma lone_resume [simp]: "lone_task (snd (resume pc s)) = lone_task s"
  by (rule lone_same) (auto simp: resume_def disable_irq_def split: sched_pc.splits)

lemma lone_eoi [simp]: "lone_task (apic_eoi (s :: 'a ata_scheme)) = lone_task s"
  by (rule lone_same) (simp_all add: eoi_eq)

lemma lone_runs: "machine_inv (In_Task i found, s) \<Longrightarrow> lone_task s \<Longrightarrow> i = 0"
  by (auto simp: machine_inv_def sched_inv_def pc_inv_def lone_task_def)

text \<open>The queue holds the request of the program while it waits for the disk, and nothing else.\<close>

lemma lone_queue:
  assumes "disk_inv s" "lone_task s"
  shows "req_queue s \<noteq> NULL \<longleftrightarrow> state (tasks s ! 0) = TASK_DISK_READ"
    and "req_queue s \<noteq> NULL \<Longrightarrow> rq_task (reqs s (req_queue s)) = 0 \<and> rq_next (reqs s (req_queue s)) = NULL
           \<and> rq_count (reqs s (req_queue s)) \<noteq> 0"
proof -
  obtain as where as: "queued (req_queue s, reqs s) as" "distinct (waiters s as)"
    "set (waiters s as) = {i. i < MAX_TASKS \<and> state (tasks s ! i) = TASK_DISK_READ}" "\<forall>a\<in>set as. rq_count (reqs s a) \<noteq> 0"
    using assms(1) by (auto simp: disk_inv_def)
  have "{i. i < MAX_TASKS \<and> state (tasks s ! i) = TASK_DISK_READ} = (if state (tasks s ! 0) = TASK_DISK_READ then {0} else {})"
    using assms(2) by (force simp: lone_task_def MAX_TASKS_def)
  with as(3) have w: "set (waiters s as) = (if state (tasks s ! 0) = TASK_DISK_READ then {0} else {})" by simp
  have one: "length (waiters s as) \<le> 1" using distinct_card [OF as(2)] w by (simp split: if_splits)
  then consider "as = []" | a where "as = [a]" by (cases as; cases "tl as") (auto simp: waiters_def)
  then have "(req_queue s \<noteq> NULL \<longleftrightarrow> state (tasks s ! 0) = TASK_DISK_READ) \<and> (req_queue s \<noteq> NULL \<longrightarrow>
      rq_task (reqs s (req_queue s)) = 0 \<and> rq_next (reqs s (req_queue s)) = NULL \<and> rq_count (reqs s (req_queue s)) \<noteq> 0)"
    using as(1,4) w by cases (auto simp: queued_def waiters_def split: if_splits)
  then show "req_queue s \<noteq> NULL \<longleftrightarrow> state (tasks s ! 0) = TASK_DISK_READ"
    "req_queue s \<noteq> NULL \<Longrightarrow> rq_task (reqs s (req_queue s)) = 0 \<and> rq_next (reqs s (req_queue s)) = NULL
           \<and> rq_count (reqs s (req_queue s)) \<noteq> 0" by blast+
qed

lemma lone_timer:
  assumes "machine_inv (pc, s)" "lone_task s" "timer_irq s = Inr s'"
  shows "lone_task s'"
proof -
  have l: "length (tasks s) = MAX_TASKS" using assms(1) by (simp add: machine_inv_def sched_inv_def)
  let ?ts = "map tick_task (tasks s)"
  have "state (?ts ! i) = TASK_NOT_ALLOCATED \<longleftrightarrow> state (tasks s ! i) = TASK_NOT_ALLOCATED" if "i < MAX_TASKS" for i
    using l that by (simp add: tick_task_def Let_def)
  moreover have "state (?ts[k := (?ts ! k)\<lparr>ctx := c\<rparr>] ! i) = state (?ts ! i)" for k c i
    using nth_updated [of ?ts k "\<lambda>t. t\<lparr>ctx := c\<rparr>" i] by fastforce
  moreover have "tasks s' = (case current s of None \<Rightarrow> ?ts | Some k \<Rightarrow> ?ts[k := (?ts ! k)\<lparr>ctx := cpu s\<rparr>])"
    "req_queue s' = req_queue s" "reqs s' = reqs s"
    using assms(3) l by (cases "current s"; auto simp: timer_irq_eq scheduler_tick_eq reschedule_eq Let_def)+
  ultimately show ?thesis using assms(2) by (simp add: lone_task_def split: option.splits)
qed

lemma lone_disk:
  assumes "machine_inv (pc, s)" "lone_task s" "ide_irq1 hw s = Inr s'"
  shows "lone_task s'"
proof -
  obtain t where t: "ata_process_request hw s = Inr t" "s' = apic_eoi t" using assms(3) by (auto simp: ide_irq1_def split: sum.splits)
  let ?q = "req_queue s"
  note sh = process_shape [OF t(1) refl refl]
  have d: "disk_inv s" "length (tasks s) = MAX_TASKS" using assms(1) by (simp_all add: machine_inv_def disk_inv_def)
  have q: "rq_task (reqs s ?q) = 0" using lone_queue(2) [OF d(1) assms(2)] sh by simp
  have "lone_task t"
  proof (cases "rq_count (reqs s ?q) = 1")
    case True
    show ?thesis using assms(2) d(2) by (rule lone_upd [where e = "(tasks s ! 0)\<lparr>state := TASK_RUNNING\<rparr>"]) (use sh q True in simp_all)
  next
    case False
    then show ?thesis using sh assms(2) by (simp add: lone_task_def)
  qed
  then show ?thesis by (simp add: t(2))
qed

lemma lone_read:
  assumes inv: "machine_inv (In_Task i found, s)" and a: "fresh_request a s" "n < 256" and l: "lone_task s"
    and r: "ata_read a buf lba n s = Some (Inr s')"
  shows "lone_task s'"
proof -
  have c: "length (tasks s) = MAX_TASKS" "i = 0" using inv lone_runs [OF inv l] by (simp_all add: machine_inv_def sched_inv_def)
  obtain q rs where "reschedule (s\<lparr>
      io_log := (if req_queue s = NULL then issue_log (primary_master s) (new_req buf lba n i) else []) @ io_log s,
      tasks := (tasks s)[i := (tasks s ! i)\<lparr>state := TASK_DISK_READ\<rparr>], req_queue := q, reqs := rs\<rparr>) = Inr s'" "current s = Some i"
    by (rule read_shape [OF inv a, of buf lba]) (use r in simp)
  then have "tasks s' = (tasks s)[0 := (tasks s ! 0)\<lparr>state := TASK_DISK_READ, ctx := cpu s\<rparr>]"
    using c by (auto simp: reschedule_eq MAX_TASKS_def)
  from lone_upd [OF l c(1) this] show ?thesis by simp
qed

lemma lone_syscall:
  assumes inv: "machine_inv (In_Task i found, s)" and a: "fresh_request a s" and l: "lone_task s"
    and r: "syscall_irq a sector rg s = Some (Inr (rg', s'))"
  shows "lone_task s'"
proof -
  have c: "current s = Some i" "length (tasks s) = MAX_TASKS" "disk_inv s" "state (tasks s ! i) = TASK_RUNNING"
    using inv by (simp_all add: machine_inv_def sched_inv_def pc_inv_def)
  have i: "i = 0" by (rule lone_runs [OF inv l])
  have u: "is_userspace rg" using r by (simp add: syscall_irq_def split: if_splits)
  note eqs = syscall_irq_eqs [OF u c(1)]
  consider "r_eax rg = 0" | "r_eax rg = 1" | "r_eax rg = 2" | "3 \<le> r_eax rg" using nr_cases [of "r_eax rg"] by force
  then show ?thesis
  proof cases
    case 1
    then have "s' = s \<or> tasks s' = (tasks s)[0 := (tasks s ! 0)\<lparr>ticks_remaining := r_ebx rg, state := TASK_WAITING, ctx := cpu s\<rparr>]"
      using eqs(1) r c i by (auto simp: syscall_wait_def reschedule_eq upd_task_def Let_def MAX_TASKS_def split: if_splits)
    then show ?thesis
      using l lone_upd [OF l c(2), where e = "(tasks s ! 0)\<lparr>ticks_remaining := r_ebx rg, state := TASK_WAITING, ctx := cpu s\<rparr>"] by auto
  next
    case 2
    then have "\<exists>cs. s' = terminal_write cs 7 s" using eqs(2) r by (auto simp: syscall_print_def terminal_writestring_def vga_entry_color_def)
    then have "kbd.more s' = kbd.more s" using terminal_upper by blast
    from lone_same [OF sched_fields(1) [OF this]] sched_fields [OF this] l show ?thesis by simp
  next
    case 3
    then have rd: "ata_read a sector 12 4 s = Some (Inr s')"
      using eqs(3) r by (auto simp: syscall_read_def bindk_def split: option.splits sum.splits)
    show ?thesis by (rule lone_read [OF inv a _ l rd]) simp
  next
    case 4
    then show ?thesis using eqs(4) r l by simp
  qed
qed

lemma lone_step: "machine_step hw hk k k' \<Longrightarrow> machine_inv k \<Longrightarrow> lone_task (snd k) \<Longrightarrow> lone_task (snd k')"
proof (induction rule: machine_step.induct)
  case (scheduler a b)
  then show ?case
  proof (induction rule: sched_step.induct)
    case (found_running i s s' found)
    then have "tasks s' = tasks s" using switch_to_eq [of s "gdts s" i] by (auto simp: machine_inv_def sched_inv_def)
    then show ?case using found_running.prems lone_same [of s' s] by simp
  qed (simp_all add: lone_task_def do_idle_def enable_irq_def)
next
  case (task_code i found s g c e m fl)
  then show ?case by (simp add: lone_task_def)
next
  case (kernel_read a s n buf lba s' i found)
  then show ?case using lone_read by simp
next
  case (kernel_alloc i found s)
  have "kbd.more (snd (kalloc s)) = kbd.more s" by (rule upper_kmem [OF kalloc_more])
  from lone_same [OF sched_fields(1) [OF this]] kernel_alloc.prems show ?case by simp
next
  case (kernel_print i found s data color)
  from lone_same [OF sched_fields(1) [OF terminal_upper [of data color s]]] kernel_print.prems show ?case by simp
next
  case (page_fault rg s s' i found)
  then show ?case by (simp add: pagefault_irq_def split: if_splits)
next
  case (keyboard pc s s')
  from lone_same [OF sched_fields(1) [OF keyboard_upper [OF keyboard.hyps(2)]]] keyboard.prems show ?case by simp
qed (auto intro: lone_timer lone_disk lone_syscall simp: spurious_irq_def ide_irq2_def)

lemma lone_runs_on: "(machine_step hw hk)\<^sup>*\<^sup>* a b \<Longrightarrow> machine_inv a \<and> lone_task (snd a) \<Longrightarrow> machine_inv b \<and> lone_task (snd b)"
  by (induction rule: rtranclp_induct) (auto intro: machine_step_inv lone_step)

section \<open>The program under the kernel\<close>

lemma sched_init_alone:
  assumes "sched_init ju ti uf (pc, t)" "i < MAX_TASKS"
  shows "state (tasks t ! i) = TASK_NOT_ALLOCATED \<longleftrightarrow> 0 < i"
proof -
  obtain s where b: "boot_state s" and k: "scheduler_boot ju ti uf s = Inr (pc, t)" using assms(1) by (auto simp: sched_init_def)
  have "find (\<lambda>i. state (tasks s ! i) = TASK_NOT_ALLOCATED) [0..<MAX_TASKS] = Some 0"
    using b by (simp add: find_upt_Some boot_state_def MAX_TASKS_def)
  with k obtain u where u: "task_setup ju ti (Suc 0) s = (0, u)" "tasks t = tasks u"
    by (auto simp: scheduler_boot_def task_allocate_def split: prod.splits if_splits)
  have "0 < length (tasks s)" using b by (simp add: boot_state_def MAX_TASKS_def)
  from task_setup_tasks [OF u(1) this] b assms(2) show ?thesis unfolding u(2) by (cases "i = 0") (auto simp: boot_state_def)
qed

definition composed_inv :: "user \<times> sched_pc \<times> 'a ata_scheme \<Rightarrow> bool" where
  "composed_inv uk \<longleftrightarrow> user_inv (fst uk) \<and> machine_inv (snd uk) \<and> lone_task (snd (snd uk))"

text \<open>The frame that the entry code builds for a call of the program.\<close>

lemma program_frame:
  assumes "gate_of (idt ! 128) = (target, sel, fl)" "user_inv u" "enter80 idt ret (u_regs u) s = (d, p, m)"
  shows "saved_regs (u_regs u) 0 (load_regs m p)" "is_userspace (load_regs m p)"
proof -
  have u: "x_cs (u_regs u) AND 3 = 3" using assms(2) by (simp add: user_inv_def)
  show s: "saved_regs (u_regs u) 0 (load_regs m p)"
    by (rule enter80_frame [OF assms(1) u, where ret = ret and s = s]) (use assms(3) in simp)
  show "is_userspace (load_regs m p)" using s u by (simp add: saved_regs_def is_userspace_def ucast_rpl)
qed

text \<open>The calls of the cycle are all accepted.\<close>

lemma cycle_accepted:
  assumes "(r_eax rg, r_ebx rg) = call_cycle ! (n mod 5)" "is_userspace rg" "current s = Some cur"
    and "syscall_irq a sector rg s = Some (Inr (rg', s'))"
  shows "r_eax rg' = 0"
proof -
  have "n mod 5 < 5" by simp
  then have "n mod 5 = 0 \<or> n mod 5 = 1 \<or> n mod 5 = 2 \<or> n mod 5 = 3 \<or> n mod 5 = 4" by linarith
  with assms(1) have "r_eax rg = 1 \<or> r_eax rg = 0 \<and> r_ebx rg = 5 \<or> r_eax rg = 2" by (auto simp: call_cycle_def)
  with assms(4) syscall_irq_eqs [OF assms(2,3), of a sector] assms(3) show ?thesis
    by (auto simp: syscall_print_def syscall_read_def syscall_wait_def reschedule_eq bindk_def Let_def word_sle_eq
        split: option.splits sum.splits)
qed

lemma composed_call:
  assumes g: "gate_of (idt ! 128) = (target, sel, fl)" and inv: "composed_inv (u, In_Task i found, s)"
    and c: "userspace_code ! u_pos u = Int_0x80" "enter80 idt ret (u_regs u) s = (d, p, m)"
    and r: "syscall_irq a sector (load_regs m p) (s\<lparr>ram := m\<rparr>) = Some (Inr (rg, s'))"
  shows "user_inv (answer (r_eax rg) u)"
proof -
  have u: "user_inv u" using inv by (simp add: composed_inv_def)
  note f = program_frame [OF g u c(2)]
  have "current (s\<lparr>ram := m\<rparr>) = Some i" using inv by (simp add: composed_inv_def machine_inv_def sched_inv_def pc_inv_def)
  from cycle_accepted [OF _ f(2) this r] next_call [OF u c(1)] f(1) have "r_eax rg = 0" by (simp add: saved_regs_def)
  with answer_inv [OF u c(1)] show ?thesis by simp
qed

lemma composed_step_inv:
  assumes g: "gate_of (idt ! 128) = (target, sel, fl)" and step: "user_step hw hk idt uk uk'" and inv: "composed_inv uk"
  shows "composed_inv uk'"
proof -
  have "machine_inv (snd uk') \<and> lone_task (snd (snd uk'))"
    using lone_runs_on [OF user_machine [OF step]] inv by (simp add: composed_inv_def)
  moreover from step inv have "user_inv (fst uk')"
  proof (induction rule: user_step.induct)
    case (call u ret s d p m a sector rg s' i found)
    from composed_call [OF g call.prems call.hyps(1,2,4)] show ?case by simp
  qed (auto simp: composed_inv_def intro: exec_user_inv)
  ultimately show ?thesis by (simp add: composed_inv_def)
qed

lemma init_lone:
  assumes "machine_init hw ld k"
  shows "lone_task (snd k)"
proof -
  obtain st mbd s where k: "fresh_kernel s" "kernel_main hw ld st mbd s = Some (Inr (fst k, snd k))"
    using assms by (auto simp: machine_init_def)
  have l: "sched_init (jump_userspace ld) (task_init_ptr ld) (userspace_fn ld) (fst k, snd k)" "disk_init (snd k)"
    using kernel_main_lands(2,3) [OF _ _ _ _ k(2)] k(1) by (simp_all add: fresh_kernel_def)
  from sched_init_alone [OF l(1)] show ?thesis by (simp add: lone_task_def)
qed

text \<open>The invariant of the machine, with the lone task.\<close>

interpretation alone: invariant_system "machine_init hw ld" "machine_step hw hk" "\<lambda>k. machine_inv k \<and> lone_task (snd k)"
  by unfold_locales (auto intro: machine_init_inv init_lone machine_step_inv lone_step)

lemma composed_system:
  assumes "gate_of (idt ! 128) = (target, sel, fl)"
  shows "invariant_system (user_init hw hk ld) (user_step hw hk idt) composed_inv"
proof
  fix uk :: "user \<times> sched_pc \<times> 'a kernel_scheme"
  assume i: "user_init hw hk ld uk"
  then have "machine_inv (snd uk) \<and> lone_task (snd (snd uk))" unfolding user_init_def by (blast dest: alone.reach_inv)
  with i show "composed_inv uk" by (auto simp: user_init_def composed_inv_def user_inv_def user_start_def user_known_def)
qed (rule composed_step_inv [OF assms])

section \<open>From one call to the next\<close>

lemma composed_runs: "gate_of (idt ! 128) = (target, sel, fl) \<Longrightarrow> (user_step hw hk idt)\<^sup>*\<^sup>* a b \<Longrightarrow> composed_inv a \<Longrightarrow> composed_inv b"
  by (rotate_tac, induction rule: rtranclp_induct) (auto intro: composed_step_inv)

text \<open>The instructions up to the next call.\<close>

definition until_call :: "nat list" where
  "until_call = [2, 1, 0, 2, 1, 0, 2, 1, 0, 1, 0, 2, 1, 0, 3]"

lemma instr_or_call:
  assumes "user_inv u"
  shows "userspace_code ! u_pos u = Int_0x80
    \<or> (\<exists>u'. exec_user (userspace_code ! u_pos u) u = Some u' \<and> u_calls u' = u_calls u \<and> until_call ! u_pos u' < until_call ! u_pos u)"
  using assms unfolding user_inv_def pos_cases by (auto simp: user_tables until_call_def)

lemma comes_to_call:
  "user_inv u \<Longrightarrow> \<exists>u'. (user_step hw hk idt)\<^sup>*\<^sup>* (u, In_Task i f, s) (u', In_Task i f, s) \<and> userspace_code ! u_pos u' = Int_0x80
     \<and> u_calls u' = u_calls u"
proof (induction "until_call ! u_pos u" arbitrary: u rule: less_induct)
  case less
  from instr_or_call [OF less.prems] show ?case
  proof
    assume "\<exists>u'. exec_user (userspace_code ! u_pos u) u = Some u' \<and> u_calls u' = u_calls u \<and> until_call ! u_pos u' < until_call ! u_pos u"
    then obtain u' where u': "exec_user (userspace_code ! u_pos u) u = Some u'" "u_calls u' = u_calls u"
      "until_call ! u_pos u' < until_call ! u_pos u" by blast
    from less.hyps [OF u'(3) exec_user_inv [OF less.prems u'(1)]] user_step.instr [OF u'(1), of hw hk idt i f s] u'(2)
    show ?case by (metis converse_rtranclp_into_rtranclp)
  qed blast
qed

lemma call_happens:
  assumes gate: "gate_of (idt ! 128) = (target, sel, fl)" and inv: "composed_inv (u, In_Task 0 f, s)" and c: "userspace_code ! u_pos u = Int_0x80"
  shows "\<exists>k'. user_step hw hk idt (u, In_Task 0 f, s) (answer 0 u, k')"
proof -
  obtain d p m where e: "enter80 idt 0 (u_regs u) s = (d, p, m)" by (metis prod_cases3)
  have u: "user_inv u" using inv by (simp add: composed_inv_def)
  note fr = program_frame [OF gate u e]
  let ?s = "s\<lparr>ram := m\<rparr>"
  have s: "machine_inv (In_Task 0 f, ?s)" "disk_inv s" "lone_task s" "state (tasks s ! 0) = TASK_RUNNING" "current ?s = Some 0"
    using inv by (simp_all add: composed_inv_def machine_inv_def sched_inv_def pc_inv_def disk_inv_def waiters_def)
  have "req_queue s = NULL" using lone_queue(1) [OF s(2,3)] s(4) by simp
  then have a: "fresh_request 1 s" "fresh_request 1 ?s" by (auto simp: fresh_request_def queued_def dest: chain_head)
  obtain rg s' where r: "syscall_irq 1 0x1000 (load_regs m p) ?s = Some (Inr (rg, s'))"
    using syscall_returns [OF s(1) a(2) fr(2), of "0x1000"] by blast
  have "r_eax rg = 0"
    using cycle_accepted [OF _ fr(2) s(5) r] next_call [OF u c] fr(1) by (simp add: saved_regs_def)
  then show ?thesis using user_step.call [OF c e a(1) r, of hw hk 0 f] by (metis (no_types))
qed

lemma next_call_answered:
  assumes gate: "gate_of (idt ! 128) = (target, sel, fl)" and inv: "composed_inv (u, In_Task 0 f, s)"
  shows "\<exists>u' k'. (user_step hw hk idt)\<^sup>*\<^sup>* (u, In_Task 0 f, s) (u', k')
    \<and> u_calls u' = u_calls u @ [(call_cycle ! (length (u_calls u) mod 5), 0)]"
proof -
  obtain v where r: "(user_step hw hk idt)\<^sup>*\<^sup>* (u, In_Task 0 f, s) (v, In_Task 0 f, s)" and v: "userspace_code ! u_pos v = Int_0x80"
    "u_calls v = u_calls u" using comes_to_call [of u hw hk idt 0 f s] inv by (auto simp: composed_inv_def)
  note i = composed_runs [OF gate r inv]
  obtain k' where "user_step hw hk idt (v, In_Task 0 f, s) (answer 0 v, k')" using call_happens [OF gate i v(1)] by blast
  with r have "(user_step hw hk idt)\<^sup>*\<^sup>* (u, In_Task 0 f, s) (answer 0 v, k')" by (rule rtranclp.rtrancl_into_rtrancl)
  moreover have "u_calls (answer 0 v) = u_calls u @ [(call_cycle ! (length (u_calls u) mod 5), 0)]"
    using next_call [OF _ v(1)] i v(2) by (simp add: composed_inv_def answer_def)
  ultimately show ?thesis by blast
qed


section \<open>A concrete run\<close>


end
