(* ===== verification/Spec2Isabelle.thy ===== *)
theory Spec2Isabelle
  imports Machine_Bounds Ext2_Mount Spinlock Start User_Program
begin

text \<open>
  A verification development of a small 32-bit x86 kernel. The sources are the C and assembly files of the flat
  directory \<^verbatim>\<open>src/\<close>; file and function names below are those of the sources, and definitions carry the names of
  the C functions, types and macros they model.

  \<^bold>\<open>The program.\<close> \<open>boot.S\<close> turns paging on with a boot directory and calls \<open>kernel_main\<close> (\<open>kernel.c\<close>), which
  sets up the descriptor tables (\<open>gdt.c\<close>, \<open>idt.c\<close>), the page allocator and page tables (\<open>paging.c\<close>), the
  text console (\<open>vga.c\<close>), reports the memory map (\<open>memory_map.c\<close>), finds the firmware tables (\<open>acpi.c\<close>),
  programs the interrupt controllers and calibrates the timer (\<open>apic.c\<close>), and starts the scheduler
  (\<open>sched.c\<close>). From then on interrupts drive the kernel: the timer (\<open>timer.c\<close>) counts down waiting tasks
  and preempts the running one, the keyboard (\<open>keyboard.c\<close>) fires events on the event bus (\<open>event_bus.c\<close>)
  that the console prints, the disk (\<open>ata.c\<close>, found through \<open>pci.c\<close>) transfers sectors and wakes tasks, and
  tasks call the kernel (\<open>syscall.c\<close>). The first task reads the root directory of an ext2 file system
  (\<open>ext2.c\<close>). All output goes through \<open>printk.c\<close>.

  \<^bold>\<open>How code becomes definitions.\<close> Machine integers are words of their width, with C's conversions written
  out; pointers are 32-bit words and memory is a map from addresses to bytes (\<open>Memory\<close>). State is one
  record that grows by extension, in the order of the theories: \<open>kmem\<close> (memory, free list, directory),
  \<open>console\<close>, \<open>hw\<close> (the log of device accesses, the flags register), \<open>apic\<close>, \<open>kbd\<close>, \<open>sched\<close> (task table, current
  task, saved contexts), \<open>ata\<close> (request queue), \<open>ext2\<close>, \<open>kernel\<close>. An operation is polymorphic in the rest of
  the record, so it cannot touch the state of components above it. A result is \<open>Inl\<close> of a \<open>fault\<close> where the
  code panics, fails a \<^verbatim>\<open>BUG_ON\<close>, divides by zero or leaves an array, and \<open>None\<close> where a loop need not end
  (\<^verbatim>\<open>partial_function (option)\<close>); loops that always end are functions with a termination proof or folds.
  Devices are functions from the history of accesses to the answer of the last one, arguments of the
  operations that read them. No fuel is used anywhere. Switching between tasks is a change of saved
  stack pointers and instruction pointers; what runs in between is a step relation.

  \<^bold>\<open>The theories.\<close>
  \<^item> \<open>Prelude\<close>, \<open>Memory\<close>, \<open>Layout\<close>: words, faults, address ranges, the locale \<open>invariant_system\<close> of
    reachability; byte memory and the routines of \<open>common.h\<close>; C structures as layouts.
  \<^item> \<open>Paging\<close>, \<open>Page_Tables\<close>: \<open>paging.c\<close>, and the processor's page walk as the abstract view. \<open>map_continous\<close>
    refines an update of the translation function; the allocator hands out every page once; the rights
    user code gets; exactly when the code runs into \<^verbatim>\<open>NULL\<close>. \<open>Footprint\<close>: which memory this code writes.
  \<^item> \<open>Event_Bus\<close>: the callback registry.
  \<^item> \<open>Vga\<close>, \<open>Printk\<close>: the console as an abstract screen that scrolls, and formatted output as a function from
    format and arguments to characters; both are refinement theorems over the code's buffers.
  \<^item> \<open>Acpi\<close>, \<open>Port_IO\<close>, \<open>Apic\<close>, \<open>Keyboard\<close>: table searches and checksums, with a page fault where a table is
    read that is not mapped; port input and output with the interrupt flag and \<open>panic.c\<close>; the register programming and the
    timing loop; scan code decoding with every table access checked.
  \<^item> \<open>Descriptors\<close>: segment and gate encodings through the locale \<open>codec\<close>.
  \<^item> \<open>Sched\<close>: tasks, context switches, the scheduling loop and the timer; an invariant of every reachable
    state, what a pass over the task table runs and which task runs next, the wake-up tick, the first entry into user mode, and the error branches.
  \<^item> \<open>Pci\<close>: configuration space and the search for a device.
  \<^item> \<open>Ata\<close>, \<open>Disk\<close>: the driver with its request queue (locale \<open>fifo\<close>), then the driver against a drive that
    follows the ATA standard: a request is completed by its interrupts, and in every interleaving the
    tasks in the disk wait are those with a queued request. \<open>ata_read_wait\<close> is a read from call to
    return while no other task is runnable.
  \<^item> \<open>Syscall\<close>: the dispatcher and the calls; a wait together with the timer and the scheduler; and what a timer tick
    in the middle of the context switch after a blocking call does to the task switched to.
  \<^item> \<open>Spinlock\<close>: the lock of \<open>spinlock.h\<close> under any number of threads.
  \<^item> \<open>Ext2\<close>, \<open>Ext2_Mount\<close>: block and inode reads down to the bytes of the disk, the directory listing, and the mount
    from beginning to end on a disk image that follows the file system format (\<open>ext2_image\<close>).
  \<^item> \<open>Multiboot\<close>, \<open>Memory_Map\<close>: the structures of the boot protocol, and the report on the boot loader's memory map.
  \<^item> \<open>Boot\<close>, \<open>Boot_Run\<close>: \<open>kernel_main\<close> as the composition of all of these, and a complete run of it from power-on
    to the scheduler on a machine whose firmware is in order, or to a page fault on one whose tables are not in one page.
  \<^item> \<open>Machine\<close>: the running kernel as one transition system from the states \<open>kernel_main\<close> leaves, with the scheduler, tasks,
    system calls, disk reads, allocations, output and all interrupt handlers as steps, one step each. The invariants of the scheduler and of the
    disk queue hold together, and the kernel does not stop itself. \<open>Machine_Bounds\<close>: the cursor, the modifier keys and the
    callback registry stay in bounds in this system; a key in the middle of the output of a byte breaks the bound of the cursor.

  \<^item> \<open>Start\<close>: \<open>boot.S\<close>, from the boot loader to \<open>kernel_main\<close>, over the control registers, the boot stack and the page
    walk: it arrives without a fault, with exactly the boot mappings and the boot information as argument.
  \<^item> \<open>Entry\<close>: \<open>irq.S\<close>, the entry and exit code of interrupts as instruction lists over a processor state. A handler
    sees the registers of the interrupted code and they are restored when it returns; a system call from the
    instruction to its result; the first entry into user mode.
  \<^item> \<open>User_Program\<close>: the program of \<open>syscall.S\<close> running on the kernel of \<open>Machine\<close>, a composed system that is simulated by
    the machine, from the moment the first task enters user mode: its calls are the five calls in order, all answered with 0.

  \<^bold>\<open>Interfaces.\<close> The locale \<open>invariant_system\<close> is interpreted by the scheduler (\<open>sched\<close>), the disk queue
  (\<open>disk\<close>), the running kernel (\<open>machine\<close>, \<open>bounded\<close>, \<open>alone\<close>) and the spin lock (\<open>spin\<close>), and instantiated by the user program for
  every descriptor table with a system call gate (\<open>composed_system\<close>); \<open>fifo\<close> by the request queue (\<open>reqs\<close>); \<open>codec\<close> by both descriptor tables
  (\<open>gdt\<close>, \<open>idt\<close>); output to the console goes through the interpretation \<open>tty\<close> of \<open>Printk\<close>. The properties
  rest on the facts of these interpretations.

  \<^bold>\<open>Assumptions.\<close> A drive is described by \<open>ata_disk\<close>, a PCI bus by \<open>pci_bus\<close>, firmware tables and boot information by
  \<open>firmware_ok\<close>, \<open>madt_ok\<close> and \<open>boot_info_ok\<close>, the interval timer by \<open>pit_answers\<close>; all have concrete instances
  in the witnesses. Physical memory is seen through the kernel's own mapping, so the operations on memory use virtual
  addresses. Page faults of the kernel are modelled where it reads the tables that the root table lists, which is where the code
  reads memory that it has not mapped, and as accesses through \<^verbatim>\<open>NULL\<close>; the other accesses are to memory that is mapped
  under the hypotheses of the properties. Requests of the disk driver are nodes of their own store, apart from \<open>ram\<close>.

  The processor delivers interrupts through the gates of \<open>Descriptors\<close>; that the segment descriptors allow the
  transfer is not checked in the model.

  A handler, a system call, a disk read, the output of a string and a context switch are single steps of the transition systems
  (\<open>kernel_step\<close>, \<open>machine_step\<close>, \<open>user_step\<close>), so the properties about these systems are about runs in which no
  interrupt arrives inside one of them. The code allows others, since system calls are entered through a trap gate;
  \<open>tick_inside_switch_to\<close> and \<open>key_inside_putchar\<close> show two that go wrong.

  \<^bold>\<open>Not modelled.\<close> The link map \<^verbatim>\<open>linker.ld\<close> and the build: the addresses they fix are arguments. Stack frames of C functions,
  beyond the frames that the assembly code builds. Of \<open>multiboot.h\<close>, \<open>apic.c\<close>, \<open>ata.h\<close> and \<open>ext2.c\<close> the
  constants that no code uses. Prefetching, caches and the timing of devices are not modelled, and there is one processor.
\<close>

end
